(* ===== verification/Prelude.thy ===== *)
theory Prelude
  imports Main "HOL-Library.Char_ord" "HOL-Library.List_Lexorder" "HOL-Library.Multiset"
begin

text \<open>
  Shared ground of the development: results of fallible Rust code, machine integers with their
  saturating, checked and wrapping operations, the string and number parsing the part contract
  uses, and the list lemmas the components share.

  Conventions. A Rust \<open>Result\<close> is a value of \<open>'a res\<close> (\<open>Inl\<close> an error, \<open>Inr\<close> a value); a
  \<open>bail!\<close> is \<open>Inl (Bail msg)\<close> with the source's message (interpolated values dropped); the
  errors the code downcasts to are constructors of their own. \<open>u32\<close>, \<open>u64\<close> and \<open>usize\<close> are
  \<open>nat\<close>, \<open>i32\<close> and \<open>i64\<close> are \<open>int\<close>; every \<open>saturating_\<close>, \<open>checked_\<close> and narrowing operation of
  the source is written out with its bound below. Strings are byte lists, ordered as Rust orders
  \<open>str\<close> (bytewise lexicographic).
\<close>

named_theorems res_simps \<open>unfolding of the result combinators\<close>
named_theorems int_simps \<open>unfolding of the machine-integer operations\<close>

section \<open>Results\<close>

datatype error =
    Bail string
  | DoubleConsume string
  | Fenced nat
  | OwnerConflict string
  | LogKeyHeld string
  | NativePutUnresolved
  | StoreError string

type_synonym 'a res = "error + 'a"

definition bind_res :: "'a res \<Rightarrow> ('a \<Rightarrow> 'b res) \<Rightarrow> 'b res" where
  "bind_res r f = (case r of Inl e \<Rightarrow> Inl e | Inr x \<Rightarrow> f x)"

text \<open>\<open>ensure!\<close>: stop with the message unless the condition holds.\<close>

definition ensure :: "bool \<Rightarrow> string \<Rightarrow> unit res" where
  "ensure b msg = (if b then Inr () else Inl (Bail msg))"

text \<open>\<open>Option::context\<close>.\<close>

definition ok_or :: "'a option \<Rightarrow> string \<Rightarrow> 'a res" where
  "ok_or x msg = (case x of None \<Rightarrow> Inl (Bail msg) | Some v \<Rightarrow> Inr v)"

definition is_ok :: "'a res \<Rightarrow> bool" where
  "is_ok r = (case r of Inl _ \<Rightarrow> False | Inr _ \<Rightarrow> True)"

text \<open>A \<open>for\<close> loop whose body may return early with an error.\<close>

fun res_all :: "('a \<Rightarrow> unit res) \<Rightarrow> 'a list \<Rightarrow> unit res" where
  "res_all f [] = Inr ()"
| "res_all f (x # xs) = bind_res (f x) (\<lambda>_. res_all f xs)"

fun res_map :: "('a \<Rightarrow> 'b res) \<Rightarrow> 'a list \<Rightarrow> 'b list res" where
  "res_map f [] = Inr []"
| "res_map f (x # xs) = bind_res (f x) (\<lambda>y. bind_res (res_map f xs) (\<lambda>ys. Inr (y # ys)))"

lemma bind_res_simps [simp]:
  "bind_res (Inl e) f = Inl e" "bind_res (Inr x) f = f x"
  by (simp_all add: bind_res_def)

lemma bind_res_Inr [res_simps]:
  "bind_res r f = Inr y \<longleftrightarrow> (\<exists>x. r = Inr x \<and> f x = Inr y)"
  by (cases r) simp_all

lemma bind_res_Inl [res_simps]:
  "bind_res r f = Inl e \<longleftrightarrow> r = Inl e \<or> (\<exists>x. r = Inr x \<and> f x = Inl e)"
  by (cases r) simp_all

lemma ensure_Inr [res_simps]: "ensure b msg = Inr u \<longleftrightarrow> b"
  by (simp add: ensure_def)

lemma ensure_Inl [res_simps]: "ensure b msg = Inl e \<longleftrightarrow> \<not> b \<and> e = Bail msg"
  by (auto simp: ensure_def)

lemma ensure_cases [simp]: "ensure True msg = Inr ()" "ensure False msg = Inl (Bail msg)"
  by (simp_all add: ensure_def)

lemma ok_or_Inr [res_simps]: "ok_or x msg = Inr v \<longleftrightarrow> x = Some v"
  by (cases x) (simp_all add: ok_or_def)

lemma ok_or_cases [simp]: "ok_or None msg = Inl (Bail msg)" "ok_or (Some v) msg = Inr v"
  by (simp_all add: ok_or_def)

lemma is_ok_simps [simp]: "is_ok (Inr x)" "\<not> is_ok (Inl e)"
  by (simp_all add: is_ok_def)

lemma is_ok_iff [res_simps]: "is_ok r \<longleftrightarrow> (\<exists>x. r = Inr x)"
  by (cases r) simp_all

lemma res_all_Inr [res_simps]: "res_all f xs = Inr u \<longleftrightarrow> (\<forall>x \<in> set xs. f x = Inr ())"
  by (induction xs) (auto simp: bind_res_Inr)

lemma res_map_Inr_length: "res_map f xs = Inr ys \<Longrightarrow> length ys = length xs"
  by (induction xs arbitrary: ys) (auto simp: bind_res_Inr)

lemma res_map_Inr_nth:
  "res_map f xs = Inr ys \<Longrightarrow> i < length xs \<Longrightarrow> f (xs ! i) = Inr (ys ! i)"
  by (induction xs arbitrary: ys i) (auto simp: bind_res_Inr nth_Cons split: nat.splits)

section \<open>Machine integers\<close>

definition u32_max :: nat where "u32_max = 4294967295"
definition u64_max :: nat where "u64_max = 18446744073709551615"
definition i32_max :: int where "i32_max = 2147483647"
definition i32_min :: int where "i32_min = -2147483648"
definition i64_max :: int where "i64_max = 9223372036854775807"
definition i64_min :: int where "i64_min = -9223372036854775808"

definition sat_add_u64 :: "nat \<Rightarrow> nat \<Rightarrow> nat" where "sat_add_u64 a b = min (a + b) u64_max"
definition sat_mul_u64 :: "nat \<Rightarrow> nat \<Rightarrow> nat" where "sat_mul_u64 a b = min (a * b) u64_max"
definition sat_add_u32 :: "nat \<Rightarrow> nat \<Rightarrow> nat" where "sat_add_u32 a b = min (a + b) u32_max"
definition sat_add_i64 :: "int \<Rightarrow> int \<Rightarrow> int" where
  "sat_add_i64 a b = max i64_min (min i64_max (a + b))"
definition sat_sub_i64 :: "int \<Rightarrow> int \<Rightarrow> int" where
  "sat_sub_i64 a b = max i64_min (min i64_max (a - b))"
definition sat_mul_i64 :: "int \<Rightarrow> int \<Rightarrow> int" where
  "sat_mul_i64 a b = max i64_min (min i64_max (a * b))"
definition checked_add_u64 :: "nat \<Rightarrow> nat \<Rightarrow> nat option" where
  "checked_add_u64 a b = (if a + b \<le> u64_max then Some (a + b) else None)"
definition checked_sub_u64 :: "nat \<Rightarrow> nat \<Rightarrow> nat option" where
  "checked_sub_u64 a b = (if b \<le> a then Some (a - b) else None)"

text \<open>\<open>Iterator::sum\<close> over \<open>u64\<close>: the release profile has no overflow checks, so it wraps.\<close>

definition sum_u64 :: "nat list \<Rightarrow> nat" where "sum_u64 xs = sum_list xs mod 2 ^ 64"
definition sum_u32 :: "nat list \<Rightarrow> nat" where "sum_u32 xs = sum_list xs mod 2 ^ 32"

text \<open>\<open>u32::try_from(n).unwrap_or(u32::MAX)\<close> and its \<open>i32\<close> counterpart.\<close>

definition to_u32 :: "nat \<Rightarrow> nat" where "to_u32 n = (if n \<le> u32_max then n else u32_max)"
definition to_i32 :: "int \<Rightarrow> int" where
  "to_i32 x = (if i32_min \<le> x \<and> x \<le> i32_max then x else i32_max)"

definition div_ceil :: "nat \<Rightarrow> nat \<Rightarrow> nat" where "div_ceil a b = (a + b - 1) div b"
definition clamp_nat :: "nat \<Rightarrow> nat \<Rightarrow> nat \<Rightarrow> nat" where "clamp_nat lo hi x = max lo (min hi x)"

lemmas [int_simps] =
  sat_add_u64_def sat_mul_u64_def sat_add_u32_def sat_add_i64_def sat_sub_i64_def sat_mul_i64_def
  checked_add_u64_def checked_sub_u64_def to_u32_def to_i32_def
lemmas int_bounds = u32_max_def u64_max_def i32_max_def i32_min_def i64_max_def i64_min_def

lemma checked_add_u64_Some: "checked_add_u64 a b = Some c \<longleftrightarrow> a + b \<le> u64_max \<and> c = a + b"
  by (auto simp: checked_add_u64_def)

lemma checked_sub_u64_Some: "checked_sub_u64 a b = Some c \<longleftrightarrow> b \<le> a \<and> c = a - b"
  by (auto simp: checked_sub_u64_def)

text \<open>\<open>try_fold(0, checked_add)\<close>.\<close>

fun checked_sum_from :: "nat \<Rightarrow> nat list \<Rightarrow> nat option" where
  "checked_sum_from acc [] = Some acc"
| "checked_sum_from acc (x # xs) =
     (case checked_add_u64 acc x of None \<Rightarrow> None | Some s \<Rightarrow> checked_sum_from s xs)"

abbreviation checked_sum :: "nat list \<Rightarrow> nat option" where
  "checked_sum \<equiv> checked_sum_from 0"

lemma checked_sum_from_Some: "checked_sum_from acc xs = Some s \<Longrightarrow> s = acc + sum_list xs"
  by (induction xs arbitrary: acc) (fastforce simp: checked_add_u64_Some split: option.splits)+

section \<open>Strings and numbers\<close>

definition is_digit :: "char \<Rightarrow> bool" where
  "is_digit c \<longleftrightarrow> 48 \<le> (of_char c :: nat) \<and> (of_char c :: nat) \<le> 57"

definition is_lower_hex :: "char \<Rightarrow> bool" where
  "is_lower_hex c \<longleftrightarrow> is_digit c \<or> (97 \<le> (of_char c :: nat) \<and> (of_char c :: nat) \<le> 102)"

definition is_ascii_alnum :: "char \<Rightarrow> bool" where
  "is_ascii_alnum c \<longleftrightarrow> is_digit c \<or> (65 \<le> (of_char c :: nat) \<and> (of_char c :: nat) \<le> 90)
     \<or> (97 \<le> (of_char c :: nat) \<and> (of_char c :: nat) \<le> 122)"

definition digit_val :: "char \<Rightarrow> nat" where "digit_val c = of_char c - 48"

fun digits_val :: "nat \<Rightarrow> string \<Rightarrow> nat" where
  "digits_val acc [] = acc"
| "digits_val acc (c # cs) = digits_val (10 * acc + digit_val c) cs"

text \<open>Rust's \<open>str::parse\<close> for integers: an optional sign, at least one digit, no overflow.\<close>

definition parse_digits :: "string \<Rightarrow> nat option" where
  "parse_digits s = (if s \<noteq> [] \<and> list_all is_digit s then Some (digits_val 0 s) else None)"

definition parse_u64 :: "string \<Rightarrow> nat option" where
  "parse_u64 s =
     (case parse_digits (case s of c # cs \<Rightarrow> if c = CHR ''+'' then cs else s | [] \<Rightarrow> s) of
        None \<Rightarrow> None | Some n \<Rightarrow> if n \<le> u64_max then Some n else None)"

definition parse_int :: "int \<Rightarrow> int \<Rightarrow> string \<Rightarrow> int option" where
  "parse_int lo hi s =
     (let in_range = (\<lambda>x. if lo \<le> x \<and> x \<le> hi then Some x else None) in
      case s of
        [] \<Rightarrow> None
      | c # cs \<Rightarrow>
          if c = CHR ''-'' then Option.bind (parse_digits cs) (\<lambda>n. in_range (- int n))
          else if c = CHR ''+'' then Option.bind (parse_digits cs) (\<lambda>n. in_range (int n))
          else Option.bind (parse_digits s) (\<lambda>n. in_range (int n)))"

abbreviation parse_i64 :: "string \<Rightarrow> int option" where "parse_i64 \<equiv> parse_int i64_min i64_max"
abbreviation parse_i32 :: "string \<Rightarrow> int option" where "parse_i32 \<equiv> parse_int i32_min i32_max"

text \<open>Decimal printing (\<open>{n}\<close>) and zero padding (\<open>{n:0w}\<close>).\<close>

definition digit_char :: "nat \<Rightarrow> char" where "digit_char d = char_of (48 + d)"

fun dec :: "nat \<Rightarrow> string" where
  "dec n = (if n < 10 then [digit_char n] else dec (n div 10) @ [digit_char (n mod 10)])"

declare dec.simps [simp del]

definition pad0 :: "nat \<Rightarrow> string \<Rightarrow> string" where
  "pad0 w s = replicate (w - length s) CHR ''0'' @ s"

definition strip_prefix :: "string \<Rightarrow> string \<Rightarrow> string option" where
  "strip_prefix p s = (if take (length p) s = p then Some (drop (length p) s) else None)"

definition starts_with :: "string \<Rightarrow> string \<Rightarrow> bool" where
  "starts_with p s \<longleftrightarrow> take (length p) s = p"

text \<open>\<open>str::split(c)\<close>: the pieces between separators, at least one.\<close>

fun split_on :: "char \<Rightarrow> string \<Rightarrow> string list" where
  "split_on c [] = [[]]"
| "split_on c (x # xs) =
     (if x = c then [] # split_on c xs
      else (case split_on c xs of [] \<Rightarrow> [[x]] | p # ps \<Rightarrow> (x # p) # ps))"

text \<open>\<open>str::split_once(c)\<close>.\<close>

fun split_once :: "char \<Rightarrow> string \<Rightarrow> (string \<times> string) option" where
  "split_once c [] = None"
| "split_once c (x # xs) =
     (if x = c then Some ([], xs)
      else map_option (\<lambda>(a, b). (x # a, b)) (split_once c xs))"

text \<open>\<open>char::is_control\<close> on the ASCII range (C0 controls and DEL).\<close>

definition is_control :: "char \<Rightarrow> bool" where
  "is_control c \<longleftrightarrow> (of_char c :: nat) < 32 \<or> (of_char c :: nat) = 127"

subsection \<open>Digits\<close>

lemma digit_char_is_digit [simp]: "d < 10 \<Longrightarrow> is_digit (digit_char d)"
  by (simp add: is_digit_def digit_char_def)

lemma digit_val_digit_char [simp]: "d < 10 \<Longrightarrow> digit_val (digit_char d) = d"
  by (simp add: digit_val_def digit_char_def)

lemma digits_val_append: "digits_val acc (s @ t) = digits_val (digits_val acc s) t"
  by (induction s arbitrary: acc) simp_all

lemma dec_not_Nil [simp]: "dec n \<noteq> []"
  by (subst dec.simps) simp

lemma dec_digits: "list_all is_digit (dec n)"
proof (induction n rule: dec.induct)
  case (1 n)
  then show ?case
    by (cases "n < 10") (simp_all add: dec.simps [of n])
qed

lemma digits_val_dec: "digits_val 0 (dec n) = n"
proof (induction n rule: dec.induct)
  case (1 n)
  then show ?case
    by (cases "n < 10") (simp_all add: dec.simps [of n] digits_val_append)
qed

lemma digits_val_zeros [simp]: "digits_val 0 (replicate k CHR ''0'' @ s) = digits_val 0 s"
  by (induction k) (simp_all add: digit_val_def)

lemma pad0_digits: "list_all is_digit s \<Longrightarrow> list_all is_digit (pad0 w s)"
  by (auto simp: pad0_def list_all_iff is_digit_def)

lemma parse_digits_pad0_dec: "parse_digits (pad0 w (dec n)) = Some n"
  using pad0_digits [OF dec_digits, of w n]
  by (simp add: parse_digits_def) (simp add: pad0_def digits_val_dec)

lemma digits_val_shift: "digits_val acc s = acc * 10 ^ length s + digits_val 0 s"
proof (induction s arbitrary: acc)
  case Nil
  then show ?case by simp
next
  case (Cons c s)
  show ?case
    using Cons.IH [of "10 * acc + digit_val c"] Cons.IH [of "digit_val c"]
    by (simp add: algebra_simps)
qed

lemma digits_val_bound: "list_all is_digit s \<Longrightarrow> digits_val 0 s < 10 ^ length s"
proof (induction s)
  case Nil
  then show ?case by simp
next
  case (Cons c s)
  have "digit_val c \<le> 9" using Cons.prems by (auto simp: digit_val_def is_digit_def)
  then have "digit_val c * 10 ^ length s \<le> 9 * 10 ^ length s" by (rule mult_le_mono1)
  moreover have "digits_val 0 s < 10 ^ length s" using Cons by simp
  ultimately have "digit_val c * 10 ^ length s + digits_val 0 s < 10 * 10 ^ length s" by linarith
  then show ?case by (simp add: digits_val_shift [of "digit_val c" s])
qed

text \<open>On equally long digit strings the byte order is the numeric order.\<close>

lemma digits_val_mono:
  assumes "length s = length t" "list_all is_digit s" "list_all is_digit t" "s \<le> t"
  shows "digits_val 0 s \<le> digits_val 0 t"
  using assms
proof (induction s t rule: list_induct2)
  case Nil
  then show ?case by simp
next
  case (Cons x xs y ys)
  have step: "digits_val 0 (c # cs) = digit_val c * 10 ^ length cs + digits_val 0 cs" for c cs
    using digits_val_shift [of "digit_val c" cs] by simp
  consider "x = y" "xs \<le> ys" | "x < y" using Cons.prems(3) by auto
  then show ?case
  proof cases
    case 1
    then show ?thesis using Cons by (simp add: step del: digits_val.simps)
  next
    case 2
    then have "Suc (digit_val x) \<le> digit_val y"
      using Cons.prems by (auto simp: less_char_def digit_val_def is_digit_def)
    then have "Suc (digit_val x) * 10 ^ length xs \<le> digit_val y * 10 ^ length ys"
      using Cons.hyps(1) mult_le_mono1 by metis
    then show ?thesis
      using digits_val_bound [of xs] Cons.prems by (simp add: step del: digits_val.simps)
  qed
qed

lemma strip_prefix_Some: "strip_prefix p s = Some r \<longleftrightarrow> s = p @ r"
  by (auto simp: strip_prefix_def) (metis append_take_drop_id)

lemma strip_prefix_append: "strip_prefix p (p @ r) = Some r"
  by (simp add: strip_prefix_def)

lemma split_once_Some: "split_once c s = Some (a, b) \<Longrightarrow> s = a @ c # b \<and> c \<notin> set a"
  by (induction s arbitrary: a b) (auto split: if_splits)

section \<open>Lists\<close>

text \<open>\<open>slice::chunks(n)\<close>.\<close>

function chunks :: "nat \<Rightarrow> 'a list \<Rightarrow> 'a list list" where
  "chunks n xs = (if n = 0 \<or> xs = [] then [] else take n xs # chunks n (drop n xs))"
  by pat_completeness auto
termination
  by (relation "measure (\<lambda>(n, xs). length xs)") auto

declare chunks.simps [simp del]

lemma concat_chunks: "0 < n \<Longrightarrow> concat (chunks n xs) = xs"
proof (induction n xs rule: chunks.induct)
  case (1 n xs)
  then show ?case
    by (cases "xs = []") (simp_all add: chunks.simps)
qed

lemma chunks_length: "c \<in> set (chunks n xs) \<Longrightarrow> 0 < length c \<and> length c \<le> n"
proof (induction n xs rule: chunks.induct)
  case (1 n xs)
  then show ?case
    by (cases "n = 0 \<or> xs = []") (auto simp: chunks.simps [of n xs])
qed

text \<open>\<open>slice::windows(2)\<close>: a condition on adjacent pairs.\<close>

fun pairwise_ok :: "('a \<Rightarrow> 'a \<Rightarrow> bool) \<Rightarrow> 'a list \<Rightarrow> bool" where
  "pairwise_ok P (x # y # zs) \<longleftrightarrow> P x y \<and> pairwise_ok P (y # zs)"
| "pairwise_ok P _ \<longleftrightarrow> True"

lemma pairwise_ok_sorted_wrt: "transp P \<Longrightarrow> pairwise_ok P xs \<longleftrightarrow> sorted_wrt P xs"
  by (induction P xs rule: pairwise_ok.induct) (auto, (blast dest: transpD)+)

lemma distinct_concat_disjoint:
  "distinct (concat xss) \<Longrightarrow> i < length xss \<Longrightarrow> j < length xss \<Longrightarrow> i \<noteq> j
     \<Longrightarrow> set (xss ! i) \<inter> set (xss ! j) = {}"
proof (induction xss arbitrary: i j)
  case Nil
  then show ?case by simp
next
  case (Cons xs xss)
  have sub: "k < length xss \<Longrightarrow> set (xss ! k) \<subseteq> set (concat xss)" for k
    by (auto dest: nth_mem)
  show ?case
    using Cons sub by (cases i; cases j) (auto, blast+)
qed

end
