(* ===== verification/Ordered_Map.thy ===== *)
theory Ordered_Map
  imports Prelude
begin

text \<open>
  The standard library's \<open>BTreeMap\<close> and \<open>BTreeSet\<close> as association lists in strictly ascending key
  order: iteration order is the list order, lookup is \<open>map_of\<close>. The locale \<open>ordered_map\<close> is the
  interface the clients rely on (lookup after insert and remove, the representation being
  canonical); the journaled rollback of the part log is proved against it.
\<close>

named_theorems bmap_simps \<open>lookup laws of ordered maps\<close>

section \<open>The interface\<close>

locale ordered_map =
  fixes get :: "'m \<Rightarrow> 'k \<Rightarrow> 'v option"
    and put :: "'k \<Rightarrow> 'v \<Rightarrow> 'm \<Rightarrow> 'm"
    and del :: "'k \<Rightarrow> 'm \<Rightarrow> 'm"
    and wf :: "'m \<Rightarrow> bool"
  assumes get_put: "wf m \<Longrightarrow> get (put k v m) = (get m)(k := Some v)"
    and get_del: "wf m \<Longrightarrow> get (del k m) = (get m)(k := None)"
    and wf_put: "wf m \<Longrightarrow> wf (put k v m)"
    and wf_del: "wf m \<Longrightarrow> wf (del k m)"
    and canonical: "wf m \<Longrightarrow> wf m' \<Longrightarrow> get m = get m' \<Longrightarrow> m = m'"
begin

lemma put_get_undo:
  assumes "wf m"
  shows "(case get m k of Some w \<Rightarrow> put k w (put k v m) | None \<Rightarrow> del k (put k v m)) = m"
  using assms
  by (intro canonical) (auto simp: wf_put wf_del get_put get_del fun_eq_iff split: option.splits)

lemma del_get_undo:
  assumes "wf m" "get m k = Some v"
  shows "put k v (del k m) = m"
  using assms
  by (intro canonical) (auto simp: wf_put wf_del get_put get_del fun_eq_iff)

lemma put_idem:
  assumes "wf m" "get m k = Some v"
  shows "put k v m = m"
  using assms
  by (intro canonical) (auto simp: wf_put get_put fun_eq_iff)

lemma del_absent:
  assumes "wf m" "get m k = None"
  shows "del k m = m"
  using assms
  by (intro canonical) (auto simp: wf_del get_del fun_eq_iff)

lemma put_put_commute:
  assumes "wf m" "k \<noteq> j"
  shows "put k v (put j w m) = put j w (put k v m)"
  using assms
  by (intro canonical) (auto simp: wf_put get_put fun_eq_iff)

end

section \<open>Sorted association lists\<close>

type_synonym ('k, 'v) bmap = "('k \<times> 'v) list"
type_synonym 'k bset = "('k \<times> unit) list"

fun bput :: "'k::linorder \<Rightarrow> 'v \<Rightarrow> ('k, 'v) bmap \<Rightarrow> ('k, 'v) bmap" where
  "bput k v [] = [(k, v)]"
| "bput k v ((j, w) # m) =
     (if k < j then (k, v) # (j, w) # m
      else if k = j then (k, v) # m
      else (j, w) # bput k v m)"

definition bdel :: "'k \<Rightarrow> ('k, 'v) bmap \<Rightarrow> ('k, 'v) bmap" where
  "bdel k m = filter (\<lambda>(j, _). j \<noteq> k) m"

definition bretain :: "('k \<Rightarrow> 'v \<Rightarrow> bool) \<Rightarrow> ('k, 'v) bmap \<Rightarrow> ('k, 'v) bmap" where
  "bretain P m = filter (\<lambda>(k, v). P k v) m"

definition bhas :: "('k, 'v) bmap \<Rightarrow> 'k \<Rightarrow> bool" where
  "bhas m k \<longleftrightarrow> map_of m k \<noteq> None"

definition bmodify :: "('k \<Rightarrow> 'v \<Rightarrow> 'v) \<Rightarrow> ('k, 'v) bmap \<Rightarrow> ('k, 'v) bmap" where
  "bmodify f m = map (\<lambda>(k, v). (k, f k v)) m"

definition bwf :: "('k::linorder, 'v) bmap \<Rightarrow> bool" where
  "bwf m \<longleftrightarrow> sorted_wrt (<) (map fst m)"

text \<open>\<open>restore\<close> of the journal: put the previous value back, or remove the key.\<close>

definition brestore :: "'k::linorder \<Rightarrow> 'v option \<Rightarrow> ('k, 'v) bmap \<Rightarrow> ('k, 'v) bmap" where
  "brestore k prev m = (case prev of Some w \<Rightarrow> bput k w m | None \<Rightarrow> bdel k m)"

lemma set_bput: "fst ` set (bput k v m) = insert k (fst ` set m)"
  by (induction k v m rule: bput.induct) auto

lemma bwf_Nil [simp]: "bwf []"
  by (simp add: bwf_def)

lemma bwf_Cons: "bwf ((k, v) # m) \<longleftrightarrow> (\<forall>j \<in> fst ` set m. k < j) \<and> bwf m"
  by (auto simp: bwf_def)

lemma bwf_bput: "bwf m \<Longrightarrow> bwf (bput k v m)"
proof (induction k v m rule: bput.induct)
  case (1 k v)
  then show ?case by (simp add: bwf_def)
next
  case (2 k v j w m)
  then show ?case
    using set_bput [of k v m] by (auto simp: bwf_Cons not_less_iff_gr_or_eq)
qed

lemma bwf_filter: "bwf m \<Longrightarrow> bwf (filter P m)"
  by (induction m) (auto simp: bwf_Cons)

lemma bwf_bdel: "bwf m \<Longrightarrow> bwf (bdel k m)"
  by (simp add: bdel_def bwf_filter)

lemma bwf_bretain: "bwf m \<Longrightarrow> bwf (bretain P m)"
  by (simp add: bretain_def bwf_filter)

lemma bwf_bmodify: "bwf m \<Longrightarrow> bwf (bmodify f m)"
  by (simp add: bwf_def bmodify_def comp_def split_beta)

lemma bwf_distinct: "bwf m \<Longrightarrow> distinct (map fst m)"
  by (induction m) (fastforce simp: bwf_Cons)+

lemma map_of_bput: "map_of (bput k v m) = (map_of m)(k := Some v)"
  by (induction k v m rule: bput.induct) (auto simp: fun_eq_iff)

lemma map_of_bdel: "map_of (bdel k m) = (map_of m)(k := None)"
  by (induction m) (auto simp: bdel_def fun_eq_iff)

lemma map_of_bretain:
  "bwf m \<Longrightarrow> map_of (bretain P m) k = (case map_of m k of
     None \<Rightarrow> None | Some v \<Rightarrow> if P k v then Some v else None)"
proof (induction m)
  case Nil
  then show ?case by (simp add: bretain_def)
next
  case (Cons a m)
  obtain j w where a: "a = (j, w)" by (cases a)
  have "map_of m j = None"
    using Cons.prems by (auto simp: a bwf_Cons map_of_eq_None_iff)
  then show ?case
    using Cons by (auto simp: a bwf_Cons bretain_def)
qed

lemma map_of_bmodify: "map_of (bmodify f m) k = map_option (f k) (map_of m k)"
  by (induction m) (auto simp: bmodify_def)

lemma bmap_canonical:
  assumes "bwf m" "bwf m'" "map_of m = map_of m'"
  shows "m = m'"
proof -
  have "set m = set m'"
    using assms by (auto simp: map_of_eq_Some_iff [OF bwf_distinct, symmetric])
  moreover have "inj_on fst (set m)"
    using bwf_distinct [OF assms(1)] by (simp add: distinct_map)
  moreover have "sorted (map fst m)" "sorted (map fst m')"
    using assms by (simp_all add: bwf_def strict_sorted_imp_sorted)
  ultimately show ?thesis
    using assms by (intro map_sorted_distinct_set_unique [of fst]) (simp_all add: bwf_distinct)
qed

interpretation bm: ordered_map map_of bput bdel bwf
  by unfold_locales (simp_all add: map_of_bput map_of_bdel bwf_bput bwf_bdel bmap_canonical)

lemma brestore_bput: "bwf m \<Longrightarrow> brestore k (map_of m k) (bput k v m) = m"
  unfolding brestore_def by (rule bm.put_get_undo)

lemma brestore_bdel: "bwf m \<Longrightarrow> brestore k (map_of m k) (bdel k m) = m"
  by (cases "map_of m k") (simp_all add: brestore_def bm.del_get_undo bm.del_absent bwf_bdel map_of_bdel)

lemma bhas_bput [bmap_simps]: "bhas (bput k v m) j \<longleftrightarrow> j = k \<or> bhas m j"
  by (simp add: bhas_def map_of_bput)

lemma bhas_bdel [bmap_simps]: "bhas (bdel k m) j \<longleftrightarrow> j \<noteq> k \<and> bhas m j"
  by (simp add: bhas_def map_of_bdel)

lemma bhas_Nil [simp]: "\<not> bhas [] k"
  by (simp add: bhas_def)

lemma bhas_keys: "bhas m k \<longleftrightarrow> k \<in> fst ` set m"
  by (auto simp: bhas_def map_of_eq_None_iff)

lemma bhas_bretain: "bwf m \<Longrightarrow> bhas (bretain P m) k \<longleftrightarrow> (\<exists>v. map_of m k = Some v \<and> P k v)"
  by (simp add: bhas_def map_of_bretain split: option.splits)

lemma length_bput: "length (bput k v m) \<le> Suc (length m)"
  by (induction k v m rule: bput.induct) auto

lemma length_bput_absent: "\<not> bhas m k \<Longrightarrow> length (bput k v m) = Suc (length m)"
  by (induction k v m rule: bput.induct) (auto simp: bhas_def split: if_splits)

lemma length_bput_present: "bwf m \<Longrightarrow> bhas m k \<Longrightarrow> length (bput k v m) = length m"
proof (induction k v m rule: bput.induct)
  case (1 k v)
  then show ?case by simp
next
  case (2 k v j w m)
  then show ?case
    by (auto simp: bwf_Cons bhas_keys)
qed

lemma set_bput_wf: "bwf m \<Longrightarrow> set (bput k v m) = insert (k, v) {x \<in> set m. fst x \<noteq> k}"
proof (induction k v m rule: bput.induct)
  case (1 k v)
  then show ?case by simp
next
  case (2 k v j w m)
  then show ?case
    by (force simp: bwf_Cons)
qed

lemma set_bdel: "set (bdel k m) = {x \<in> set m. fst x \<noteq> k}"
  by (auto simp: bdel_def)

lemma bwf_first_least:
  assumes "bwf ((k, v) # m)" "bhas ((k, v) # m) j"
  shows "k \<le> j"
  using assms by (auto simp: bwf_Cons bhas_keys less_imp_le)

lemma bwf_in_map_of: "bwf m \<Longrightarrow> (k, v) \<in> set m \<longleftrightarrow> map_of m k = Some v"
  by (simp add: bwf_distinct)

lemmas bwf_intros [intro] = bwf_bput bwf_bdel bwf_bretain bwf_bmodify

lemmas bget_simps [bmap_simps] = map_of_bput map_of_bdel map_of_bmodify

end
