(* ===== verification/Part_Format.thy ===== *)
theory Part_Format
  imports Ordered_Map
begin

text \<open>
  Key layout and file settings of a lake part (\<open>parts/format.rs\<close>), the event-time helpers of
  \<open>parts/mod.rs\<close>, the request-hour namespace of \<open>parts/request_dedup.rs\<close> and the merge level of
  \<open>parts/levels.rs\<close>. UUID parsing (crate uuid), the civil calendar (crate chrono) and the random
  suffix of a new part id are arguments of the definitions that use them.
\<close>

section \<open>Merge levels\<close>

datatype level = L0 | Minute | Hour | Day

fun level_rank :: "level \<Rightarrow> nat" where
  "level_rank L0 = 0"
| "level_rank Minute = 1"
| "level_rank Hour = 2"
| "level_rank Day = 3"

lemma level_rank_inj: "level_rank a = level_rank b \<Longrightarrow> a = b"
  by (cases a; cases b) auto

instantiation level :: linorder
begin
definition less_eq_level :: "level \<Rightarrow> level \<Rightarrow> bool" where
  "less_eq_level a b \<longleftrightarrow> level_rank a \<le> level_rank b"
definition less_level :: "level \<Rightarrow> level \<Rightarrow> bool" where
  "less_level a b \<longleftrightarrow> level_rank a < level_rank b"
instance
  by standard (auto simp: less_eq_level_def less_level_def dest: level_rank_inj)
end

fun level_code :: "level \<Rightarrow> string" where
  "level_code L0 = ''l0''"
| "level_code Minute = ''m''"
| "level_code Hour = ''h''"
| "level_code Day = ''d''"

definition is_hourly :: "level \<Rightarrow> bool" where
  "is_hourly l \<longleftrightarrow> l \<noteq> Day"

section \<open>Event time\<close>

definition HOUR_US :: int where "HOUR_US = 3600000000"
definition DAY_US :: int where "DAY_US = 86400000000"

text \<open>\<open>i32::try_from(..).unwrap_or(i32::MAX)\<close> is \<^const>\<open>to_i32\<close>; \<open>div_euclid\<close> by a positive
  divisor is HOL's \<open>div\<close> on integers.\<close>

definition event_hour_of :: "int \<Rightarrow> int" where
  "event_hour_of time_us = to_i32 (time_us div HOUR_US)"

definition event_day_of :: "int \<Rightarrow> int" where
  "event_day_of time_us = to_i32 (time_us div DAY_US)"

definition hour_bounds_us :: "int \<Rightarrow> int \<times> int" where
  "hour_bounds_us event_hour =
     (let start = event_hour * HOUR_US in (start, start + HOUR_US - 1))"

definition day_bounds_us :: "int \<Rightarrow> int \<times> int" where
  "day_bounds_us event_day =
     (let start = event_day * DAY_US in (start, start + DAY_US - 1))"

definition is_sha256_hex :: "string \<Rightarrow> bool" where
  "is_sha256_hex value \<longleftrightarrow> length value = 64 \<and> list_all is_lower_hex value"

text \<open>\<open>x as i32\<close> and the wrapping product of two \<open>i32\<close> values.\<close>

definition wrap_i32 :: "int \<Rightarrow> int" where
  "wrap_i32 x = (x + 2147483648) mod 4294967296 - 2147483648"

section \<open>Part identifiers\<close>

type_synonym part_id = string

definition part_id_new :: "int \<Rightarrow> string \<Rightarrow> part_id res" where
  "part_id_new created_unix_ms suffix =
     (if \<not> (0 \<le> created_unix_ms \<and> created_unix_ms \<le> 9999999999999)
      then Inl (Bail ''part creation time is out of range'')
      else Inr (pad0 13 (dec (nat created_unix_ms)) @ ''-'' @ suffix))"

definition part_id_parse :: "string \<Rightarrow> part_id res" where
  "part_id_parse value =
     (if length value = 30 \<and> value ! 13 = CHR ''-''
         \<and> list_all is_digit (take 13 value) \<and> list_all is_lower_hex (drop 14 value)
      then Inr value
      else Inl (Bail ''part id is malformed''))"

definition created_unix_ms :: "part_id \<Rightarrow> int" where
  "created_unix_ms pid = (case parse_i64 (take 13 pid) of Some n \<Rightarrow> n | None \<Rightarrow> 0)"

abbreviation part_id_ok :: "part_id \<Rightarrow> bool" where
  "part_id_ok pid \<equiv> part_id_parse pid = Inr pid"

section \<open>Object keys\<close>

definition PARTS_ROOT :: string where "PARTS_ROOT = ''lake/parts/v1''"

text \<open>The uuid crate is the argument \<open>uuid_canon\<close>: the hyphenated print of the parsed UUID.\<close>

definition validate_tenant_uuid :: "(string \<Rightarrow> string option) \<Rightarrow> string \<Rightarrow> unit res" where
  "validate_tenant_uuid uuid_canon tenant_id =
     bind_res (ok_or (uuid_canon tenant_id) ''tenant id is not a UUID'') (\<lambda>hyphenated.
       ensure (hyphenated = tenant_id) ''tenant id must be a lowercase hyphenated UUID'')"

definition tenant_root :: "string \<Rightarrow> string" where
  "tenant_root tenant_id = PARTS_ROOT @ ''/tenant='' @ tenant_id"

text \<open>\<open>{:0w}\<close> of a signed number keeps the sign in front of the padding.\<close>

definition pad0_int :: "nat \<Rightarrow> int \<Rightarrow> string" where
  "pad0_int w x =
     (if x < 0 then ''-'' @ pad0 (w - 1) (dec (nat (- x))) else pad0 w (dec (nat x)))"

record civil =
  cv_year :: int
  cv_month :: nat
  cv_day :: nat
  cv_hour :: nat

definition part_keys_new ::
  "(string \<Rightarrow> string option) \<Rightarrow> (int \<Rightarrow> civil option)
   \<Rightarrow> string \<Rightarrow> level \<Rightarrow> int \<Rightarrow> part_id \<Rightarrow> string res" where
  "part_keys_new uuid_canon from_timestamp tenant_id level event_hour part_id =
     bind_res (validate_tenant_uuid uuid_canon tenant_id) (\<lambda>_.
     bind_res (ok_or (from_timestamp (event_hour * 3600)) ''part event hour is out of range'')
       (\<lambda>start.
     bind_res (ensure (\<not> (level = Day \<and> cv_hour start \<noteq> 0))
         ''a day part's event hour must be the first hour of its day'') (\<lambda>_.
       Inr (tenant_root tenant_id @ ''/parts/'' @ level_code level @ ''/''
            @ pad0_int 4 (cv_year start) @ ''/'' @ pad0 2 (dec (cv_month start)) @ ''/''
            @ pad0 2 (dec (cv_day start)) @ ''/''
            @ pad0 2 (dec (if level = Day then 0 else cv_hour start)) @ ''/'' @ part_id))))"

definition part_file :: "string \<Rightarrow> string \<Rightarrow> string" where
  "part_file dir name = dir @ ''/'' @ name"

definition data_file_name :: "nat \<Rightarrow> string" where
  "data_file_name index = ''data-'' @ pad0 5 (dec index) @ ''.parquet''"

definition tokens_file_name :: "nat \<Rightarrow> string" where
  "tokens_file_name index = ''tokens-'' @ pad0 5 (dec index) @ ''.nti''"

definition PROVENANCE_FILE :: string where "PROVENANCE_FILE = ''provenance.json''"

definition provenance_pending_file :: "string \<Rightarrow> string" where
  "provenance_pending_file record_sha256 = ''provenance.pending.'' @ record_sha256 @ ''.json''"

definition PARTIAL_ROLLUP_FILE :: string where "PARTIAL_ROLLUP_FILE = ''partials/rollup.parquet''"
definition PARTIAL_PREVALENCE_FILE :: string where
  "PARTIAL_PREVALENCE_FILE = ''partials/prevalence.parquet''"
definition PARTIAL_ENTITY_RANGES_FILE :: string where
  "PARTIAL_ENTITY_RANGES_FILE = ''partials/entity_ranges.parquet''"
definition PARTIAL_RISK_FILE :: string where "PARTIAL_RISK_FILE = ''partials/risk.parquet''"

definition log_keys_new ::
  "(string \<Rightarrow> string option) \<Rightarrow> string \<Rightarrow> string res" where
  "log_keys_new uuid_canon tenant_id =
     bind_res (validate_tenant_uuid uuid_canon tenant_id) (\<lambda>_.
       Inr (tenant_root tenant_id @ ''/log''))"

definition log_entry_key :: "string \<Rightarrow> nat \<Rightarrow> string" where
  "log_entry_key root seq = root @ ''/entries/'' @ pad0 20 (dec seq) @ ''.json''"

definition log_checkpoint_key :: "string \<Rightarrow> nat \<Rightarrow> string" where
  "log_checkpoint_key root seq = root @ ''/checkpoints/'' @ pad0 20 (dec seq) @ ''.json''"

definition checkpoints_prefix :: "string \<Rightarrow> string" where
  "checkpoints_prefix root = root @ ''/checkpoints/''"

definition log_head_key :: "string \<Rightarrow> string" where
  "log_head_key root = root @ ''/HEAD''"

definition iceberg_export_prefix ::
  "(string \<Rightarrow> string option) \<Rightarrow> string \<Rightarrow> string res" where
  "iceberg_export_prefix uuid_canon tenant_id =
     bind_res (validate_tenant_uuid uuid_canon tenant_id) (\<lambda>_.
       Inr (tenant_root tenant_id @ ''/export/iceberg''))"

section \<open>Parquet settings\<close>

definition ROW_GROUP_ROWS :: nat where "ROW_GROUP_ROWS = 65536"
definition MAX_ROW_GROUP_ROWS :: nat where "MAX_ROW_GROUP_ROWS = 262144"
definition BLOOM_MIN_NDV :: nat where "BLOOM_MIN_NDV = 1024"
definition MAX_OBJECT_BYTES :: nat where "MAX_OBJECT_BYTES = 2 * 1024 * 1024 * 1024"
definition DATA_FILE_SPLIT_BYTES :: nat where "DATA_FILE_SPLIT_BYTES = 1024 * 1024 * 1024"
definition MAX_DATA_FILES :: nat where "MAX_DATA_FILES = 1000"
definition MAX_LOG_OBJECT_BYTES :: nat where "MAX_LOG_OBJECT_BYTES = 4 * 1024 * 1024"

record parquet_settings =
  zstd_level :: int
  row_group_rows :: nat
  max_file_bytes :: nat

definition settings_for_level :: "level \<Rightarrow> parquet_settings" where
  "settings_for_level level =
     \<lparr> zstd_level = (case level of L0 \<Rightarrow> 3 | Minute \<Rightarrow> 6 | Hour \<Rightarrow> 9 | Day \<Rightarrow> 9),
       row_group_rows = ROW_GROUP_ROWS, max_file_bytes = DATA_FILE_SPLIT_BYTES \<rparr>"

definition compaction_layout ::
  "parquet_settings \<Rightarrow> level \<Rightarrow> string option \<Rightarrow> parquet_settings res" where
  "compaction_layout self level value =
     (case value of
        None \<Rightarrow> Inr self
      | Some value \<Rightarrow>
          if level = L0 then Inr self
          else
            bind_res (ok_or (split_once CHR '':'' value) ''compaction layout must be rows:file_bytes'')
              (\<lambda>(rows, bytes).
            bind_res (ok_or (parse_u64 rows) ''invalid compaction row count'') (\<lambda>rows.
            bind_res (ok_or (parse_u64 bytes) ''invalid compaction file size'') (\<lambda>bytes.
              if rows \<notin> set [8192, 16384, 32768, ROW_GROUP_ROWS, 131072, MAX_ROW_GROUP_ROWS]
                 \<or> \<not> (64 * 1024 * 1024 \<le> bytes \<and> bytes \<le> DATA_FILE_SPLIT_BYTES)
              then Inl (Bail ''compaction layout exceeds bounded row/file sizes'')
              else Inr (self\<lparr> row_group_rows := rows, max_file_bytes := bytes \<rparr>)))))"

definition cluster_worthwhile :: "nat \<Rightarrow> nat \<Rightarrow> bool" where
  "cluster_worthwhile rows group_rows \<longleftrightarrow>
     sat_mul_u64 (clamp_nat 8192 ROW_GROUP_ROWS group_rows) 8 \<le> rows"

definition for_compaction_rows :: "parquet_settings \<Rightarrow> level \<Rightarrow> nat \<Rightarrow> parquet_settings" where
  "for_compaction_rows self level rows =
     (if level \<noteq> L0 \<and> \<not> cluster_worthwhile rows (row_group_rows self)
      then self\<lparr> row_group_rows := ROW_GROUP_ROWS, max_file_bytes := DATA_FILE_SPLIT_BYTES \<rparr>
      else self)"

text \<open>Number of distinct values the blooms of one row group are sized for, entity and indicator.\<close>

definition bloom_ndv :: "parquet_settings \<Rightarrow> nat \<Rightarrow> nat \<times> nat" where
  "bloom_ndv self rows =
     (let ndv = max (min rows (row_group_rows self)) BLOOM_MIN_NDV in
      (ndv, max (ndv div 4) BLOOM_MIN_NDV))"

section \<open>Request-hour keys\<close>

definition REQUEST_PREFIX :: string where "REQUEST_PREFIX = ''nano-request-v1:''"

record request_hours =
  rh_first :: int
  rh_last :: int

definition rh_contains :: "request_hours \<Rightarrow> int \<Rightarrow> bool" where
  "rh_contains self hour \<longleftrightarrow> rh_first self \<le> hour \<and> hour \<le> rh_last self"

definition rh_include :: "request_hours \<Rightarrow> int \<Rightarrow> request_hours" where
  "rh_include self hour =
     self\<lparr> rh_first := min (rh_first self) hour, rh_last := max (rh_last self) hour \<rparr>"

definition rh_valid :: "request_hours \<Rightarrow> bool" where
  "rh_valid self \<longleftrightarrow>
     0 \<le> rh_first self \<and> rh_first self \<le> rh_last self \<and> rh_last self < 100000000"

definition request_hour :: "string \<Rightarrow> int option" where
  "request_hour uid =
     Option.bind (strip_prefix REQUEST_PREFIX uid) (\<lambda>rest.
     Option.bind (split_once CHR '':'' rest) (\<lambda>(hour, digest).
       if \<not> is_sha256_hex digest then None
       else Option.bind (parse_i32 hour) (\<lambda>hour.
         if 0 \<le> hour \<and> hour < 100000000 then Some hour else None)))"

definition window_hour :: "int \<Rightarrow> int" where
  "window_hour hour = i64_min + hour"

definition is_window_hour :: "int \<Rightarrow> bool" where
  "is_window_hour hour \<longleftrightarrow> hour < i64_min + 100000000"

section \<open>Part ids sort by creation time\<close>

lemma part_id_parse_ok: "part_id_parse v = Inr p \<Longrightarrow> p = v \<and> part_id_ok p"
  by (simp add: part_id_parse_def split: if_splits)

lemma part_id_ok_iff:
  "part_id_ok v \<longleftrightarrow> length v = 30 \<and> v ! 13 = CHR ''-'' \<and> list_all is_digit (take 13 v)
     \<and> list_all is_lower_hex (drop 14 v)"
  by (simp add: part_id_parse_def)

lemma parse_i64_digits:
  assumes "list_all is_digit s" "s \<noteq> []" "length s \<le> 13"
  shows "parse_i64 s = Some (int (digits_val 0 s))"
proof -
  obtain c cs where s: "s = c # cs" using assms by (cases s) auto
  have "is_digit c" using assms s by simp
  then have c: "c \<noteq> CHR ''-''" "c \<noteq> CHR ''+''" by (auto simp: is_digit_def)
  have "digits_val 0 s < 10 ^ length s" by (rule digits_val_bound) fact
  also have "\<dots> \<le> 10 ^ 13" using assms by (intro power_increasing) auto
  finally have "int (digits_val 0 s) \<le> i64_max" by (simp add: i64_max_def)
  moreover have "i64_min \<le> int (digits_val 0 s)" by (simp add: i64_min_def)
  moreover have "parse_digits s = Some (digits_val 0 s)"
    using assms by (simp add: parse_digits_def)
  ultimately show ?thesis
    using c by (simp add: parse_int_def s)
qed

lemma created_unix_ms_ok:
  assumes "part_id_ok p"
  shows "created_unix_ms p = int (digits_val 0 (take 13 p))"
proof -
  have "parse_i64 (take 13 p) = Some (int (digits_val 0 (take 13 p)))"
    using assms by (intro parse_i64_digits) (auto simp: part_id_ok_iff)
  then show ?thesis by (simp add: created_unix_ms_def)
qed

lemma created_unix_ms_bounds:
  assumes "part_id_ok p"
  shows "0 \<le> created_unix_ms p \<and> created_unix_ms p < 10 ^ 13"
proof -
  have "digits_val 0 (take 13 p) < 10 ^ length (take 13 p)"
    using assms by (intro digits_val_bound) (simp add: part_id_ok_iff)
  then show ?thesis
    using assms by (simp add: created_unix_ms_ok part_id_ok_iff)
qed

lemma list_le_take: "(xs :: 'a::linorder list) \<le> ys \<Longrightarrow> take n xs \<le> take n ys"
proof (induction xs arbitrary: n ys)
  case Nil
  then show ?case by simp
next
  case (Cons x xs)
  then show ?case by (cases ys; cases n) auto
qed

lemma created_unix_ms_mono:
  assumes "part_id_ok p" "part_id_ok q" "p \<le> q"
  shows "created_unix_ms p \<le> created_unix_ms q"
  using assms
  by (auto simp: created_unix_ms_ok part_id_ok_iff intro!: digits_val_mono list_le_take)

lemma length_pad0: "length (pad0 w s) = max w (length s)"
  by (simp add: pad0_def)

lemma length_dec_bound: "n < 10 ^ k \<Longrightarrow> 0 < k \<Longrightarrow> length (dec n) \<le> k"
proof (induction n arbitrary: k rule: less_induct)
  case (less n)
  show ?case
  proof (cases "n < 10")
    case True
    then show ?thesis using less.prems by (simp add: dec.simps [of n])
  next
    case False
    then obtain j where k: "k = Suc j" "0 < j"
      using less.prems by (cases k; cases "k - 1") auto
    have "n div 10 < 10 ^ j" using less.prems k by auto
    then have "length (dec (n div 10)) \<le> j" using less.IH [of "n div 10" j] False k by simp
    then show ?thesis using False k by (simp add: dec.simps [of n])
  qed
qed

lemma list_less_append_same: "(xs @ u < xs @ v) \<longleftrightarrow> (u :: 'a::linorder list) < v"
  by (induction xs) auto

lemma list_less_append_right:
  "length u = length v \<Longrightarrow> (u :: 'a::linorder list) < v \<Longrightarrow> u @ s < v @ t"
  by (induction u v rule: list_induct2) auto

lemma digits_val_pad0_dec: "digits_val 0 (pad0 w (dec n)) = n"
  using parse_digits_pad0_dec [of w n] by (simp add: parse_digits_def split: if_splits)

lemma pad0_dec_less:
  assumes "a < b" "b < 10 ^ w" "0 < w"
  shows "pad0 w (dec a) < pad0 w (dec b)"
proof (rule ccontr)
  assume "\<not> ?thesis"
  then have le: "pad0 w (dec b) \<le> pad0 w (dec a)" by simp
  have "length (pad0 w (dec b)) = length (pad0 w (dec a))"
    using assms length_dec_bound [of a w] length_dec_bound [of b w] by (simp add: length_pad0)
  then have "digits_val 0 (pad0 w (dec b)) \<le> digits_val 0 (pad0 w (dec a))"
    by (rule digits_val_mono) (auto simp: pad0_digits dec_digits le)
  then show False using assms(1) by (simp add: digits_val_pad0_dec)
qed

lemma padded_key_less:
  assumes "a < b" "b < 10 ^ w" "0 < w"
  shows "p @ pad0 w (dec a) @ s < p @ pad0 w (dec b) @ s"
  using assms length_dec_bound [of a w] length_dec_bound [of b w]
  by (auto simp: list_less_append_same length_pad0 intro!: list_less_append_right pad0_dec_less)

lemma u64_lt_pow20: "n \<le> u64_max \<Longrightarrow> n < 10 ^ 20"
  by (simp add: u64_max_def)

text \<open>
  A part id made from any creation time in range and a 16-digit hex suffix parses back, and
  its creation time is the one it was made from.
\<close>

lemma part_id_new_roundtrip:
  assumes "0 \<le> t" "t \<le> 9999999999999" "length suffix = 16" "list_all is_lower_hex suffix"
  shows "\<exists>p. part_id_new t suffix = Inr p \<and> part_id_parse p = Inr p \<and> created_unix_ms p = t"
proof -
  let ?d = "pad0 13 (dec (nat t))" let ?p = "?d @ ''-'' @ suffix"
  have len: "length ?d = 13"
    using assms length_dec_bound [of "nat t" 13] by (simp add: length_pad0)
  have dig: "list_all is_digit ?d" by (simp add: pad0_digits dec_digits)
  have ok: "part_id_ok ?p"
    using len dig assms by (simp add: part_id_ok_iff nth_append)
  have "created_unix_ms ?p = t"
    using created_unix_ms_ok [OF ok] len assms digits_val_pad0_dec [of 13 "nat t"] by simp
  then show ?thesis
    using ok assms by (auto simp: part_id_new_def)
qed

text \<open>
  C40: entry keys of one log sort byte-wise exactly as their sequence numbers, for every \<open>u64\<close>
  sequence; so listing order is log order and two entries never share a key.
\<close>

theorem log_entry_key_order:
  assumes "a \<le> u64_max" "b \<le> u64_max"
  shows "log_entry_key root a < log_entry_key root b \<longleftrightarrow> a < b"
proof -
  have less: "log_entry_key root x < log_entry_key root y" if "x < y" "y \<le> u64_max" for x y
    using padded_key_less [OF that(1) u64_lt_pow20 [OF that(2)], of "root @ ''/entries/''"]
    by (simp add: log_entry_key_def)
  show ?thesis
    using less [of a b] less [of b a] assms by (metis less_asym linorder_neqE_nat less_irrefl)
qed

theorem log_entry_key_order_witness:
  "log_entry_key ''r'' 9 < log_entry_key ''r'' 10"
  using log_entry_key_order [of 9 10 "''r''"] by (simp add: u64_max_def)

section \<open>Hours and days\<close>

lemma event_hour_of_bounds:
  assumes "i32_min \<le> h" "h < i32_max" "fst (hour_bounds_us h) \<le> t" "t \<le> snd (hour_bounds_us h)"
  shows "event_hour_of t = h"
proof -
  have "t div HOUR_US = h"
    using assms(3,4) by (intro int_div_pos_eq [of _ _ _ "t - h * HOUR_US"])
      (auto simp: hour_bounds_us_def Let_def HOUR_US_def)
  then show ?thesis using assms by (simp add: event_hour_of_def to_i32_def)
qed

lemma hour_bounds_event_hour:
  assumes "event_hour_of t = h" "h < i32_max"
  shows "fst (hour_bounds_us h) \<le> t \<and> t \<le> snd (hour_bounds_us h)"
proof -
  have "h = t div HOUR_US"
    using assms by (auto simp: event_hour_of_def to_i32_def split: if_splits)
  then show ?thesis
    by (simp add: hour_bounds_us_def Let_def HOUR_US_def) presburger
qed

section \<open>Layout and namespace bounds\<close>

lemma compaction_layout_bounded:
  assumes "compaction_layout s l v = Inr s'"
    and "row_group_rows s \<le> MAX_ROW_GROUP_ROWS" "max_file_bytes s \<le> DATA_FILE_SPLIT_BYTES"
  shows "row_group_rows s' \<le> MAX_ROW_GROUP_ROWS \<and> max_file_bytes s' \<le> DATA_FILE_SPLIT_BYTES
     \<and> zstd_level s' = zstd_level s"
  using assms
  by (auto simp: compaction_layout_def res_simps ROW_GROUP_ROWS_def MAX_ROW_GROUP_ROWS_def
      split: option.splits if_splits)

lemma for_compaction_rows_bounded:
  "row_group_rows s \<le> MAX_ROW_GROUP_ROWS \<Longrightarrow> max_file_bytes s \<le> DATA_FILE_SPLIT_BYTES
   \<Longrightarrow> row_group_rows (for_compaction_rows s l n) \<le> MAX_ROW_GROUP_ROWS
     \<and> max_file_bytes (for_compaction_rows s l n) \<le> DATA_FILE_SPLIT_BYTES"
  by (simp add: for_compaction_rows_def ROW_GROUP_ROWS_def MAX_ROW_GROUP_ROWS_def)

lemma request_hour_range: "request_hour uid = Some h \<Longrightarrow> 0 \<le> h \<and> h < 100000000"
  by (auto simp: request_hour_def bind_eq_Some_conv split: if_splits)

lemma window_hour_namespace:
  assumes "request_hour uid = Some h" "i32_min \<le> e"
  shows "is_window_hour (window_hour h) \<and> \<not> is_window_hour e \<and> window_hour h \<noteq> e"
  using request_hour_range [OF assms(1)] assms(2)
  by (simp add: is_window_hour_def window_hour_def i64_min_def i32_min_def)

lemma rh_include_contains:
  "rh_contains (rh_include r h) h \<and> (rh_contains r g \<longrightarrow> rh_contains (rh_include r h) g)"
  by (auto simp: rh_contains_def rh_include_def)

end
