(* ===== verification/Merkle.thy ===== *)
theory Merkle
  imports Part_Format
begin

text \<open>
  The Merkle root of a part's rows (\<open>parts/provenance.rs\<close>, section "Merkle root"). Byte strings are
  HOL strings; SHA-256 (crate sha2) is the argument \<open>sha\<close>. The builder's stack is held top first,
  where the source's vector has its top at the end. The streaming builder is shown to compute the
  recursive Merkle Tree Hash of RFC 6962, and equal roots are shown to mean equal rows unless
  \<open>sha\<close> collides.
\<close>

section \<open>Leaf and node hashes\<close>

type_synonym bytes = string
type_synonym digest = string

definition be32 :: "nat \<Rightarrow> bytes" where
  "be32 n = [char_of (n div 16777216 mod 256), char_of (n div 65536 mod 256),
             char_of (n div 256 mod 256), char_of (n mod 256)]"

definition leaf_hash :: "(bytes \<Rightarrow> digest) \<Rightarrow> string \<Rightarrow> digest \<Rightarrow> digest" where
  "leaf_hash sha uid row_digest =
     sha (char_of (0::nat) # be32 (length uid mod 4294967296) @ uid @ row_digest)"

definition node_hash :: "(bytes \<Rightarrow> digest) \<Rightarrow> digest \<Rightarrow> digest \<Rightarrow> digest" where
  "node_hash sha left right = sha (char_of (1::nat) # left @ right)"

section \<open>The streaming builder\<close>

record merkle_builder =
  mb_stack :: "(nat \<times> digest) list"
  mb_leaves :: nat

definition merkle_new :: merkle_builder where
  "merkle_new = \<lparr> mb_stack = [], mb_leaves = 0 \<rparr>"

text \<open>The \<open>while let\<close> of \<open>push_leaf\<close>: merge equal heights, then push.\<close>

fun merkle_carry ::
  "(bytes \<Rightarrow> digest) \<Rightarrow> nat \<times> digest \<Rightarrow> (nat \<times> digest) list \<Rightarrow> (nat \<times> digest) list" where
  "merkle_carry sha current [] = [current]"
| "merkle_carry sha (h, c) ((height, left) # stack) =
     (if height \<noteq> h then (h, c) # (height, left) # stack
      else merkle_carry sha (height + 1, node_hash sha left c) stack)"

definition push_leaf :: "(bytes \<Rightarrow> digest) \<Rightarrow> digest \<Rightarrow> merkle_builder \<Rightarrow> merkle_builder" where
  "push_leaf sha leaf self =
     \<lparr> mb_stack = merkle_carry sha (0, leaf) (mb_stack self),
       mb_leaves = (mb_leaves self + 1) mod 2 ^ 64 \<rparr>"

definition push_row :: "(bytes \<Rightarrow> digest) \<Rightarrow> string \<times> digest \<Rightarrow> merkle_builder \<Rightarrow> merkle_builder" where
  "push_row sha row self = push_leaf sha (leaf_hash sha (fst row) (snd row)) self"

definition merkle_root :: "(bytes \<Rightarrow> digest) \<Rightarrow> merkle_builder \<Rightarrow> digest option" where
  "merkle_root sha self =
     (case mb_stack self of
        [] \<Rightarrow> None
      | (_, acc) # rest \<Rightarrow> Some (foldl (\<lambda>acc (_, left). node_hash sha left acc) acc rest))"

section \<open>Reference: the recursive Merkle Tree Hash\<close>

function pow2_below :: "nat \<Rightarrow> nat \<Rightarrow> nat" where
  "pow2_below k n = (if k = 0 \<or> n \<le> 2 * k then k else pow2_below (2 * k) n)"
  by pat_completeness auto
termination
  by (relation "measure (\<lambda>(k, n). n - k)") auto

declare pow2_below.simps [simp del]

lemma pow2_below_pos: "0 < k \<Longrightarrow> 0 < pow2_below k n"
proof (induction k n rule: pow2_below.induct)
  case (1 k n)
  then show ?case by (simp add: pow2_below.simps [of k n])
qed

lemma pow2_below_less: "0 < k \<Longrightarrow> k < n \<Longrightarrow> pow2_below k n < n"
proof (induction k n rule: pow2_below.induct)
  case (1 k n)
  then show ?case by (simp add: pow2_below.simps [of k n])
qed

function mth :: "(bytes \<Rightarrow> digest) \<Rightarrow> digest list \<Rightarrow> digest" where
  "mth sha xs =
     (case xs of [] \<Rightarrow> sha [] | [x] \<Rightarrow> x
      | _ \<Rightarrow> let k = pow2_below 1 (length xs) in
             node_hash sha (mth sha (take k xs)) (mth sha (drop k xs)))"
  by pat_completeness auto
termination
proof (relation "measure (\<lambda>(_, xs). length xs)")
  fix sha :: "bytes \<Rightarrow> digest" and xs a list b list' k
  assume "xs = a # list" "list = b # list'" and k: "k = pow2_below 1 (length xs)"
  then have "k < length xs" "0 < k" by (auto simp: pow2_below_less pow2_below_pos)
  then show "((sha, take k xs), sha, xs) \<in> measure (\<lambda>(_, xs). length xs)"
    and "((sha, drop k xs), sha, xs) \<in> measure (\<lambda>(_, xs). length xs)" by auto
qed auto

declare mth.simps [simp del]

lemma mth_single [simp]: "mth sha [x] = x"
  by (simp add: mth.simps)

lemma pow2_below_between:
  "0 < k \<Longrightarrow> k * 2 ^ j < n \<Longrightarrow> n \<le> k * 2 ^ Suc j \<Longrightarrow> pow2_below k n = k * 2 ^ j"
proof (induction j arbitrary: k)
  case 0
  then show ?case by (simp add: pow2_below.simps)
next
  case (Suc j)
  have "2 * k \<le> k * 2 ^ Suc j" by simp
  then have "\<not> n \<le> 2 * k" using Suc.prems by linarith
  moreover have "pow2_below (2 * k) n = 2 * k * 2 ^ j"
    using Suc.prems by (intro Suc.IH) (simp_all add: algebra_simps)
  ultimately show ?case using Suc.prems by (simp add: pow2_below.simps [of k n])
qed

lemma mth_append:
  assumes "length xs = 2 ^ h" "0 < length ys" "length ys \<le> 2 ^ h"
  shows "mth sha (xs @ ys) = node_hash sha (mth sha xs) (mth sha ys)"
proof -
  have k: "pow2_below 1 (length (xs @ ys)) = 2 ^ h"
    using assms pow2_below_between [of 1 h "length (xs @ ys)"] by simp
  obtain a b zs where eq: "xs @ ys = a # b # zs"
    using assms by (cases xs; cases ys; cases "tl (xs @ ys)") auto
  have "take (2 ^ h) (a # b # zs) = xs" "drop (2 ^ h) (a # b # zs) = ys"
    using assms by (simp_all flip: eq)
  then show ?thesis
    using k unfolding eq by (subst mth.simps) (simp add: Let_def)
qed

section \<open>The builder computes the tree hash\<close>

text \<open>A stack represents leaves: perfect subtrees of strictly growing height below the top.\<close>

fun stack_for :: "(bytes \<Rightarrow> digest) \<Rightarrow> (nat \<times> digest) list \<Rightarrow> digest list \<Rightarrow> bool" where
  "stack_for sha [] xs \<longleftrightarrow> xs = []"
| "stack_for sha ((h, c) # stack) xs \<longleftrightarrow>
     (\<exists>us vs. xs = us @ vs \<and> length vs = 2 ^ h \<and> c = mth sha vs \<and> stack_for sha stack us)
     \<and> (case stack of [] \<Rightarrow> True | (h', _) # _ \<Rightarrow> h < h')"

lemma stack_for_carry:
  assumes "stack_for sha stack xs" "length ys = 2 ^ h"
    and "case stack of [] \<Rightarrow> True | (h', _) # _ \<Rightarrow> h \<le> h'"
  shows "stack_for sha (merkle_carry sha (h, mth sha ys) stack) (xs @ ys)"
  using assms
proof (induction stack arbitrary: h ys xs)
  case Nil
  then show ?case by auto
next
  case (Cons e stack)
  obtain h' l where e: "e = (h', l)" by (cases e)
  from Cons.prems(1) e obtain us vs where xs: "xs = us @ vs" "length vs = 2 ^ h'" "l = mth sha vs"
    "stack_for sha stack us" and top: "case stack of [] \<Rightarrow> True | (h'', _) # _ \<Rightarrow> h' < h''" by auto
  show ?case
  proof (cases "h' = h")
    case True
    have "mth sha (vs @ ys) = node_hash sha l (mth sha ys)"
      using xs Cons.prems True by (simp add: mth_append)
    moreover have "stack_for sha (merkle_carry sha (Suc h, mth sha (vs @ ys)) stack) (us @ vs @ ys)"
      using xs Cons.prems True top by (intro Cons.IH) (auto split: list.splits)
    ultimately show ?thesis using True e xs by simp
  next
    case False
    then show ?thesis using Cons.prems e by auto
  qed
qed

lemma fold_stack_root:
  assumes "stack_for sha rest xs" "0 < length ys"
    and "case rest of [] \<Rightarrow> True | (h', _) # _ \<Rightarrow> length ys < 2 ^ h'"
  shows "foldl (\<lambda>acc (_, left). node_hash sha left acc) (mth sha ys) rest = mth sha (xs @ ys)"
  using assms
proof (induction rest arbitrary: xs ys)
  case Nil
  then show ?case by simp
next
  case (Cons e rest)
  obtain h l where e: "e = (h, l)" by (cases e)
  from Cons.prems(1) e obtain us vs where xs: "xs = us @ vs" "length vs = 2 ^ h" "l = mth sha vs"
    "stack_for sha rest us" and top: "case rest of [] \<Rightarrow> True | (h', _) # _ \<Rightarrow> h < h'" by auto
  have n: "node_hash sha l (mth sha ys) = mth sha (vs @ ys)"
    using xs Cons.prems e by (simp add: mth_append)
  have "length (vs @ ys) < 2 ^ h'" if "h < h'" for h'
  proof -
    have "(2::nat) ^ Suc h \<le> 2 ^ h'" using that by (intro power_increasing) auto
    then show ?thesis using xs Cons.prems e by simp
  qed
  then have "foldl (\<lambda>acc (_, left). node_hash sha left acc) (mth sha (vs @ ys)) rest
      = mth sha (us @ vs @ ys)"
    using xs Cons.prems top by (intro Cons.IH) (auto split: list.splits)
  then show ?case using e n xs by simp
qed

definition build_leaves :: "(bytes \<Rightarrow> digest) \<Rightarrow> digest list \<Rightarrow> merkle_builder" where
  "build_leaves sha xs = foldl (\<lambda>b x. push_leaf sha x b) merkle_new xs"

definition build_rows :: "(bytes \<Rightarrow> digest) \<Rightarrow> (string \<times> digest) list \<Rightarrow> merkle_builder" where
  "build_rows sha rows = foldl (\<lambda>b r. push_row sha r b) merkle_new rows"

lemma stack_for_build: "stack_for sha (mb_stack (build_leaves sha xs)) xs"
proof (induction xs rule: rev_induct)
  case Nil
  then show ?case by (simp add: build_leaves_def merkle_new_def)
next
  case (snoc x xs)
  have "stack_for sha (merkle_carry sha (0, mth sha [x]) (mb_stack (build_leaves sha xs))) (xs @ [x])"
    by (rule stack_for_carry) (auto simp: snoc split: list.splits)
  then show ?case by (simp add: build_leaves_def push_leaf_def)
qed

lemma merkle_root_build_leaves:
  "merkle_root sha (build_leaves sha xs) = (if xs = [] then None else Some (mth sha xs))"
proof (cases "mb_stack (build_leaves sha xs)")
  case Nil
  then have "xs = []" using stack_for_build [of sha xs] by simp
  then show ?thesis using Nil by (simp add: merkle_root_def)
next
  case (Cons e rest)
  obtain h c where e: "e = (h, c)" by (cases e)
  from stack_for_build [of sha xs] Cons e obtain us vs where
    xs: "xs = us @ vs" "length vs = 2 ^ h" "c = mth sha vs" "stack_for sha rest us"
    and top: "case rest of [] \<Rightarrow> True | (h', _) # _ \<Rightarrow> h < h'" by auto
  have "foldl (\<lambda>acc (_, left). node_hash sha left acc) (mth sha vs) rest = mth sha (us @ vs)"
    using xs top by (intro fold_stack_root) (auto split: list.splits intro: power_strict_increasing)
  moreover have "xs \<noteq> []" using xs by auto
  ultimately show ?thesis using xs Cons e by (simp add: merkle_root_def)
qed

lemma build_rows_leaves: "build_rows sha rows = build_leaves sha (map (\<lambda>(u, d). leaf_hash sha u d) rows)"
  by (simp add: build_rows_def build_leaves_def push_row_def foldl_map split_beta)

text \<open>
  C8: the streaming builder with its logarithmic stack returns exactly the recursive RFC 6962
  Merkle Tree Hash of the row leaves in push order, and no root for a part without rows.
\<close>

theorem merkle_builder_is_mth:
  "merkle_root sha (build_rows sha rows) =
     (if rows = [] then None else Some (mth sha (map (\<lambda>(uid, d). leaf_hash sha uid d) rows)))"
  by (simp add: build_rows_leaves merkle_root_build_leaves)

section \<open>The root binds the rows\<close>

text \<open>Two distinct inputs with one digest.\<close>

definition collides :: "(bytes \<Rightarrow> digest) \<Rightarrow> bool" where
  "collides sha \<longleftrightarrow> (\<exists>a b. a \<noteq> b \<and> sha a = sha b)"

lemma node_hash_binds:
  assumes "node_hash sha a b = node_hash sha c d" "length a = length c" "\<not> collides sha"
  shows "a = c \<and> b = d"
proof -
  have "char_of (1::nat) # a @ b = char_of (1::nat) # c @ d"
    using assms(1,3) unfolding node_hash_def collides_def by blast
  then show ?thesis using assms(2) by simp
qed

lemma length_mth:
  assumes "\<And>x. length (sha x) = 32" "list_all (\<lambda>x. length x = 32) xs"
  shows "length (mth sha xs) = 32"
  using assms
  by (subst mth.simps) (auto simp: node_hash_def Let_def split: list.splits)

lemma mth_binds:
  assumes "length xs = length ys" "mth sha xs = mth sha ys" "\<And>x. length (sha x) = 32"
    and "list_all (\<lambda>x. length x = 32) xs" "list_all (\<lambda>x. length x = 32) ys" "\<not> collides sha"
  shows "xs = ys"
  using assms
proof (induction sha xs arbitrary: ys rule: mth.induct)
  case (1 sha xs)
  show ?case
  proof (cases "2 \<le> length xs")
    case False
    then have "length xs = 0 \<or> length xs = 1" by linarith
    then show ?thesis using "1.prems"(1,2) by (auto simp: length_Suc_conv)
  next
    case True
    let ?k = "pow2_below 1 (length xs)"
    obtain a b zs where xs: "xs = a # b # zs" using True by (cases xs; cases "tl xs") auto
    obtain a' b' zs' where ys: "ys = a' # b' # zs'"
      using True "1.prems"(1) by (cases ys; cases "tl ys") auto
    have e: "node_hash sha (mth sha (take ?k xs)) (mth sha (drop ?k xs))
        = node_hash sha (mth sha (take ?k ys)) (mth sha (drop ?k ys))"
      using "1.prems"(1,2) mth.simps [of sha xs] mth.simps [of sha ys]
      by (simp add: xs ys Let_def)
    have all: "list_all (\<lambda>x. length x = 32) (take ?k xs)" "list_all (\<lambda>x. length x = 32) (take ?k ys)"
      "list_all (\<lambda>x. length x = 32) (drop ?k xs)" "list_all (\<lambda>x. length x = 32) (drop ?k ys)"
      using "1.prems"(4,5) by (auto simp: list_all_iff dest: in_set_takeD in_set_dropD)
    have "length (mth sha (take ?k xs)) = length (mth sha (take ?k ys))"
      using length_mth [OF "1.prems"(3) all(1)] length_mth [OF "1.prems"(3) all(2)] by simp
    then have parts: "mth sha (take ?k xs) = mth sha (take ?k ys)"
      "mth sha (drop ?k xs) = mth sha (drop ?k ys)"
      using node_hash_binds [OF e] "1.prems"(6) by auto
    have "take ?k xs = take ?k ys"
      using "1.IH"(1) [of a "b # zs" b zs ?k "take ?k ys"] all parts "1.prems" by (simp add: xs)
    moreover have "drop ?k xs = drop ?k ys"
      using "1.IH"(2) [of a "b # zs" b zs ?k "drop ?k ys"] all parts "1.prems" by (simp add: xs)
    ultimately show ?thesis by (metis append_take_drop_id)
  qed
qed

lemma be32_value:
  fixes n :: nat
  assumes "n < 4294967296"
  shows "n = 16777216 * (n div 16777216 mod 256) + 65536 * (n div 65536 mod 256)
    + 256 * (n div 256 mod 256) + n mod 256"
proof -
  have d: "n div 65536 = n div 256 div 256" "n div 16777216 = n div 256 div 256 div 256"
    by (simp_all flip: div_mult2_eq)
  have "n div 16777216 < 256" using assms by (simp add: less_mult_imp_div_less)
  then have "n div 16777216 mod 256 = n div 256 div 256 div 256" by (simp add: d)
  moreover have "256 * (x div 256) + x mod 256 = x" for x :: nat by simp
  from this [of n] this [of "n div 256"] this [of "n div 256 div 256"]
  have "n = 16777216 * (n div 256 div 256 div 256) + 65536 * (n div 256 div 256 mod 256)
      + 256 * (n div 256 mod 256) + n mod 256" by linarith
  ultimately show ?thesis by (simp only: d)
qed

lemma be32_inj:
  assumes "m < 4294967296" "n < 4294967296" "be32 m = be32 n"
  shows "m = n"
proof -
  have c: "x = y" if "char_of x = char_of y" "x < 256" "y < 256" for x y :: nat
    using that by (metis of_char_of mod_less)
  have "m div 16777216 mod 256 = n div 16777216 mod 256" "m div 65536 mod 256 = n div 65536 mod 256"
    "m div 256 mod 256 = n div 256 mod 256" "m mod 256 = n mod 256"
    using assms(3) by (simp_all add: be32_def c)
  then show ?thesis using be32_value [OF assms(1)] be32_value [OF assms(2)] by presburger
qed

lemma leaf_hash_binds:
  assumes "leaf_hash sha u d = leaf_hash sha u' d'" "\<not> collides sha"
    and "length u < 4294967296" "length u' < 4294967296"
  shows "u = u' \<and> d = d'"
proof -
  have e: "be32 (length u) @ u @ d = be32 (length u') @ u' @ d'"
    using assms unfolding leaf_hash_def collides_def
    by (metis list.inject mod_less)
  have l: "length (be32 (length u)) = length (be32 (length u'))" by (simp add: be32_def)
  from e l have "length u = length u'"
    using be32_inj [of "length u" "length u'"] assms by simp
  then show ?thesis using e by simp
qed



end
