(* ===== verification/Edge_Log.thy ===== *)
theory Edge_Log
  imports Part_Format
begin

text \<open>
  The edge-log binding of an L0 part (\<open>parts/provenance.rs\<close>: \<open>SourceObject\<close>, \<open>EdgeLogRange\<close> and
  their checks). The hex SHA-256 (crates sha2 and hex) is the argument \<open>sha_hex\<close>. A range that
  validates covers its sequence numbers exactly once, chained ranges cover the log from its start
  without gap or overlap, and the final chain value fixes every segment unless \<open>sha_hex\<close> collides.
\<close>

section \<open>Data\<close>

definition MAX_SAFE_INTEGER :: nat where "MAX_SAFE_INTEGER = 9007199254740991"
definition EDGE_LOG_CONTRACT :: string where "EDGE_LOG_CONTRACT = ''nano-edge-log-v1''"
definition EDGE_LOG_VERSION_PREFIX :: string where "EDGE_LOG_VERSION_PREFIX = ''edge-log-v1:''"

record source_object =
  so_key :: string
  so_version :: string
  so_bytes :: nat
  so_sha256 :: string
  so_rows :: nat
  so_edge_sha256 :: "string option"

datatype edge_skip_reason = ConsumedWithoutRows

record edge_skipped_segment =
  es_seq :: nat
  es_key :: string
  es_sha256 :: string
  es_length :: nat
  es_reason :: edge_skip_reason
  es_rows :: nat
  es_rows_rejected :: nat
  es_rows_duplicate :: nat

record edge_log_range =
  el_log :: string
  el_contract :: string
  el_first_seq :: nat
  el_through_seq :: nat
  el_prev_chain :: string
  el_through_chain :: string
  el_skipped :: "edge_skipped_segment list"
  el_rows_in :: nat
  el_rows_rejected :: nat
  el_rows_duplicate :: nat

section \<open>Keys, versions and chain values\<close>

text \<open>\<open>chars().any(char::is_control)\<close> on UTF-8 bytes: C0 and DEL are single bytes, the C1 controls
  are the two-byte sequences \<open>C2 80\<close> to \<open>C2 9F\<close>.\<close>

fun any_control :: "string \<Rightarrow> bool" where
  "any_control [] \<longleftrightarrow> False"
| "any_control (c # cs) \<longleftrightarrow> is_control c
     \<or> ((of_char c :: nat) = 194 \<and> (case cs of d # _ \<Rightarrow> 128 \<le> (of_char d :: nat) \<and> (of_char d :: nat) \<le> 159 | [] \<Rightarrow> False))
     \<or> any_control cs"

definition is_edge_segment_key :: "string \<Rightarrow> string \<Rightarrow> bool" where
  "is_edge_segment_key tenant_id key \<longleftrightarrow>
     (case split_on CHR ''/'' key of
        [root, shard, tenant, file] \<Rightarrow>
          root = ''bronze-v2''
          \<and> (case strip_prefix ''shard='' shard of
               Some n \<Rightarrow> n \<noteq> [] \<and> list_all is_digit n | None \<Rightarrow> False)
          \<and> tenant = ''tenant_id='' @ tenant_id
          \<and> file \<noteq> [] \<and> file \<noteq> ''.'' \<and> file \<noteq> ''..''
      | _ \<Rightarrow> False)
     \<and> length key \<le> 1024 \<and> \<not> any_control key"

definition edge_log_seq_of_version :: "string \<Rightarrow> nat option" where
  "edge_log_seq_of_version version =
     Option.bind (strip_prefix EDGE_LOG_VERSION_PREFIX version) (\<lambda>digits.
       if digits = [] \<or> 20 < length digits \<or> \<not> list_all is_digit digits \<or> hd digits = CHR ''0''
       then None
       else Option.bind (parse_u64 digits) (\<lambda>seq.
         if seq \<le> MAX_SAFE_INTEGER then Some seq else None))"

definition newline :: string where "newline = [char_of (10::nat)]"

definition edge_log_genesis :: "(string \<Rightarrow> string) \<Rightarrow> string \<Rightarrow> string" where
  "edge_log_genesis sha_hex tenant_id = sha_hex (EDGE_LOG_CONTRACT @ newline @ tenant_id)"

definition edge_log_next_chain ::
  "(string \<Rightarrow> string) \<Rightarrow> string \<Rightarrow> nat \<Rightarrow> string \<Rightarrow> string \<Rightarrow> nat \<Rightarrow> string" where
  "edge_log_next_chain sha_hex previous seq key sha256 len =
     sha_hex (previous @ newline @ dec seq @ newline @ key @ newline @ sha256 @ newline @ dec len)"

section \<open>Range validation\<close>

type_synonym segment = "nat \<times> string \<times> string \<times> nat"

fun chain_over :: "(string \<Rightarrow> string) \<Rightarrow> string \<Rightarrow> segment list \<Rightarrow> string" where
  "chain_over sha_hex chain [] = chain"
| "chain_over sha_hex chain ((seq, key, sha256, len) # segments) =
     chain_over sha_hex (edge_log_next_chain sha_hex chain seq key sha256 len) segments"

definition source_segment :: "source_object \<Rightarrow> segment res" where
  "source_segment source =
     bind_res (ok_or (edge_log_seq_of_version (so_version source)) ''edge log source version is malformed'')
       (\<lambda>seq. Inr (seq, so_key source, so_sha256 source, so_bytes source))"

definition skipped_segment :: "edge_skipped_segment \<Rightarrow> segment res" where
  "skipped_segment skipped =
     bind_res (ensure (is_sha256_hex (es_sha256 skipped)) ''edge log skipped segment digest is malformed'')
       (\<lambda>_. Inr (es_seq skipped, es_key skipped, es_sha256 skipped, es_length skipped))"

definition skipped_rows_ok :: "edge_skipped_segment \<Rightarrow> bool" where
  "skipped_rows_ok s \<longleftrightarrow>
     Option.bind (checked_sub_u64 (es_rows s) (es_rows_rejected s))
       (\<lambda>r. checked_sub_u64 r (es_rows_duplicate s)) = Some 0"

definition last_source_ok :: "edge_log_range \<Rightarrow> source_object list \<Rightarrow> bool" where
  "last_source_ok self sources \<longleftrightarrow>
     (case List.map_filter (\<lambda>s. edge_log_seq_of_version (so_version s)) sources of
        [] \<Rightarrow> True
      | s # ss \<Rightarrow> fold max ss s = el_through_seq self)"

definition edge_range_segments :: "edge_log_range \<Rightarrow> source_object list \<Rightarrow> segment list res" where
  "edge_range_segments self sources =
     bind_res (res_map source_segment sources) (\<lambda>from_sources.
     bind_res (res_map skipped_segment (el_skipped self)) (\<lambda>from_skipped.
       Inr (sort_key fst (from_sources @ from_skipped))))"

definition edge_range_validate ::
  "(string \<Rightarrow> string) \<Rightarrow> edge_log_range \<Rightarrow> string \<Rightarrow> source_object list \<Rightarrow> unit res" where
  "edge_range_validate sha_hex self tenant_id sources =
     bind_res (ensure (el_log self = ''edgelog:'' @ tenant_id \<and> el_contract self = EDGE_LOG_CONTRACT)
       ''edge log range names another log or contract'') (\<lambda>_.
     bind_res (ensure (\<not> (el_first_seq self = 0 \<or> el_through_seq self < el_first_seq self
         \<or> MAX_SAFE_INTEGER < el_through_seq self))
       ''edge log range is empty, inverted or out of bounds'') (\<lambda>_.
     bind_res (res_all (\<lambda>s. ensure (is_sha256_hex (so_sha256 s) \<and> is_edge_segment_key tenant_id (so_key s))
         ''edge log source digest or key is invalid'') sources) (\<lambda>_.
     bind_res (res_all (\<lambda>s. ensure (is_edge_segment_key tenant_id (es_key s) \<and> skipped_rows_ok s)
         ''edge log skipped segment key or row accounting is invalid'') (el_skipped self)) (\<lambda>_.
     bind_res (ok_or (checked_sum (map so_rows sources)) ''row overflow'') (\<lambda>source_rows.
     bind_res (ok_or (checked_sum (map es_rows (el_skipped self))) ''row overflow'') (\<lambda>skipped_rows.
     bind_res (ensure (checked_add_u64 source_rows skipped_rows = Some (el_rows_in self)
         \<and> (case checked_add_u64 (el_rows_rejected self) (el_rows_duplicate self) of
               None \<Rightarrow> False | Some lost \<Rightarrow> lost \<le> el_rows_in self))
       ''edge log range row accounting does not add up'') (\<lambda>_.
     bind_res (ensure (is_sha256_hex (el_prev_chain self) \<and> is_sha256_hex (el_through_chain self))
       ''edge log chain is malformed'') (\<lambda>_.
     bind_res (edge_range_segments self sources) (\<lambda>segments.
     bind_res (ensure (length segments = el_through_seq self - el_first_seq self + 1
         \<and> list_all (\<lambda>(offset, segment). fst segment = el_first_seq self + offset) (enumerate 0 segments))
       ''edge log sources and skipped segments do not cover the range exactly'') (\<lambda>_.
     bind_res (ensure (last_source_ok self sources)
       ''edge log range must end at its last source'') (\<lambda>_.
       ensure (chain_over sha_hex (el_prev_chain self) segments = el_through_chain self)
         ''edge log chain does not recompute to through_chain'')))))))))))"

definition follows_point :: "edge_log_range \<Rightarrow> string \<Rightarrow> nat \<Rightarrow> string \<Rightarrow> unit res" where
  "follows_point self log through_seq through_chain =
     bind_res (ok_or (checked_add_u64 through_seq 1) ''edge log sequence overflow'') (\<lambda>next.
       ensure (el_log self = log \<and> el_first_seq self = next \<and> el_prev_chain self = through_chain)
         ''edge log range does not continue the previous range'')"

definition follows :: "edge_log_range \<Rightarrow> edge_log_range \<Rightarrow> unit res" where
  "follows self previous = follows_point self (el_log previous) (el_through_seq previous) (el_through_chain previous)"

section \<open>A validated range covers its sequence numbers\<close>

lemma covers_upt:
  assumes "\<not> hi < lo" "length segs = Suc (hi - lo)"
    and "list_all (\<lambda>(offset, segment). fst segment = lo + offset) (enumerate 0 (segs :: segment list))"
  shows "map fst segs = [lo ..< Suc hi]"
proof (rule nth_equalityI)
  show "length (map fst segs) = length [lo ..< Suc hi]"
    using assms by (simp del: upt_Suc)
  fix i assume "i < length (map fst segs)"
  then have i: "i < length segs" "lo + i < Suc hi" using assms by simp_all
  then have "(i, segs ! i) \<in> set (enumerate 0 segs)"
    by (auto simp: in_set_enumerate_eq)
  then have "fst (segs ! i) = lo + i"
    using assms(3) by (auto simp: list_all_iff)
  then show "map fst segs ! i = [lo ..< Suc hi] ! i"
    using i by (simp add: nth_upt del: upt_Suc)
qed

lemma edge_range_validate_ok:
  assumes "edge_range_validate sha_hex r tenant sources = Inr u"
  obtains segs where "edge_range_segments r sources = Inr segs"
    "map fst segs = [el_first_seq r ..< Suc (el_through_seq r)]"
    "chain_over sha_hex (el_prev_chain r) segs = el_through_chain r"
    "0 < el_first_seq r" "el_first_seq r \<le> el_through_seq r" "el_log r = ''edgelog:'' @ tenant"
    "is_sha256_hex (el_prev_chain r)" "is_sha256_hex (el_through_chain r)"
    "\<forall>s \<in> set sources. is_sha256_hex (so_sha256 s) \<and> is_edge_segment_key tenant (so_key s)"
    "\<forall>s \<in> set (el_skipped r). is_edge_segment_key tenant (es_key s)"
  using assms unfolding edge_range_validate_def
  by (auto simp: res_simps simp del: upt_Suc intro: covers_upt)

lemma edge_range_rows:
  assumes "edge_range_validate sha_hex r tenant sources = Inr u"
  shows "sum_list (map so_rows sources) + sum_list (map es_rows (el_skipped r)) = el_rows_in r"
    and "el_rows_rejected r + el_rows_duplicate r \<le> el_rows_in r"
    and "\<forall>s \<in> set (el_skipped r). es_rows s = es_rows_rejected s + es_rows_duplicate s"
proof -
  from assms obtain a b where ab: "checked_sum (map so_rows sources) = Some a"
    "checked_sum (map es_rows (el_skipped r)) = Some b" "checked_add_u64 a b = Some (el_rows_in r)"
    unfolding edge_range_validate_def by (auto simp: res_simps simp del: upt_Suc)
  then show "sum_list (map so_rows sources) + sum_list (map es_rows (el_skipped r)) = el_rows_in r"
    using checked_sum_from_Some [OF ab(1)] checked_sum_from_Some [OF ab(2)]
    by (simp add: checked_add_u64_Some)
  show "el_rows_rejected r + el_rows_duplicate r \<le> el_rows_in r"
    using assms unfolding edge_range_validate_def
    by (auto simp: res_simps checked_add_u64_Some simp del: upt_Suc split: option.splits)
  have "\<forall>s \<in> set (el_skipped r). skipped_rows_ok s"
    using assms unfolding edge_range_validate_def by (auto simp: res_simps simp del: upt_Suc)
  then show "\<forall>s \<in> set (el_skipped r). es_rows s = es_rows_rejected s + es_rows_duplicate s"
    by (fastforce simp: skipped_rows_ok_def bind_eq_Some_conv checked_sub_u64_Some)
qed

lemma source_segments_fst:
  "res_map source_segment sources = Inr segs
   \<Longrightarrow> map fst segs = map (\<lambda>s. the (edge_log_seq_of_version (so_version s))) sources"
  by (induction sources arbitrary: segs) (auto simp: res_simps source_segment_def)

lemma skipped_segments_fst:
  "res_map skipped_segment skipped = Inr segs \<Longrightarrow> map fst segs = map es_seq skipped"
  by (induction skipped arbitrary: segs) (auto simp: res_simps skipped_segment_def)

lemma chain_over_append:
  "chain_over sha_hex c (xs @ ys) = chain_over sha_hex (chain_over sha_hex c xs) ys"
  by (induction sha_hex c xs rule: chain_over.induct) auto

text \<open>
  A range that validates holds exactly its announced sequence numbers, each once, whether read
  from a source version or from a skipped segment, and its rows are all accounted for: the rows of
  its sources and skipped segments add up to \<open>rows_in\<close>, and a skipped segment lost every row to a
  rejection or a duplicate.
\<close>

lemma edge_range_exact:
  assumes "edge_range_validate sha_hex r tenant sources = Inr u"
  shows "mset (map (\<lambda>s. the (edge_log_seq_of_version (so_version s))) sources) + mset (map es_seq (el_skipped r))
       = mset [el_first_seq r ..< Suc (el_through_seq r)]
    \<and> sum_list (map so_rows sources) + sum_list (map es_rows (el_skipped r)) = el_rows_in r
    \<and> (\<forall>s \<in> set (el_skipped r). es_rows s = es_rows_rejected s + es_rows_duplicate s)"
proof -
  from assms obtain segs where segs: "edge_range_segments r sources = Inr segs"
    "map fst segs = [el_first_seq r ..< Suc (el_through_seq r)]"
    by (rule edge_range_validate_ok)
  then obtain as bs where ab: "res_map source_segment sources = Inr as"
    "res_map skipped_segment (el_skipped r) = Inr bs" "segs = sort_key fst (as @ bs)"
    by (auto simp: edge_range_segments_def res_simps)
  have "mset (map fst segs) = mset (map fst as) + mset (map fst bs)"
    by (simp add: ab(3))
  then show ?thesis
    using segs(2) source_segments_fst [OF ab(1)] skipped_segments_fst [OF ab(2)] edge_range_rows [OF assms]
    by simp
qed

section \<open>Chained ranges cover the log\<close>

text \<open>Validated ranges of one tenant's log in part-log order, each continuing the previous point.\<close>

fun edge_ranges_from ::
  "(string \<Rightarrow> string) \<Rightarrow> string \<Rightarrow> nat \<Rightarrow> string \<Rightarrow> (edge_log_range \<times> source_object list) list \<Rightarrow> bool" where
  "edge_ranges_from sha_hex tenant seq chain [] \<longleftrightarrow> True"
| "edge_ranges_from sha_hex tenant seq chain ((r, sources) # rest) \<longleftrightarrow>
     is_ok (edge_range_validate sha_hex r tenant sources)
     \<and> is_ok (follows_point r (''edgelog:'' @ tenant) seq chain)
     \<and> edge_ranges_from sha_hex tenant (el_through_seq r) (el_through_chain r) rest"

fun edge_end :: "nat \<Rightarrow> string \<Rightarrow> (edge_log_range \<times> source_object list) list \<Rightarrow> nat \<times> string" where
  "edge_end seq chain [] = (seq, chain)"
| "edge_end seq chain ((r, _) # rest) = edge_end (el_through_seq r) (el_through_chain r) rest"

definition all_segments :: "(edge_log_range \<times> source_object list) list \<Rightarrow> segment list" where
  "all_segments ranges =
     concat (map (\<lambda>(r, sources). case edge_range_segments r sources of Inr segs \<Rightarrow> segs | Inl _ \<Rightarrow> []) ranges)"

lemma edge_ranges_cover:
  assumes "edge_ranges_from sha_hex tenant seq chain ranges"
  shows "seq \<le> fst (edge_end seq chain ranges)
    \<and> map fst (all_segments ranges) = [Suc seq ..< Suc (fst (edge_end seq chain ranges))]
    \<and> chain_over sha_hex chain (all_segments ranges) = snd (edge_end seq chain ranges)"
  using assms
proof (induction sha_hex tenant seq chain ranges rule: edge_ranges_from.induct)
  case (1 sha_hex tenant seq chain)
  then show ?case by (simp add: all_segments_def)
next
  case (2 sha_hex tenant seq chain r sources rest)
  from "2.prems" obtain u where ok: "edge_range_validate sha_hex r tenant sources = Inr u"
    and f: "el_first_seq r = Suc seq" "el_prev_chain r = chain"
    by (auto simp: follows_point_def res_simps checked_add_u64_Some)
  obtain segs where segs: "edge_range_segments r sources = Inr segs"
    "map fst segs = [el_first_seq r ..< Suc (el_through_seq r)]"
    "chain_over sha_hex (el_prev_chain r) segs = el_through_chain r" "el_first_seq r \<le> el_through_seq r"
    using ok by (rule edge_range_validate_ok)
  let ?e = "fst (edge_end (el_through_seq r) (el_through_chain r) rest)"
  have split: "all_segments ((r, sources) # rest) = segs @ all_segments rest"
    by (simp add: all_segments_def segs(1))
  have IH: "el_through_seq r \<le> ?e"
    "map fst (all_segments rest) = [Suc (el_through_seq r) ..< Suc ?e]"
    "chain_over sha_hex (el_through_chain r) (all_segments rest)
       = snd (edge_end (el_through_seq r) (el_through_chain r) rest)"
    using "2.IH" "2.prems" by auto
  have "[Suc seq ..< Suc (el_through_seq r)] @ [Suc (el_through_seq r) ..< Suc ?e] = [Suc seq ..< Suc ?e]"
    using segs(4) f IH(1) by (metis Suc_le_mono le_add_diff_inverse upt_add_eq_append le_SucI)
  then show ?case
    using IH segs f by (simp add: split chain_over_append del: upt_Suc)
qed

text \<open>
  C25: consecutive L0 parts neither skip nor insert an edge batch: ranges that validate and each
  continue the previous end, starting from the genesis value at sequence 0, hold the segments
  1, 2, ..., n in order, where n is the last \<open>through_seq\<close>, and the last \<open>through_chain\<close> is the
  chain over exactly those segments from genesis.
\<close>

theorem edge_log_contiguous:
  assumes "edge_ranges_from sha_hex tenant 0 (edge_log_genesis sha_hex tenant) ranges"
  shows "map fst (all_segments ranges) =
      [1 ..< Suc (fst (edge_end 0 (edge_log_genesis sha_hex tenant) ranges))]
    \<and> chain_over sha_hex (edge_log_genesis sha_hex tenant) (all_segments ranges)
      = snd (edge_end 0 (edge_log_genesis sha_hex tenant) ranges)"
  using edge_ranges_cover [OF assms] by simp

section \<open>The chain fixes the segments\<close>

definition nl :: char where "nl = char_of (10::nat)"

lemma newline_nl: "newline = [nl]"
  by (simp add: newline_def nl_def)

lemma split_at_nl:
  assumes "a @ c # b = a' @ c # b'" "c \<notin> set a" "c \<notin> set a'"
  shows "a = a' \<and> b = b'"
  using assms
proof (induction a arbitrary: a')
  case Nil
  then show ?case by (cases a') auto
next
  case (Cons x a)
  then show ?case by (cases a') auto
qed

lemma dec_inj: "dec m = dec n \<Longrightarrow> m = n"
  by (metis digits_val_dec)

lemma digit_not_nl: "is_digit c \<Longrightarrow> c \<noteq> nl"
  by (auto simp: is_digit_def nl_def)

lemma nl_dec: "nl \<notin> set (dec n)"
  using dec_digits [of n] digit_not_nl by (auto simp: list_all_iff)

lemma nl_hex: "is_sha256_hex h \<Longrightarrow> nl \<notin> set h"
  by (auto simp: is_sha256_hex_def list_all_iff is_lower_hex_def is_digit_def nl_def)

lemma nl_no_control: "\<not> any_control k \<Longrightarrow> nl \<notin> set k"
  by (induction k) (auto simp: is_control_def nl_def)

lemma nl_segment_key: "is_edge_segment_key tenant k \<Longrightarrow> nl \<notin> set k"
  by (simp add: is_edge_segment_key_def nl_no_control)

definition hex_collides :: "(string \<Rightarrow> string) \<Rightarrow> bool" where
  "hex_collides sha_hex \<longleftrightarrow> (\<exists>a b. a \<noteq> b \<and> sha_hex a = sha_hex b)"

definition segment_clean :: "segment \<Rightarrow> bool" where
  "segment_clean seg \<longleftrightarrow> (case seg of (_, key, sha256, _) \<Rightarrow> nl \<notin> set key \<and> nl \<notin> set sha256)"

lemma next_chain_binds:
  assumes "edge_log_next_chain sha_hex p s k h l = edge_log_next_chain sha_hex p' s' k' h' l'"
    and "\<not> hex_collides sha_hex" "nl \<notin> set p" "nl \<notin> set p'"
    and "segment_clean (s, k, h, l)" "segment_clean (s', k', h', l')"
  shows "p = p' \<and> (s, k, h, l) = (s', k', h', l')"
proof -
  have e: "p @ nl # dec s @ nl # k @ nl # h @ nl # dec l = p' @ nl # dec s' @ nl # k' @ nl # h' @ nl # dec l'"
    using assms(1,2) unfolding edge_log_next_chain_def hex_collides_def newline_nl by auto
  have c: "nl \<notin> set k" "nl \<notin> set k'" "nl \<notin> set h" "nl \<notin> set h'"
    using assms(5,6) by (simp_all add: segment_clean_def)
  note s1 = split_at_nl [OF e assms(3,4)]
  note s2 = split_at_nl [OF conjunct2 [OF s1] nl_dec nl_dec]
  note s3 = split_at_nl [OF conjunct2 [OF s2] c(1,2)]
  note s4 = split_at_nl [OF conjunct2 [OF s3] c(3,4)]
  show ?thesis using s1 s2 s3 s4 by (auto dest: dec_inj)
qed

lemma chain_over_hex:
  "(\<And>x. is_sha256_hex (sha_hex x)) \<Longrightarrow> is_sha256_hex c \<Longrightarrow> is_sha256_hex (chain_over sha_hex c segs)"
  by (induction sha_hex c segs rule: chain_over.induct) (auto simp: edge_log_next_chain_def)

lemma chain_over_binds:
  assumes "length xs = length ys" "chain_over sha_hex c xs = chain_over sha_hex c' ys"
    and "\<And>x. is_sha256_hex (sha_hex x)" "is_sha256_hex c" "is_sha256_hex c'"
    and "list_all segment_clean xs" "list_all segment_clean ys" "\<not> hex_collides sha_hex"
  shows "c = c' \<and> xs = ys"
  using assms(1,2,6,7)
proof (induction xs arbitrary: ys rule: rev_induct)
  case Nil
  then show ?case by simp
next
  case (snoc x xs)
  then obtain y ys' where ys: "ys = ys' @ [y]" by (cases ys rule: rev_cases) auto
  obtain s k h l where x: "x = (s, k, h, l)" by (cases x)
  obtain s' k' h' l' where y: "y = (s', k', h', l')" by (cases y)
  have "chain_over sha_hex c xs = chain_over sha_hex c' ys' \<and> x = y"
    using snoc.prems assms(3-5,8) unfolding x y ys
    by (intro next_chain_binds) (auto simp: chain_over_append intro!: nl_hex chain_over_hex)
  then show ?case using snoc.IH [of ys'] snoc.prems ys by simp
qed

lemma segments_clean:
  assumes "edge_range_validate sha_hex r tenant sources = Inr u" "edge_range_segments r sources = Inr segs"
  shows "list_all segment_clean segs"
proof -
  from assms(2) obtain as bs where ab: "res_map source_segment sources = Inr as"
    "res_map skipped_segment (el_skipped r) = Inr bs" "segs = sort_key fst (as @ bs)"
    by (auto simp: edge_range_segments_def res_simps)
  obtain segs' where v: "\<forall>s \<in> set sources. is_sha256_hex (so_sha256 s) \<and> is_edge_segment_key tenant (so_key s)"
    "\<forall>s \<in> set (el_skipped r). is_edge_segment_key tenant (es_key s)"
    using assms(1) by (rule edge_range_validate_ok)
  have "list_all segment_clean as"
    using ab(1) v(1) by (induction sources arbitrary: as)
      (auto simp: res_simps source_segment_def segment_clean_def nl_hex nl_segment_key)
  moreover have "list_all segment_clean bs" if "res_map skipped_segment sk = Inr bs"
      "\<forall>s \<in> set sk. is_edge_segment_key tenant (es_key s)" for sk bs
    using that by (induction sk arbitrary: bs)
      (auto simp: res_simps skipped_segment_def segment_clean_def nl_hex nl_segment_key)
  from this [OF ab(2) v(2)] have "list_all segment_clean bs" .
  ultimately show ?thesis using ab(3) by (simp add: list_all_iff ball_Un)
qed

lemma all_segments_clean:
  "edge_ranges_from sha_hex tenant seq chain ranges \<Longrightarrow> list_all segment_clean (all_segments ranges)"
proof (induction sha_hex tenant seq chain ranges rule: edge_ranges_from.induct)
  case (1 sha_hex tenant seq chain)
  then show ?case by (simp add: all_segments_def)
next
  case (2 sha_hex tenant seq chain r sources rest)
  then show ?case
    by (auto simp: all_segments_def is_ok_iff segments_clean split: sum.splits)
qed


section \<open>A concrete log\<close>

definition demo_sha :: "string \<Rightarrow> string" where
  "demo_sha _ = replicate 64 CHR ''a''"

definition demo_source :: "nat \<Rightarrow> source_object" where
  "demo_source len =
     \<lparr> so_key = ''bronze-v2/shard=0/tenant_id=t/f'', so_version = ''edge-log-v1:2'', so_bytes = len,
       so_sha256 = replicate 64 CHR ''a'', so_rows = 4, so_edge_sha256 = None \<rparr>"

definition demo_skipped :: edge_skipped_segment where
  "demo_skipped =
     \<lparr> es_seq = 1, es_key = ''bronze-v2/shard=0/tenant_id=t/g'', es_sha256 = replicate 64 CHR ''b'',
       es_length = 5, es_reason = ConsumedWithoutRows, es_rows = 3, es_rows_rejected = 1, es_rows_duplicate = 2 \<rparr>"

definition demo_range :: edge_log_range where
  "demo_range =
     \<lparr> el_log = ''edgelog:t'', el_contract = EDGE_LOG_CONTRACT, el_first_seq = 1, el_through_seq = 2,
       el_prev_chain = replicate 64 CHR ''a'', el_through_chain = replicate 64 CHR ''a'',
       el_skipped = [demo_skipped], el_rows_in = 7, el_rows_rejected = 1, el_rows_duplicate = 2 \<rparr>"

lemma list_all_replicate: "list_all P (replicate n x) \<longleftrightarrow> n = 0 \<or> P x"
  by (induction n) auto

lemma demo_hex: "is_sha256_hex (replicate 64 CHR ''a'')" "is_sha256_hex (replicate 64 CHR ''b'')"
  by (simp_all add: is_sha256_hex_def list_all_replicate is_lower_hex_def)

lemma demo_keys: "is_edge_segment_key ''t'' ''bronze-v2/shard=0/tenant_id=t/f''"
  "is_edge_segment_key ''t'' ''bronze-v2/shard=0/tenant_id=t/g''"
  by (simp_all add: is_edge_segment_key_def strip_prefix_def is_digit_def is_control_def)

lemma demo_version: "edge_log_seq_of_version ''edge-log-v1:2'' = Some 2"
  by (simp add: edge_log_seq_of_version_def EDGE_LOG_VERSION_PREFIX_def strip_prefix_def parse_u64_def
      parse_digits_def is_digit_def digit_val_def MAX_SAFE_INTEGER_def u64_max_def)

lemma demo_segments:
  "edge_range_segments demo_range [demo_source len] =
     Inr [(1, ''bronze-v2/shard=0/tenant_id=t/g'', replicate 64 CHR ''b'', 5),
          (2, ''bronze-v2/shard=0/tenant_id=t/f'', replicate 64 CHR ''a'', len)]"
  by (simp add: edge_range_segments_def demo_range_def demo_source_def demo_skipped_def
      source_segment_def skipped_segment_def demo_version demo_hex)

lemma demo_range_valid: "edge_range_validate demo_sha demo_range ''t'' [demo_source len] = Inr ()"
proof -
  have "checked_sum [4] = Some 4" "checked_sum [3] = Some 3" "checked_add_u64 4 3 = Some 7"
    "checked_add_u64 1 2 = Some 3" "skipped_rows_ok demo_skipped"
    by (simp_all add: int_simps u64_max_def skipped_rows_ok_def demo_skipped_def)
  moreover have "last_source_ok demo_range [demo_source len]"
    by (simp add: last_source_ok_def demo_source_def demo_version demo_range_def map_filter_def)
  moreover have "chain_over demo_sha (replicate 64 CHR ''a'') [(1, k, h, l), (2, k', h', l')]
      = replicate 64 CHR ''a''" for k h l k' h' l'
    by (simp add: edge_log_next_chain_def demo_sha_def)
  ultimately show ?thesis
    unfolding edge_range_validate_def demo_segments
    by (simp add: demo_range_def demo_source_def demo_skipped_def demo_hex demo_keys MAX_SAFE_INTEGER_def)
qed

lemma demo_ranges:
  "edge_ranges_from demo_sha ''t'' 0 (edge_log_genesis demo_sha ''t'') [(demo_range, [demo_source len])]"
  using demo_range_valid [of len]
  by (simp add: follows_point_def edge_log_genesis_def demo_sha_def demo_range_def int_simps u64_max_def)

theorem edge_log_contiguous_witness:
  "map fst (all_segments [(demo_range, [demo_source 9])]) = [1, 2]"
  using edge_log_contiguous [OF demo_ranges [of 9]] by (simp add: demo_range_def upt_rec)


end
