(* ===== verification/Canonical_Json.thy ===== *)
theory Canonical_Json
  imports Edge_Log
begin

text \<open>
  Canonical JSON of signed records (\<open>parts/provenance.rs\<close>: \<open>write_canonical_json\<close>,
  \<open>canonical_json_bytes\<close>, \<open>u64_decimal\<close>). The value type is \<open>serde_json::Value\<close>; how serde_json
  spells a scalar is the argument \<open>scalar\<close>. Canonical bytes do not depend on member order and,
  for a self-delimiting scalar spelling, determine the value.
\<close>

section \<open>Values and writer\<close>

datatype json =
    JNull
  | JBool bool
  | JInt int
  | JFloat string
  | JStr string
  | JArr "json list"
  | JObj "(string \<times> json) list"

fun comma_sep :: "string list \<Rightarrow> string" where
  "comma_sep [] = []"
| "comma_sep [x] = x"
| "comma_sep (x # y # xs) = x @ '','' @ comma_sep (y # xs)"

lemma json_member_size: "(k, v) \<in> set m \<Longrightarrow> size v < Suc (size_list (size_prod (\<lambda>_. 0) size) m)"
  by (induction m) auto

text \<open>Members are written and then sorted by key bytes; sorting first gives the same text, since the
  keys of a map are distinct (lemma \<open>write_object\<close>).\<close>

function (sequential) write_canonical_json :: "(json \<Rightarrow> string) \<Rightarrow> json \<Rightarrow> string" where
  "write_canonical_json scalar (JObj m) =
     ''{'' @ comma_sep (map (\<lambda>(k, text). scalar (JStr k) @ '':'' @ text)
       (sort_key fst (map (\<lambda>(k, v). (k, write_canonical_json scalar v)) m))) @ ''}''"
| "write_canonical_json scalar (JArr values) =
     ''['' @ comma_sep (map (write_canonical_json scalar) values) @ '']''"
| "write_canonical_json scalar v = scalar v"
  by pat_completeness auto
termination
  by (relation "measure (size \<circ> snd)")
    (auto simp: less_Suc_eq_le dest: json_member_size size_list_estimation' [of _ _ _ size])

text \<open>\<open>i64::abs\<close> without overflow checks: the most negative value is its own negation.\<close>

definition abs_i64 :: "int \<Rightarrow> int" where
  "abs_i64 v = (if v = i64_min then i64_min else \<bar>v\<bar>)"

definition safe_number :: "int \<Rightarrow> bool" where
  "safe_number n \<longleftrightarrow>
     (i64_min \<le> n \<and> n \<le> i64_max \<and> abs_i64 n \<le> int MAX_SAFE_INTEGER)
     \<or> (0 \<le> n \<and> n \<le> int u64_max \<and> n \<le> int MAX_SAFE_INTEGER)"

function (sequential) json_check :: "json \<Rightarrow> bool" where
  "json_check (JInt n) \<longleftrightarrow> safe_number n"
| "json_check (JFloat _) \<longleftrightarrow> False"
| "json_check (JArr values) \<longleftrightarrow> list_all json_check values"
| "json_check (JObj m) \<longleftrightarrow> list_all (\<lambda>(_, v). json_check v) m"
| "json_check _ \<longleftrightarrow> True"
  by pat_completeness auto
termination
  by (relation "measure size")
    (auto simp: less_Suc_eq_le dest: json_member_size size_list_estimation' [of _ _ _ size])

definition canonical_json_bytes :: "(json \<Rightarrow> string) \<Rightarrow> json \<Rightarrow> string res" where
  "canonical_json_bytes scalar value =
     bind_res (ensure (json_check value) ''canonical JSON allows only safe integers'')
       (\<lambda>_. Inr (write_canonical_json scalar value))"

definition u64_decimal_parse :: "string \<Rightarrow> nat option" where
  "u64_decimal_parse text =
     (if text \<noteq> [] \<and> length text \<le> 20 \<and> list_all is_digit text
         \<and> (text = ''0'' \<or> hd text \<noteq> CHR ''0'')
      then parse_u64 text else None)"

section \<open>Member order does not matter\<close>

lemma insort_key_map_snd:
  "insort_key fst (k, f v) (map (\<lambda>(k, v). (k, f v)) m) = map (\<lambda>(k, v). (k, f v)) (insort_key fst (k, v) m)"
  by (induction m) auto

lemma sort_key_map_snd:
  "sort_key fst (map (\<lambda>(k, v). (k, f v)) m) = map (\<lambda>(k, v). (k, f v)) (sort_key fst m)"
  by (induction m) (auto simp: sort_key_def insort_key_map_snd)

lemma write_object:
  "write_canonical_json scalar (JObj m) =
     ''{'' @ comma_sep (map (\<lambda>(k, v). scalar (JStr k) @ '':'' @ write_canonical_json scalar v) (sort_key fst m)) @ ''}''"
  unfolding write_canonical_json.simps sort_key_map_snd by (simp add: comp_def case_prod_unfold)

declare write_canonical_json.simps(1) [simp del]

text \<open>The value with the members of every object in key order.\<close>

function (sequential) json_norm :: "json \<Rightarrow> json" where
  "json_norm (JObj m) = JObj (sort_key fst (map (\<lambda>(k, v). (k, json_norm v)) m))"
| "json_norm (JArr values) = JArr (map json_norm values)"
| "json_norm v = v"
  by pat_completeness auto
termination
  by (relation "measure size")
    (auto simp: less_Suc_eq_le dest: json_member_size size_list_estimation' [of _ _ _ size])

section \<open>Canonical bytes determine the value\<close>

fun is_scalar :: "json \<Rightarrow> bool" where
  "is_scalar (JArr _) \<longleftrightarrow> False"
| "is_scalar (JObj _) \<longleftrightarrow> False"
| "is_scalar _ \<longleftrightarrow> True"

definition delimited :: "string \<Rightarrow> bool" where
  "delimited r \<longleftrightarrow> r = [] \<or> hd r \<in> set '',:]}''"

text \<open>What is used of serde_json: the spelling of a scalar is not empty, does not start with a
  bracket, and can be read back in front of a structural character.\<close>

definition self_delimiting :: "(json \<Rightarrow> string) \<Rightarrow> bool" where
  "self_delimiting scalar \<longleftrightarrow>
     (\<forall>s. is_scalar s \<longrightarrow> scalar s \<noteq> [] \<and> hd (scalar s) \<notin> set ''[]{}'')
     \<and> (\<forall>s t r r'. is_scalar s \<and> is_scalar t \<and> delimited r \<and> delimited r'
          \<and> scalar s @ r = scalar t @ r' \<longrightarrow> s = t \<and> r = r')"

lemma write_scalar [simp]: "is_scalar v \<Longrightarrow> write_canonical_json scalar v = scalar v"
  by (cases v) auto

lemma norm_scalar [simp]: "is_scalar v \<Longrightarrow> json_norm v = v"
  by (cases v) auto

lemma scalar_readback:
  assumes "self_delimiting scalar" "is_scalar s" "is_scalar t" "delimited r" "delimited r'"
    and "scalar s @ r = scalar t @ r'"
  shows "s = t \<and> r = r'"
  using assms unfolding self_delimiting_def by blast

lemma scalar_start:
  assumes "self_delimiting scalar" "is_scalar s"
  obtains c cs where "scalar s = c # cs" "c \<notin> set ''[]{}''"
proof -
  have "scalar s \<noteq> []" "hd (scalar s) \<notin> set ''[]{}''"
    using assms unfolding self_delimiting_def by blast+
  then show ?thesis using that by (cases "scalar s") simp_all
qed

lemma write_start:
  assumes "self_delimiting scalar"
  obtains c cs where "write_canonical_json scalar v = c # cs" "c \<notin> set '']}''"
proof (cases "is_scalar v")
  case True
  show ?thesis by (rule scalar_start [OF assms True]) (use True that in auto)
next
  case False
  then show ?thesis using that by (cases v) (auto simp: write_object)
qed

text \<open>One written list: items that read back and cannot start with the closing character.\<close>

lemma comma_sep_readback:
  assumes "comma_sep (map w xs) @ close # r = comma_sep (map w ys) @ close # r'"
    and "\<And>x y s s'. x \<in> set xs \<Longrightarrow> delimited s \<Longrightarrow> delimited s' \<Longrightarrow> w x @ s = w y @ s'
           \<Longrightarrow> f x = f y \<and> s = s'"
    and "\<And>x. \<exists>c cs. w x = c # cs \<and> c \<noteq> close"
    and "close \<in> set '']}''"
  shows "map f xs = map f ys \<and> r = r'"
  using assms(1,2)
proof (induction xs arbitrary: ys)
  case Nil
  show ?case
  proof (cases ys)
    case Nil
    then show ?thesis using Nil.prems by simp
  next
    case (Cons y ys')
    obtain c cs where "w y = c # cs" "c \<noteq> close" using assms(3) by blast
    then show ?thesis using Nil.prems Cons by (cases ys') auto
  qed
next
  case (Cons x xs)
  obtain c cs where x: "w x = c # cs" "c \<noteq> close" using assms(3) by blast
  then obtain y ys' where ys: "ys = y # ys'"
    using Cons.prems(1) by (cases ys; cases xs) auto
  define t where "t zs q = (case zs of [] \<Rightarrow> close # q | _ \<Rightarrow> CHR '','' # comma_sep (map w zs) @ close # q)" for zs q
  have step: "comma_sep (map w (z # zs)) @ close # q = w z @ t zs q" for z zs q
    by (cases zs) (simp_all add: t_def)
  have d: "delimited (t zs q)" for zs q
    using assms(4) by (auto simp: t_def delimited_def split: list.splits)
  have "w x @ t xs r = w y @ t ys' r'"
    using Cons.prems(1) unfolding ys step .
  then have xy: "f x = f y" "t xs r = t ys' r'"
    using Cons.prems(2) [of x "t xs r" "t ys' r'" y] d by auto
  have "map f xs = map f ys' \<and> r = r'"
  proof (cases "xs = [] \<or> ys' = []")
    case True
    then show ?thesis using xy(2) assms(4) by (auto simp: t_def split: list.splits)
  next
    case False
    then have "comma_sep (map w xs) @ close # r = comma_sep (map w ys') @ close # r'"
      using xy(2) by (auto simp: t_def split: list.splits)
    then show ?thesis by (rule Cons.IH) (rule Cons.prems(2), auto)
  qed
  then show ?case using xy ys by simp
qed

lemma norm_object:
  "json_norm (JObj m) = JObj (map (\<lambda>(k, v). (k, json_norm v)) (sort_key fst m))"
  by (simp add: sort_key_map_snd)

lemma bracket_not_scalar:
  assumes "self_delimiting scalar" "c # xs = scalar b @ r" "c \<in> set ''[]{}''"
  shows "\<not> is_scalar b"
proof
  assume "is_scalar b"
  then show False using assms by (auto elim!: scalar_start [of scalar b])
qed

lemma scalar_readback_json:
  assumes "self_delimiting scalar" "is_scalar a" "delimited r" "delimited r'"
    and "write_canonical_json scalar a @ r = write_canonical_json scalar b @ r'"
  shows "json_norm a = json_norm b \<and> r = r'"
proof (cases "is_scalar b")
  case True
  then show ?thesis using scalar_readback [OF assms(1,2) True assms(3,4)] assms(2,5) by simp
next
  case False
  then obtain c xs where "c # xs = scalar a @ r" "c \<in> set ''[]{}''"
    using assms(2,5) by (cases b) (auto simp: write_object)
  then show ?thesis using bracket_not_scalar [OF assms(1)] assms(2) by blast
qed

lemma write_readback:
  assumes "self_delimiting scalar" "delimited r" "delimited r'"
    and "write_canonical_json scalar a @ r = write_canonical_json scalar b @ r'"
  shows "json_norm a = json_norm b \<and> r = r'"
  using assms(2-4)
proof (induction a arbitrary: b r r')
  case (JArr xs)
  then have "\<not> is_scalar b" using bracket_not_scalar [OF assms(1), of "CHR ''[''" _ b r'] by (cases b) auto
  then show ?case
  proof (cases b)
    case (JArr ys)
    have "map json_norm xs = map json_norm ys \<and> r = r'"
    proof (rule comma_sep_readback [of "write_canonical_json scalar" xs "CHR '']''" r ys r'])
      show "\<exists>c cs. write_canonical_json scalar x = c # cs \<and> c \<noteq> CHR '']''" for x
        by (rule write_start [OF assms(1), of x]) auto
    qed (use JArr JArr.IH JArr.prems in auto)
    then show ?thesis using JArr by simp
  next
    case (JObj m)
    then show ?thesis using JArr.prems by (simp add: write_object)
  qed auto
next
  case (JObj xs)
  then have "\<not> is_scalar b"
    using bracket_not_scalar [OF assms(1), of "CHR ''{''" _ b r'] by (cases b) (auto simp: write_object)
  then show ?case
  proof (cases b)
    case (JObj ys)
    let ?w = "\<lambda>(k, v). scalar (JStr k) @ '':'' @ write_canonical_json scalar v"
    let ?f = "\<lambda>(k, v). (k, json_norm v)"
    have "map ?f (sort_key fst xs) = map ?f (sort_key fst ys) \<and> r = r'"
    proof (rule comma_sep_readback [of ?w "sort_key fst xs" "CHR ''}''" r "sort_key fst ys" r'])
      show "\<exists>c cs. ?w x = c # cs \<and> c \<noteq> CHR ''}''" for x
        by (rule scalar_start [OF assms(1), of "JStr (fst x)"]) (auto simp: case_prod_unfold)
      fix x y s s'
      assume x: "x \<in> set (sort_key fst xs)" and d: "delimited s" "delimited s'" and e: "?w x @ s = ?w y @ s'"
      obtain k v k' v' where kv: "x = (k, v)" "y = (k', v')" by (cases x; cases y)
      have "k = k' \<and> write_canonical_json scalar v @ s = write_canonical_json scalar v' @ s'"
        using scalar_readback [OF assms(1), of "JStr k" "JStr k'" "CHR '':'' # write_canonical_json scalar v @ s"
            "CHR '':'' # write_canonical_json scalar v' @ s'"] e kv
        by (simp add: delimited_def)
      then show "?f x = ?f y \<and> s = s'"
        using JObj.IH [of "(k, v)" v s s' v'] x kv d by auto
    qed (use JObj JObj.prems in \<open>auto simp: write_object\<close>)
    then show ?thesis using JObj by (simp add: norm_object del: json_norm.simps)
  next
    case (JArr m)
    then show ?thesis using JObj.prems by (simp add: write_object)
  qed auto
qed (rule scalar_readback_json [OF assms(1)]; simp)+

lemma write_norm: "write_canonical_json scalar (json_norm v) = write_canonical_json scalar v"
proof (induction v)
  case (JArr xs)
  then show ?case by (simp cong: map_cong)
next
  case (JObj m)
  let ?n = "\<lambda>(k, v). (k, json_norm v)"
  have "sort_key fst (map ?n (sort_key fst m)) = map ?n (sort_key fst m)"
    by (simp add: sort_key_map_snd sort_key_id_if_sorted)
  moreover have "write_canonical_json scalar (json_norm v) = write_canonical_json scalar v"
    if "(k, v) \<in> set m" for k v
    using JObj [of "(k, v)" v] that by simp
  ultimately show ?case
    unfolding norm_object write_object by (auto intro!: arg_cong [of _ _ comma_sep])
qed auto

text \<open>
  C39: canonical bytes are a faithful spelling of a value. Two values have the same canonical bytes
  exactly when they are equal up to the order of object members, at every nesting level; so a
  signature over the bytes is a signature over the value. The hypothesis is what serde_json does
  with scalars (they read back in front of a structural character).
\<close>

theorem canonical_json_faithful:
  assumes "self_delimiting scalar"
  shows "write_canonical_json scalar a = write_canonical_json scalar b \<longleftrightarrow> json_norm a = json_norm b"
proof
  assume "write_canonical_json scalar a = write_canonical_json scalar b"
  then show "json_norm a = json_norm b"
    using write_readback [OF assms, of "[]" "[]" a b] by (simp add: delimited_def)
next
  assume "json_norm a = json_norm b"
  then show "write_canonical_json scalar a = write_canonical_json scalar b"
    by (metis write_norm)
qed

text \<open>A concrete spelling: structural characters inside strings are escaped.\<close>

definition demo_esc :: "char \<Rightarrow> string" where
  "demo_esc c =
     (if c = CHR '','' then ''0a'' else if c = CHR '':'' then ''0b''
      else if c = CHR '']'' then ''0c'' else if c = CHR ''}'' then ''0d'' else [CHR ''1'', c])"

fun demo_scalar :: "json \<Rightarrow> string" where
  "demo_scalar JNull = ''n''"
| "demo_scalar (JBool b) = (if b then ''t'' else ''f'')"
| "demo_scalar (JInt n) = (if n < 0 then ''-'' else ''+'') @ dec (nat \<bar>n\<bar>)"
| "demo_scalar (JFloat s) = CHR ''x'' # concat (map demo_esc s)"
| "demo_scalar (JStr s) = CHR ''s'' # concat (map demo_esc s)"
| "demo_scalar _ = ''?''"

lemma demo_esc_inj: "demo_esc c @ r = demo_esc d @ r' \<Longrightarrow> c = d \<and> r = r'"
  by (auto simp: demo_esc_def split: if_splits)

lemma demo_escs_inj: "concat (map demo_esc s) = concat (map demo_esc t) \<Longrightarrow> s = t"
proof (induction s arbitrary: t)
  case Nil
  then show ?case by (cases t) (auto simp: demo_esc_def split: if_splits)
next
  case (Cons c s)
  then obtain d t' where "t = d # t'" by (cases t) (auto simp: demo_esc_def split: if_splits)
  then show ?case using Cons demo_esc_inj [of c _ d] by auto
qed

lemma demo_scalar_inj: "is_scalar s \<Longrightarrow> is_scalar t \<Longrightarrow> demo_scalar s = demo_scalar t \<Longrightarrow> s = t"
  by (cases s; cases t) (auto dest: dec_inj demo_escs_inj split: if_splits)

lemma demo_scalar_plain: "is_scalar s \<Longrightarrow> c \<in> set (demo_scalar s) \<Longrightarrow> c \<notin> set '',:]}''"
  using dec_digits
  by (cases s) (fastforce simp: demo_esc_def list_all_iff is_digit_def split: if_splits)+

lemma demo_self_delimiting: "self_delimiting demo_scalar"
proof -
  have "s = t \<and> r = r'" if "is_scalar s" "is_scalar t" "delimited r" "delimited r'"
    "demo_scalar s @ r = demo_scalar t @ r'" for s t r r'
  proof -
    let ?P = "\<lambda>c. c \<notin> set '',:]}''"
    have t: "takeWhile ?P (demo_scalar u @ q) = demo_scalar u" if "is_scalar u" "delimited q" for u q
      using that by (cases q) (auto simp: takeWhile_append delimited_def dest: demo_scalar_plain)
    have "demo_scalar s = demo_scalar t" using t [of s r] t [of t r'] that by simp
    then show ?thesis using that demo_scalar_inj by auto
  qed
  moreover have "demo_scalar s \<noteq> [] \<and> hd (demo_scalar s) \<notin> set ''[]{}''" if "is_scalar s" for s
    using that by (cases s) auto
  ultimately show ?thesis unfolding self_delimiting_def by blast
qed

theorem canonical_json_faithful_witness:
  "write_canonical_json demo_scalar (JObj [(''b'', JInt 2), (''a'', JArr [JNull])])
     = write_canonical_json demo_scalar (JObj [(''a'', JArr [JNull]), (''b'', JInt 2)])"
  unfolding canonical_json_faithful [OF demo_self_delimiting] by simp

text \<open>
  The number check admits more than the documented range. Every integer of magnitude at most
  \<open>2^53 - 1\<close> passes, every other \<open>i64\<close> or \<open>u64\<close> integer is refused, with one exception: the most
  negative \<open>i64\<close>, whose \<open>abs\<close> wraps to itself, passes as a safe integer.
\<close>

lemma safe_number_iff:
  "safe_number n \<longleftrightarrow> \<bar>n\<bar> \<le> 9007199254740991 \<or> n = i64_min"
  by (auto simp: safe_number_def abs_i64_def int_bounds MAX_SAFE_INTEGER_def)

section \<open>Canonical decimal strings\<close>

lemma digits_val_pos:
  assumes "list_all is_digit s" "s \<noteq> []" "hd s \<noteq> CHR ''0''"
  shows "0 < digits_val 0 s"
proof -
  obtain c cs where s: "s = c # cs" using assms by (cases s) auto
  have "(of_char c :: nat) \<noteq> of_char (CHR ''0'')" using assms(3) s by (metis char_of_char list.sel(1))
  then have "0 < digit_val c" using assms(1) s by (auto simp: is_digit_def digit_val_def)
  then show ?thesis using digits_val_shift [of "digit_val c" cs] s by simp
qed

lemma digit_char_val: "is_digit c \<Longrightarrow> digit_char (digit_val c) = c \<and> digit_val c < 10"
  by (auto simp: is_digit_def digit_char_def digit_val_def)

lemma dec_digits_val:
  "list_all is_digit s \<Longrightarrow> s \<noteq> [] \<Longrightarrow> s = ''0'' \<or> hd s \<noteq> CHR ''0'' \<Longrightarrow> dec (digits_val 0 s) = s"
proof (induction s rule: rev_induct)
  case Nil
  then show ?case by simp
next
  case (snoc c t)
  show ?case
  proof (cases "t = []")
    case True
    then show ?thesis using snoc.prems digit_char_val [of c] by (simp add: dec.simps)
  next
    case False
    have pos: "0 < digits_val 0 t" using snoc.prems False by (intro digits_val_pos) auto
    have c: "digit_char (digit_val c) = c" "digit_val c < 10" using snoc.prems digit_char_val by auto
    have "dec (digits_val 0 t) = t" using snoc False by auto
    then show ?thesis
      using pos c by (simp add: digits_val_append dec.simps [of "10 * digits_val 0 t + digit_val c"])
  qed
qed

lemma digit_char_0: "digit_char 0 = CHR ''0''"
  by code_simp

lemma hd_dec: "0 < n \<Longrightarrow> hd (dec n) \<noteq> CHR ''0''"
proof (induction n rule: less_induct)
  case (less n)
  show ?case
  proof (cases "n < 10")
    case True
    moreover note digit_char_0
    ultimately have "digit_char n \<noteq> CHR ''0''"
      using less.prems by (metis digit_val_digit_char less_irrefl zero_less_numeral)
    then show ?thesis using True by (simp add: dec.simps)
  next
    case False
    then show ?thesis using less.IH [of "n div 10"] by (simp add: dec.simps [of n])
  qed
qed

text \<open>
  The strict decimal reader accepts exactly the decimal spelling of a \<open>u64\<close>: parsing inverts
  printing, and no second spelling of the same identifier is accepted.
\<close>

lemma u64_decimal_canonical:
  "u64_decimal_parse s = Some n \<longleftrightarrow> s = dec n \<and> n \<le> u64_max"
proof
  assume "u64_decimal_parse s = Some n"
  then have s: "s \<noteq> []" "list_all is_digit s" "s = ''0'' \<or> hd s \<noteq> CHR ''0''" "parse_u64 s = Some n"
    by (auto simp: u64_decimal_parse_def split: if_splits)
  obtain c cs where "s = c # cs" using s(1) by (cases s) auto
  then have "parse_u64 s = (if digits_val 0 s \<le> u64_max then Some (digits_val 0 s) else None)"
    using s(2) by (auto simp: parse_u64_def parse_digits_def is_digit_def)
  then show "s = dec n \<and> n \<le> u64_max"
    using s dec_digits_val [of s] by (auto split: if_splits)
next
  assume n: "s = dec n \<and> n \<le> u64_max"
  have d: "list_all is_digit (dec n)" by (rule dec_digits)
  obtain c cs where c: "dec n = c # cs" using dec_not_Nil [of n] by (cases "dec n") auto
  then have "c \<noteq> CHR ''+''" using d by (auto simp: is_digit_def)
  then have "parse_u64 (dec n) = Some n"
    using c d n digits_val_dec [of n] by (simp add: parse_u64_def parse_digits_def)
  moreover have "length (dec n) \<le> 20"
    using n by (intro length_dec_bound u64_lt_pow20) auto
  moreover have "dec n = ''0'' \<or> hd (dec n) \<noteq> CHR ''0''"
    using hd_dec [of n] by (cases "n = 0") (simp_all add: dec.simps digit_char_0)
  ultimately show "u64_decimal_parse s = Some n"
    using n d by (simp add: u64_decimal_parse_def)
qed

end
