(* ===== verification/Provenance.thy ===== *)
theory Provenance
  imports Canonical_Json Merkle
begin

text \<open>
  The signed per-part provenance record (\<open>parts/provenance.rs\<close>, section "Record" and "Signature"):
  its data, the structural validation every reader and writer applies, data keys, and assembling
  and verifying the signed envelope. The crates the code calls are the fields of \<open>crates\<close>.
\<close>

section \<open>Data\<close>

record hour_digest =
  hg_event_hour :: int
  hg_rows :: nat
  hg_min_time_us :: int
  hg_max_time_us :: int
  hg_merkle_root :: string

record file_digest =
  fd_name :: string
  fd_bytes :: nat
  fd_sha256 :: string

record data_file_digest =
  df_name :: string
  df_bytes :: nat
  df_sha256 :: string
  df_rows :: nat
  df_row_groups :: nat
  df_min_time_us :: int
  df_max_time_us :: int
  df_log_sources :: "string list option"
  df_uid_blooms :: "file_digest option"
  df_entity_blooms :: "file_digest option"
  df_parquet_ranges :: "file_digest option"
  df_entity_locators :: "file_digest option"
  df_class_id :: "int option"
  df_tokens :: file_digest

datatype partial_kind = Rollup | Prevalence | EntityRanges | Risk

record partial_digest =
  pd_kind :: partial_kind
  pd_name :: string
  pd_bytes :: nat
  pd_sha256 :: string
  pd_rows :: nat

record part_files =
  pf_data :: "data_file_digest list"
  pf_partials :: "partial_digest list"

record input_part =
  ip_part_id :: part_id
  ip_level :: level
  ip_provenance_sha256 :: string
  ip_rows :: nat
  ip_merkle_root :: string

record adopted_object =
  ao_key :: string
  ao_bytes :: nat
  ao_sha256 :: string
  ao_rows :: nat
  ao_stamp_sha256 :: string

record adoption_anchor =
  aa_generation_id :: string
  aa_snapshot_id :: nat
  aa_bundle_identity_sha256 :: string
  aa_object_stamp_manifest_sha256 :: string
  aa_bundle_manifest_key :: string
  aa_bundle_manifest_sha256 :: string
  aa_signer_key_id :: string

datatype part_inputs =
    Sources "source_object list" "edge_log_range option"
  | Parts "input_part list"
  | Adopted adoption_anchor "adopted_object list"

record admission =
  ad_ocsf_version :: string
  ad_admission_contract :: string
  ad_feed_pins :: "(string, string option) bmap"

datatype dedup_window = ExactWindow | ExactAndParts

record dedup_stats =
  ds_rows_in :: nat
  ds_duplicates_dropped :: nat
  ds_window :: dedup_window

record writer_info =
  wi_role :: string
  wi_build :: string

record provenance_record =
  pr_request_hours :: "request_hours option"
  pr_format :: string
  pr_signer_key_id :: string
  pr_tenant_id :: string
  pr_part_id :: part_id
  pr_level :: level
  pr_created_at_ms :: int
  pr_event_hour :: int
  pr_event_day :: "int option"
  pr_rows :: nat
  pr_min_time_us :: int
  pr_max_time_us :: int
  pr_schema_fingerprint :: string
  pr_merkle_root :: string
  pr_hours :: "hour_digest list"
  pr_files :: part_files
  pr_inputs :: part_inputs
  pr_admission :: "admission option"
  pr_lowercased_at_rest :: "string list"
  pr_dedup :: dedup_stats
  pr_writer :: writer_info

definition PROVENANCE_FORMAT :: string where "PROVENANCE_FORMAT = ''nano.part.provenance.v1''"
definition ADMISSION_CONTRACT :: string where "ADMISSION_CONTRACT = ''nano-bronze-admission-v2''"
definition MAX_PROVENANCE_BYTES :: nat where "MAX_PROVENANCE_BYTES = 1024 * 1024"
definition MAX_MANIFEST_BYTES :: nat where "MAX_MANIFEST_BYTES = 16 * 1024 * 1024"

definition LOWERCASED_AT_REST :: "string list" where
  "LOWERCASED_AT_REST =
     [''dst_endpoint.hostname'', ''dst_endpoint.ip'', ''dst_endpoint.mac'', ''metadata.log_source'',
      ''src_endpoint.hostname'', ''src_endpoint.ip'', ''src_endpoint.mac'']"

text \<open>The crates a record passes through: uuid, chrono, sha2 with hex, serde_json (value of a record,
  spelling of a scalar, parser of a record), base64 and ed25519 (verification of a message).\<close>

record crates =
  uuid_canon :: "string \<Rightarrow> string option"
  from_timestamp :: "int \<Rightarrow> civil option"
  sha_hex :: "string \<Rightarrow> string"
  scalar_text :: "json \<Rightarrow> string"
  record_value :: "provenance_record \<Rightarrow> json"
  record_parse :: "string \<Rightarrow> provenance_record option"
  b64_encode :: "string \<Rightarrow> string"
  b64_decode :: "string \<Rightarrow> string option"
  signature_bytes_ok :: "string \<Rightarrow> bool"
  verify_strict :: "string \<Rightarrow> string \<Rightarrow> string \<Rightarrow> bool"

section \<open>Files of a part\<close>

definition opt_file :: "file_digest option \<Rightarrow> (string \<times> string \<times> nat) list" where
  "opt_file f = (case f of None \<Rightarrow> [] | Some f \<Rightarrow> [(fd_name f, fd_sha256 f, fd_bytes f)])"

definition data_file_all :: "data_file_digest \<Rightarrow> (string \<times> string \<times> nat) list" where
  "data_file_all d =
     [(df_name d, df_sha256 d, df_bytes d),
      (fd_name (df_tokens d), fd_sha256 (df_tokens d), fd_bytes (df_tokens d))]
     @ opt_file (df_parquet_ranges d) @ opt_file (df_entity_locators d)
     @ opt_file (df_entity_blooms d) @ opt_file (df_uid_blooms d)"

definition files_all :: "part_files \<Rightarrow> (string \<times> string \<times> nat) list" where
  "files_all self =
     concat (map data_file_all (pf_data self))
     @ map (\<lambda>p. (pd_name p, pd_sha256 p, pd_bytes p)) (pf_partials self)"

definition files_row_groups :: "part_files \<Rightarrow> nat" where
  "files_row_groups self = sum_u32 (map df_row_groups (pf_data self))"

definition files_data_bytes :: "part_files \<Rightarrow> nat" where
  "files_data_bytes self = sum_u64 (map df_bytes (pf_data self))"

definition named :: "file_digest option \<Rightarrow> string \<Rightarrow> bool" where
  "named f name \<longleftrightarrow> (case f of None \<Rightarrow> True | Some f \<Rightarrow> fd_name f = name)"

definition sidecar_name :: "string \<Rightarrow> nat \<Rightarrow> string" where
  "sidecar_name stem index = stem @ ''-'' @ pad0 5 (dec index) @ ''.json''"

definition log_sources_ok :: "string list option \<Rightarrow> bool" where
  "log_sources_ok sources \<longleftrightarrow>
     (case sources of None \<Rightarrow> True | Some s \<Rightarrow> s \<noteq> [] \<and> pairwise_ok (<) s)"

text \<open>The body of the loop over data files; \<open>prev\<close> is the file before, if any.\<close>

definition data_file_check ::
  "string option \<Rightarrow> data_file_digest option \<Rightarrow> nat \<Rightarrow> data_file_digest \<Rightarrow> unit res" where
  "data_file_check adopted_key prev index data =
     bind_res (ensure (df_name data = (case adopted_key of Some key \<Rightarrow> key | None \<Rightarrow> data_file_name index)
         \<and> fd_name (df_tokens data) = tokens_file_name index)
       ''part data files are not named in order'') (\<lambda>_.
     bind_res (ensure (named (df_entity_locators data) (sidecar_name ''locators'' index))
       ''part entity locator is not named in order'') (\<lambda>_.
     bind_res (ensure (named (df_entity_blooms data) (sidecar_name ''entities'' index))
       ''part entity sidecar is not named in order'') (\<lambda>_.
     bind_res (ensure (named (df_uid_blooms data) (sidecar_name ''uids'' index))
       ''part UID sidecar is not named in order'') (\<lambda>_.
     bind_res (ensure (named (df_parquet_ranges data) (sidecar_name ''ranges'' index)
         \<and> (case df_parquet_ranges data of None \<Rightarrow> True | Some r \<Rightarrow> fd_bytes r \<le> MAX_MANIFEST_BYTES))
       ''invalid Parquet range manifest'') (\<lambda>_.
     bind_res (ensure (\<not> (df_rows data = 0 \<or> df_row_groups data = 0 \<or> df_max_time_us data < df_min_time_us data))
       ''part data file bounds are invalid'') (\<lambda>_.
     bind_res (ensure (\<not> (df_class_id data \<noteq> None \<and> df_log_sources data = None))
       ''class family requires an exact source family'') (\<lambda>_.
     bind_res (ensure (log_sources_ok (df_log_sources data))
       ''part data file log sources are invalid'') (\<lambda>_.
       ensure (case prev of None \<Rightarrow> True
               | Some p \<Rightarrow> \<not> (df_log_sources p = df_log_sources data \<and> df_class_id p = df_class_id data
                              \<and> df_min_time_us data < df_max_time_us p))
         ''part data files are not in time order''))))))))"

fun data_files_check ::
  "string option \<Rightarrow> data_file_digest option \<Rightarrow> nat \<Rightarrow> nat \<Rightarrow> data_file_digest list \<Rightarrow> nat res" where
  "data_files_check adopted_key prev index acc [] = Inr acc"
| "data_files_check adopted_key prev index acc (data # rest) =
     bind_res (data_file_check adopted_key prev index data) (\<lambda>_.
     bind_res (ok_or (checked_add_u64 acc (df_rows data)) ''part rows overflow'') (\<lambda>acc.
       data_files_check adopted_key (Some data) (index + 1) acc rest))"

definition part_files_validate :: "part_files \<Rightarrow> nat \<Rightarrow> string option \<Rightarrow> unit res" where
  "part_files_validate self rows adopted_key =
     bind_res (ensure (\<not> (pf_data self = [] \<or> MAX_DATA_FILES < length (pf_data self)))
       ''part data file count is out of bounds'') (\<lambda>_.
     bind_res (ensure (\<not> (adopted_key \<noteq> None \<and> length (pf_data self) \<noteq> 1))
       ''an adopted part has exactly one data file'') (\<lambda>_.
     bind_res (data_files_check adopted_key None 0 0 (pf_data self)) (\<lambda>acc.
     bind_res (ensure (acc = rows) ''part data file rows do not sum to the part rows'') (\<lambda>_.
       res_all (\<lambda>(_, sha, bytes).
           ensure (is_sha256_hex sha \<and> bytes \<noteq> 0 \<and> bytes \<le> MAX_OBJECT_BYTES)
             ''part file digest or size is invalid'')
         (files_all self)))))"

section \<open>Record validation\<close>

fun contains_sub :: "string \<Rightarrow> string \<Rightarrow> bool" where
  "contains_sub sub [] \<longleftrightarrow> sub = []"
| "contains_sub sub (c # cs) \<longleftrightarrow> starts_with sub (c # cs) \<or> contains_sub sub cs"

definition is_adopted_object_key :: "string \<Rightarrow> bool" where
  "is_adopted_object_key key \<longleftrightarrow>
     key \<noteq> [] \<and> length key \<le> 1024 \<and> \<not> contains_sub ''://'' key \<and> hd key \<noteq> CHR ''/''
     \<and> \<not> any_control key
     \<and> list_all (\<lambda>segment. segment \<noteq> [] \<and> segment \<noteq> ''.'' \<and> segment \<noteq> ''..'') (split_on CHR ''/'' key)
     \<and> take 2 (split_on CHR ''/'' key) \<noteq> [''lake'', ''parts'']"

definition valid_key_id :: "string \<Rightarrow> bool" where
  "valid_key_id value \<longleftrightarrow>
     8 \<le> length value \<and> length value \<le> 128
     \<and> list_all (\<lambda>b. is_ascii_alnum b \<or> b \<in> set ''._:-'') value"

definition l0_class_family :: "provenance_record \<Rightarrow> data_file_digest \<Rightarrow> bool" where
  "l0_class_family self file \<longleftrightarrow> pr_level self = L0 \<and> df_class_id file \<noteq> None
     \<and> (case df_log_sources file of None \<Rightarrow> False | Some s \<Rightarrow> length s = 1)"

definition hour_binding_check :: "provenance_record \<Rightarrow> unit res" where
  "hour_binding_check self =
     (if pr_level self = Day then
        bind_res (ok_or (pr_event_day self) ''day part has no event day'') (\<lambda>day.
          ensure (\<not> (pr_event_hour self \<noteq> wrap_i32 (day * 24) \<or> pr_hours self = [] \<or> 24 < length (pr_hours self)))
            ''day part hour binding is invalid'')
      else
        ensure (pr_event_day self = None \<and> length (pr_hours self) = 1
            \<and> hg_event_hour (pr_hours self ! 0) = pr_event_hour self)
          ''hourly part hour binding is invalid'')"

definition adopted_check :: "provenance_record \<Rightarrow> adoption_anchor \<Rightarrow> adopted_object list \<Rightarrow> unit res" where
  "adopted_check self anchor objects =
     (case objects of
        [object] \<Rightarrow>
          (let data = pf_data (pr_files self) ! 0 in
           bind_res (ensure (ao_sha256 object = df_sha256 data \<and> ao_bytes object = df_bytes data
               \<and> ao_rows object = pr_rows self \<and> is_adopted_object_key (ao_key object)
               \<and> is_sha256_hex (ao_sha256 object) \<and> is_sha256_hex (ao_stamp_sha256 object))
             ''adopted object does not match the part's data file'') (\<lambda>_.
           bind_res (ensure (is_sha256_hex (aa_bundle_identity_sha256 anchor)
               \<and> is_sha256_hex (aa_object_stamp_manifest_sha256 anchor)
               \<and> is_sha256_hex (aa_bundle_manifest_sha256 anchor))
             ''adoption anchor digest is malformed'') (\<lambda>_.
             ensure (\<not> (aa_generation_id anchor = [] \<or> 256 < length (aa_generation_id anchor)
                 \<or> \<not> is_adopted_object_key (aa_bundle_manifest_key anchor)
                 \<or> aa_snapshot_id anchor = 0 \<or> \<not> valid_key_id (aa_signer_key_id anchor)))
               ''adoption anchor identity is invalid'')))
      | _ \<Rightarrow> Inl (Bail ''an adopted part references exactly one object''))"

definition inputs_check :: "crates \<Rightarrow> provenance_record \<Rightarrow> unit res" where
  "inputs_check cr self =
     (case pr_inputs self of
        Sources sources edge_log \<Rightarrow>
          if pr_level self = L0 \<and> pr_admission self \<noteq> None \<and> sources \<noteq> [] then
            (case edge_log of
               None \<Rightarrow> Inr ()
             | Some rng \<Rightarrow> edge_range_validate (sha_hex cr) rng (pr_tenant_id self) sources)
          else Inl (Bail ''provenance inputs do not match the part level'')
      | Parts parts \<Rightarrow>
          ensure (pr_level self \<noteq> L0 \<and> pr_admission self = None \<and> parts \<noteq> [])
            ''provenance inputs do not match the part level''
      | Adopted anchor objects \<Rightarrow>
          if (pr_level self = Hour \<or> pr_level self = Day) \<and> pr_admission self = None
          then adopted_check self anchor objects
          else Inl (Bail ''provenance inputs do not match the part level''))"

definition adopted_key_of :: "provenance_record \<Rightarrow> string option res" where
  "adopted_key_of self =
     (case pr_inputs self of
        Adopted _ objects \<Rightarrow>
          (case objects of
             [] \<Rightarrow> Inl (Bail ''adopted part names no object'')
           | object # _ \<Rightarrow> Inr (Some (ao_key object)))
      | _ \<Rightarrow> Inr None)"

definition record_validate :: "crates \<Rightarrow> provenance_record \<Rightarrow> unit res" where
  "record_validate cr self =
     bind_res (ensure (case pr_request_hours self of None \<Rightarrow> True | Some hours \<Rightarrow> rh_valid hours)
       ''invalid source request-hour summary'') (\<lambda>_.
     bind_res (validate_tenant_uuid (uuid_canon cr) (pr_tenant_id self)) (\<lambda>_.
     bind_res (ensure (pr_format self = PROVENANCE_FORMAT) ''provenance format is unsupported'') (\<lambda>_.
     bind_res (ensure (\<not> (pr_rows self = 0 \<or> pr_max_time_us self < pr_min_time_us self))
       ''provenance row count or time bounds are invalid'') (\<lambda>_.
     bind_res (ensure (is_sha256_hex (pr_schema_fingerprint self) \<and> is_sha256_hex (pr_merkle_root self))
       ''provenance digest is malformed'') (\<lambda>_.
     bind_res (ensure (valid_key_id (pr_signer_key_id self)) ''provenance signer key id is malformed'') (\<lambda>_.
     bind_res (ensure (pairwise_ok (<) (pr_lowercased_at_rest self)
         \<and> list_all (\<lambda>path. path \<in> set LOWERCASED_AT_REST) (pr_lowercased_at_rest self))
       ''provenance lowercase field set is invalid'') (\<lambda>_.
     bind_res (ensure (case pr_admission self of
           None \<Rightarrow> True
         | Some admission \<Rightarrow> \<not> (ad_admission_contract admission = ADMISSION_CONTRACT
                                \<and> pr_lowercased_at_rest self \<noteq> LOWERCASED_AT_REST))
       ''admission v2 must attest every lowercased field'') (\<lambda>_.
     bind_res (adopted_key_of self) (\<lambda>adopted_key.
     bind_res (part_files_validate (pr_files self) (pr_rows self) adopted_key) (\<lambda>_.
     bind_res (ensure (\<not> (pr_level self \<notin> {Minute, Hour}
         \<and> list_ex (\<lambda>file. df_log_sources file \<noteq> None \<and> \<not> l0_class_family self file) (pf_data (pr_files self))))
       ''only minute/hour parts can attest per-file log sources (an L0 part only one source/class family)'') (\<lambda>_.
     bind_res (hour_binding_check self) (\<lambda>_.
     bind_res (ensure (sum_u64 (map hg_rows (pr_hours self)) = pr_rows self)
       ''provenance hour rows do not sum to the part rows'') (\<lambda>_.
     bind_res (ensure (pairwise_ok (\<lambda>a b. hg_event_hour a < hg_event_hour b) (pr_hours self))
       ''provenance hours are not strictly ordered'') (\<lambda>_.
       inputs_check cr self))))))))))))))"

definition is_adopted :: "provenance_record \<Rightarrow> bool" where
  "is_adopted self \<longleftrightarrow> (case pr_inputs self of Adopted _ _ \<Rightarrow> True | _ \<Rightarrow> False)"

definition data_key :: "provenance_record \<Rightarrow> string \<Rightarrow> nat \<Rightarrow> string option" where
  "data_key self dir index =
     (if index < length (pf_data (pr_files self))
      then (let data = pf_data (pr_files self) ! index in
            Some (if is_adopted self then df_name data else part_file dir (df_name data)))
      else None)"

definition canonical_bytes :: "crates \<Rightarrow> provenance_record \<Rightarrow> string res" where
  "canonical_bytes cr self = canonical_json_bytes (scalar_text cr) (record_value cr self)"

definition PROVENANCE_SIGNATURE_DOMAIN :: string where
  "PROVENANCE_SIGNATURE_DOMAIN = ''nano-lake-part-provenance-v1'' @ [char_of (0::nat)]"

definition signing_message :: "crates \<Rightarrow> provenance_record \<Rightarrow> string res" where
  "signing_message cr self =
     bind_res (canonical_bytes cr self) (\<lambda>bytes. Inr (PROVENANCE_SIGNATURE_DOMAIN @ bytes))"

section \<open>The signed envelope\<close>

record ed25519_signature =
  sg_alg :: string
  sg_key_id :: string
  sg_sig :: string

type_synonym tenant_key_set = "(string, string) bmap"

definition key_set_verify ::
  "crates \<Rightarrow> tenant_key_set \<Rightarrow> ed25519_signature \<Rightarrow> string \<Rightarrow> unit res" where
  "key_set_verify cr keys signature message =
     bind_res (ensure (sg_alg signature = ''ed25519'') ''signature algorithm is unsupported'') (\<lambda>_.
     bind_res (ok_or (map_of keys (sg_key_id signature)) ''signature key is not trusted for this tenant'') (\<lambda>key.
     bind_res (ok_or (b64_decode cr (sg_sig signature)) ''signature is not base64'') (\<lambda>bytes.
     bind_res (ensure (signature_bytes_ok cr bytes) ''signature is malformed'') (\<lambda>_.
       ensure (verify_strict cr key message bytes) ''signature does not verify''))))"

record signed_provenance =
  sp_record :: provenance_record
  sp_signature :: ed25519_signature

definition assemble ::
  "crates \<Rightarrow> provenance_record \<Rightarrow> ed25519_signature \<Rightarrow> tenant_key_set \<Rightarrow> signed_provenance res" where
  "assemble cr rec signature keys =
     bind_res (record_validate cr rec) (\<lambda>_.
     bind_res (ensure (sg_key_id signature = pr_signer_key_id rec)
       ''signature key id differs from the record's signer'') (\<lambda>_.
     bind_res (signing_message cr rec) (\<lambda>message.
     bind_res (key_set_verify cr keys signature message) (\<lambda>_.
       Inr \<lparr> sp_record = rec, sp_signature = signature \<rparr>))))"

definition verify_bytes ::
  "crates \<Rightarrow> (string \<Rightarrow> signed_provenance option) \<Rightarrow> string \<Rightarrow> string \<Rightarrow> tenant_key_set \<Rightarrow> signed_provenance res" where
  "verify_bytes cr signed_parse bytes tenant_id keys =
     bind_res (ensure (length bytes \<le> MAX_PROVENANCE_BYTES) ''provenance record exceeds its byte bound'') (\<lambda>_.
     bind_res (ok_or (signed_parse bytes) ''provenance record does not parse'') (\<lambda>signed.
     bind_res (ensure (pr_tenant_id (sp_record signed) = tenant_id)
       ''provenance record belongs to another tenant'') (\<lambda>_.
     bind_res (record_validate cr (sp_record signed)) (\<lambda>_.
     bind_res (ensure (sg_key_id (sp_signature signed) = pr_signer_key_id (sp_record signed))
       ''signature key id differs from the record's signer'') (\<lambda>_.
     bind_res (signing_message cr (sp_record signed)) (\<lambda>message.
     bind_res (key_set_verify cr keys (sp_signature signed) message) (\<lambda>_.
       Inr signed)))))))"

section \<open>What validation guarantees\<close>

lemma pad0_dec_inj: "pad0 w (dec i) = pad0 w (dec j) \<Longrightarrow> i = j"
  by (metis digits_val_pad0_dec)

lemma data_file_name_inj: "data_file_name i = data_file_name j \<Longrightarrow> i = j"
  by (rule pad0_dec_inj [of 5]) (simp add: data_file_name_def)

lemma tokens_file_name_inj: "tokens_file_name i = tokens_file_name j \<Longrightarrow> i = j"
  by (rule pad0_dec_inj [of 5]) (simp add: tokens_file_name_def)

lemma data_file_check_names:
  assumes "data_file_check adopted_key prev index d = Inr u"
  shows "df_name d = (case adopted_key of Some key \<Rightarrow> key | None \<Rightarrow> data_file_name index)"
    and "fd_name (df_tokens d) = tokens_file_name index" "0 < df_rows d"
    and "df_min_time_us d \<le> df_max_time_us d"
  using assms unfolding data_file_check_def by (auto simp: res_simps)

lemma data_files_check_ok:
  assumes "data_files_check adopted_key prev index acc ds = Inr n"
  shows "n = acc + sum_list (map df_rows ds)"
    and "\<And>i. i < length ds \<Longrightarrow> \<exists>p u. data_file_check adopted_key p (index + i) (ds ! i) = Inr u"
proof -
  have "n = acc + sum_list (map df_rows ds)
      \<and> (\<forall>i < length ds. \<exists>p u. data_file_check adopted_key p (index + i) (ds ! i) = Inr u)"
    using assms
  proof (induction adopted_key prev index acc ds rule: data_files_check.induct)
    case (1 adopted_key prev index acc)
    then show ?case by simp
  next
    case (2 adopted_key prev index acc d rest)
    then show ?case
      by (fastforce simp: res_simps checked_add_u64_Some nth_Cons split: nat.splits)
  qed
  then show "n = acc + sum_list (map df_rows ds)"
    and "\<And>i. i < length ds \<Longrightarrow> \<exists>p u. data_file_check adopted_key p (index + i) (ds ! i) = Inr u"
    by blast+
qed

lemma part_files_validate_ok:
  assumes "part_files_validate f rows adopted_key = Inr u"
  shows "sum_list (map df_rows (pf_data f)) = rows" "pf_data f \<noteq> []" "length (pf_data f) \<le> MAX_DATA_FILES"
    and "\<And>i. i < length (pf_data f) \<Longrightarrow>
           df_name (pf_data f ! i) = (case adopted_key of Some key \<Rightarrow> key | None \<Rightarrow> data_file_name i)
           \<and> fd_name (df_tokens (pf_data f ! i)) = tokens_file_name i"
    and "adopted_key \<noteq> None \<Longrightarrow> length (pf_data f) = 1"
    and "\<And>name sha bytes. (name, sha, bytes) \<in> set (files_all f) \<Longrightarrow>
           is_sha256_hex sha \<and> 0 < bytes \<and> bytes \<le> MAX_OBJECT_BYTES"
proof -
  obtain n where c: "data_files_check adopted_key None 0 0 (pf_data f) = Inr n" "n = rows"
    using assms unfolding part_files_validate_def by (auto simp: res_simps)
  show "sum_list (map df_rows (pf_data f)) = rows"
    using data_files_check_ok(1) [OF c(1)] c(2) by simp
  show "pf_data f \<noteq> []" "length (pf_data f) \<le> MAX_DATA_FILES" "adopted_key \<noteq> None \<Longrightarrow> length (pf_data f) = 1"
    using assms unfolding part_files_validate_def by (auto simp: res_simps)
  show "df_name (pf_data f ! i) = (case adopted_key of Some key \<Rightarrow> key | None \<Rightarrow> data_file_name i)
      \<and> fd_name (df_tokens (pf_data f ! i)) = tokens_file_name i" if i: "i < length (pf_data f)" for i
    using data_files_check_ok(2) [OF c(1) i] data_file_check_names(1,2) by fastforce
  show "is_sha256_hex sha \<and> 0 < bytes \<and> bytes \<le> MAX_OBJECT_BYTES"
    if "(name, sha, bytes) \<in> set (files_all f)" for name sha bytes
    using assms that unfolding part_files_validate_def by (fastforce simp: res_simps)
qed

lemma record_validate_ok:
  assumes "record_validate cr r = Inr u"
  obtains key where "adopted_key_of r = Inr key" "part_files_validate (pr_files r) (pr_rows r) key = Inr ()"
    "validate_tenant_uuid (uuid_canon cr) (pr_tenant_id r) = Inr ()"
    "hour_binding_check r = Inr ()" "sum_u64 (map hg_rows (pr_hours r)) = pr_rows r"
    "pairwise_ok (\<lambda>a b. hg_event_hour a < hg_event_hour b) (pr_hours r)" "inputs_check cr r = Inr ()"
    "0 < pr_rows r" "pr_min_time_us r \<le> pr_max_time_us r"
proof -
  obtain key where "adopted_key_of r = Inr key \<and> part_files_validate (pr_files r) (pr_rows r) key = Inr ()
    \<and> validate_tenant_uuid (uuid_canon cr) (pr_tenant_id r) = Inr ()
    \<and> hour_binding_check r = Inr () \<and> sum_u64 (map hg_rows (pr_hours r)) = pr_rows r
    \<and> pairwise_ok (\<lambda>a b. hg_event_hour a < hg_event_hour b) (pr_hours r) \<and> inputs_check cr r = Inr ()
    \<and> 0 < pr_rows r \<and> pr_min_time_us r \<le> pr_max_time_us r"
    using assms unfolding record_validate_def by (clarsimp simp: res_simps not_less)
  then show ?thesis using that by blast
qed

lemma adopted_key_of_None: "adopted_key_of r = Inr None \<longleftrightarrow> \<not> is_adopted r"
  by (cases "pr_inputs r") (simp_all add: adopted_key_of_def is_adopted_def split: list.split)

lemma record_data_distinct:
  assumes "record_validate cr r = Inr u"
  shows "distinct (map df_name (pf_data (pr_files r)))"
proof -
  obtain key where k: "adopted_key_of r = Inr key" "part_files_validate (pr_files r) (pr_rows r) key = Inr ()"
    using assms by (rule record_validate_ok)
  show ?thesis
  proof (cases key)
    case None
    then show ?thesis
      using part_files_validate_ok(4) [OF k(2)]
      by (auto simp: distinct_conv_nth dest: data_file_name_inj)
  next
    case (Some x)
    then have "length (pf_data (pr_files r)) = 1" using part_files_validate_ok(5) [OF k(2)] by simp
    then show ?thesis by (auto simp: distinct_conv_nth)
  qed
qed


text \<open>
  C26: an envelope read back for a tenant was vouched for: its record validates, names that tenant,
  and a key trusted under the record's own signer id verified the domain-separated canonical bytes.
\<close>

theorem verify_bytes_sound:
  assumes "verify_bytes cr signed_parse bytes tenant_id keys = Inr signed"
  shows "\<exists>key canonical sig. record_validate cr (sp_record signed) = Inr ()
    \<and> pr_tenant_id (sp_record signed) = tenant_id
    \<and> canonical_bytes cr (sp_record signed) = Inr canonical
    \<and> map_of keys (pr_signer_key_id (sp_record signed)) = Some key
    \<and> b64_decode cr (sg_sig (sp_signature signed)) = Some sig
    \<and> verify_strict cr key (PROVENANCE_SIGNATURE_DOMAIN @ canonical) sig"
proof -
  obtain message where m: "record_validate cr (sp_record signed) = Inr ()"
    "pr_tenant_id (sp_record signed) = tenant_id"
    "sg_key_id (sp_signature signed) = pr_signer_key_id (sp_record signed)"
    "signing_message cr (sp_record signed) = Inr message"
    "key_set_verify cr keys (sp_signature signed) message = Inr ()"
    using assms unfolding verify_bytes_def by (clarsimp simp: res_simps)
  obtain canonical where "canonical_bytes cr (sp_record signed) = Inr canonical"
    "message = PROVENANCE_SIGNATURE_DOMAIN @ canonical"
    using m(4) unfolding signing_message_def bind_res_Inr by blast
  then show ?thesis
    using m unfolding key_set_verify_def bind_res_Inr ensure_Inr ok_or_Inr by auto
qed

lemma assemble_verify_roundtrip:
  assumes "assemble cr rec signature keys = Inr signed"
    and "signed_parse bytes = Some signed" "length bytes \<le> MAX_PROVENANCE_BYTES"
  shows "verify_bytes cr signed_parse bytes (pr_tenant_id rec) keys = Inr signed"
proof -
  have "record_validate cr rec = Inr ()" "sg_key_id signature = pr_signer_key_id rec"
    "signed = \<lparr> sp_record = rec, sp_signature = signature \<rparr>"
    "\<exists>m. signing_message cr rec = Inr m \<and> key_set_verify cr keys signature m = Inr ()"
    using assms(1) unfolding assemble_def by (clarsimp simp: res_simps)+
  then show ?thesis
    using assms(2,3) unfolding verify_bytes_def by (clarsimp simp: res_simps)
qed

lemma signing_message_text:
  "signing_message cr a = Inr m
   \<Longrightarrow> m = PROVENANCE_SIGNATURE_DOMAIN @ write_canonical_json (scalar_text cr) (record_value cr a)"
  unfolding signing_message_def canonical_bytes_def canonical_json_bytes_def bind_res_Inr by auto

lemma signing_message_binds:
  assumes "self_delimiting (scalar_text cr)" "signing_message cr a = Inr m" "signing_message cr b = Inr m"
  shows "json_norm (record_value cr a) = json_norm (record_value cr b)"
proof -
  have "write_canonical_json (scalar_text cr) (record_value cr a)
      = write_canonical_json (scalar_text cr) (record_value cr b)"
    using signing_message_text [OF assms(2)] signing_message_text [OF assms(3)] by (metis same_append_eq)
  then show ?thesis
    using write_readback [OF assms(1), of "[]" "[]" "record_value cr a" "record_value cr b"]
    by (simp add: delimited_def)
qed

section \<open>A concrete record\<close>

definition demo_digest :: string where "demo_digest = replicate 64 CHR ''a''"

definition demo_files :: part_files where
  "demo_files =
     \<lparr> pf_data = [\<lparr> df_name = ''data-00000.parquet'', df_bytes = 100, df_sha256 = demo_digest, df_rows = 4,
         df_row_groups = 1, df_min_time_us = 0, df_max_time_us = 9, df_log_sources = None,
         df_uid_blooms = None, df_entity_blooms = None, df_parquet_ranges = None, df_entity_locators = None,
         df_class_id = None,
         df_tokens = \<lparr> fd_name = ''tokens-00000.nti'', fd_bytes = 10, fd_sha256 = demo_digest \<rparr> \<rparr>],
       pf_partials = [] \<rparr>"

definition demo_record :: provenance_record where
  "demo_record =
     \<lparr> pr_request_hours = None, pr_format = PROVENANCE_FORMAT, pr_signer_key_id = ''owner-key'',
       pr_tenant_id = ''t'', pr_part_id = ''1790330400123-9f86d081884c7d65'', pr_level = L0,
       pr_created_at_ms = 1790330400123, pr_event_hour = 0, pr_event_day = None, pr_rows = 4,
       pr_min_time_us = 0, pr_max_time_us = 9, pr_schema_fingerprint = demo_digest,
       pr_merkle_root = demo_digest,
       pr_hours = [\<lparr> hg_event_hour = 0, hg_rows = 4, hg_min_time_us = 0, hg_max_time_us = 9,
                     hg_merkle_root = demo_digest \<rparr>],
       pr_files = demo_files, pr_inputs = Sources [demo_source 9] (Some demo_range),
       pr_admission = Some \<lparr> ad_ocsf_version = ''1.5'', ad_admission_contract = ADMISSION_CONTRACT,
                             ad_feed_pins = [] \<rparr>,
       pr_lowercased_at_rest = LOWERCASED_AT_REST,
       pr_dedup = \<lparr> ds_rows_in = 4, ds_duplicates_dropped = 0, ds_window = ExactWindow \<rparr>,
       pr_writer = \<lparr> wi_role = ''ingest'', wi_build = ''b'' \<rparr> \<rparr>"

definition demo_crates :: crates where
  "demo_crates =
     \<lparr> uuid_canon = Some,
       from_timestamp = (\<lambda>_. Some \<lparr> cv_year = 2026, cv_month = 9, cv_day = 25, cv_hour = 10 \<rparr>),
       sha_hex = demo_sha, scalar_text = demo_scalar, record_value = (\<lambda>r. JStr (pr_part_id r)),
       record_parse = (\<lambda>_. Some demo_record), b64_encode = (\<lambda>s. s), b64_decode = Some,
       signature_bytes_ok = (\<lambda>_. True), verify_strict = (\<lambda>_ _ _. True) \<rparr>"

lemma demo_digest_hex: "is_sha256_hex demo_digest"
  by (simp add: demo_digest_def demo_hex)

lemma demo_names: "data_file_name 0 = ''data-00000.parquet''" "tokens_file_name 0 = ''tokens-00000.nti''"
  by code_simp+

lemma demo_files_valid: "part_files_validate demo_files 4 None = Inr ()"
  by (simp add: part_files_validate_def demo_files_def data_file_check_def demo_names named_def
      log_sources_ok_def checked_add_u64_def u64_max_def files_all_def data_file_all_def opt_file_def
      demo_digest_hex MAX_DATA_FILES_def MAX_OBJECT_BYTES_def)

lemma demo_lowercased: "pairwise_ok (<) LOWERCASED_AT_REST"
  unfolding LOWERCASED_AT_REST_def by code_simp

lemma demo_key_id: "valid_key_id ''owner-key''"
  by (simp add: valid_key_id_def is_ascii_alnum_def is_digit_def)

lemma demo_record_valid: "record_validate demo_crates demo_record = Inr ()"
proof -
  have "inputs_check demo_crates demo_record = Inr ()" "adopted_key_of demo_record = Inr None"
    "hour_binding_check demo_record = Inr ()"
    using demo_range_valid [of 9]
    by (simp_all add: inputs_check_def demo_record_def demo_crates_def adopted_key_of_def hour_binding_check_def)
  moreover have "part_files_validate (pr_files demo_record) (pr_rows demo_record) None = Inr ()"
    by (simp add: demo_record_def demo_files_valid)
  ultimately show ?thesis
    unfolding record_validate_def
    by (simp add: demo_record_def demo_crates_def validate_tenant_uuid_def demo_digest_hex demo_key_id
        demo_lowercased list_all_iff sum_u64_def demo_files_def)
qed


definition demo_signed :: signed_provenance where
  "demo_signed = \<lparr> sp_record = demo_record,
     sp_signature = \<lparr> sg_alg = ''ed25519'', sg_key_id = ''owner-key'', sg_sig = ''sig'' \<rparr> \<rparr>"

lemma demo_verify:
  "verify_bytes demo_crates (\<lambda>_. Some demo_signed) ''bytes'' ''t'' [(''owner-key'', ''pk'')] = Inr demo_signed"
proof -
  have "pr_tenant_id demo_record = ''t''" "pr_signer_key_id demo_record = ''owner-key''"
    by (simp_all add: demo_record_def)
  then show ?thesis
    by (simp add: verify_bytes_def demo_signed_def demo_record_valid MAX_PROVENANCE_BYTES_def
        signing_message_def canonical_bytes_def canonical_json_bytes_def key_set_verify_def demo_crates_def
        del: demo_scalar.simps)
       (simp add: demo_record_valid [unfolded demo_crates_def])
qed

theorem verify_bytes_sound_witness:
  "map_of [(''owner-key'', ''pk'')] (pr_signer_key_id (sp_record demo_signed)) \<noteq> None
   \<and> record_validate demo_crates (sp_record demo_signed) = Inr ()"
  using verify_bytes_sound [OF demo_verify] by (auto split: if_splits)

end
