(* ===== verification/Owner_Signing.thy ===== *)
theory Owner_Signing
  imports Provenance
begin

text \<open>
  The \<open>lake-parts:sign\<close> exchange (\<open>parts/provenance.rs\<close>, section "Owner signing"): how the cell
  packs records into requests, and the owner's executable checks of a request part, of a staged
  record reference and of the files a record names. The serialized lengths that serde_json gives
  are arguments, and so is the owner's view of the bucket (trait \<open>OwnerObjectView\<close>).
\<close>

section \<open>Requests\<close>

definition SIGN_BATCH_MAX :: nat where "SIGN_BATCH_MAX = 16"
definition INLINE_RECORD_MAX_BASE64 :: nat where "INLINE_RECORD_MAX_BASE64 = 47 * 1024"
definition CELL_INLINE_RECORD_MAX_BASE64 :: nat where "CELL_INLINE_RECORD_MAX_BASE64 = 40 * 1024"
definition RECORD_REF_INVALID :: string where "RECORD_REF_INVALID = ''record_ref_invalid''"

record record_ref =
  rf_key :: string
  rf_sha256 :: string
  rf_size_bytes :: nat

record sign_request_part =
  rq_part_id :: part_id
  rq_record_sha256 :: string
  rq_record_base64 :: "string option"
  rq_record_ref :: "record_ref option"

record sign_payload =
  sy_canonical :: string
  sy_record_ref :: "record_ref option"

record sign_request =
  sr_schema_version :: nat
  sr_request_id :: string
  sr_tenant_id :: string
  sr_parts :: "sign_request_part list"

definition record_dir :: "crates \<Rightarrow> provenance_record \<Rightarrow> string res" where
  "record_dir cr rec =
     part_keys_new (uuid_canon cr) (from_timestamp cr) (pr_tenant_id rec) (pr_level rec) (pr_event_hour rec) (pr_part_id rec)"

definition provenance_pending :: "string \<Rightarrow> string \<Rightarrow> string" where
  "provenance_pending dir record_sha256 = part_file dir (provenance_pending_file record_sha256)"

definition payload_for_record :: "crates \<Rightarrow> provenance_record \<Rightarrow> sign_payload res" where
  "payload_for_record cr rec =
     bind_res (record_validate cr rec) (\<lambda>_.
     bind_res (canonical_bytes cr rec) (\<lambda>canonical.
       if CELL_INLINE_RECORD_MAX_BASE64 < div_ceil (length canonical) 3 * 4 then
         bind_res (record_dir cr rec) (\<lambda>dir.
           let sha256 = sha_hex cr canonical in
           Inr \<lparr> sy_canonical = canonical,
                 sy_record_ref = Some \<lparr> rf_key = provenance_pending dir sha256, rf_sha256 = sha256,
                                        rf_size_bytes = length canonical \<rparr> \<rparr>)
       else Inr \<lparr> sy_canonical = canonical, sy_record_ref = None \<rparr>))"

definition request_part_for_record :: "crates \<Rightarrow> string \<Rightarrow> provenance_record \<Rightarrow> sign_request_part res" where
  "request_part_for_record cr tenant_id rec =
     bind_res (ensure (pr_tenant_id rec = tenant_id) ''sign request mixes tenants'') (\<lambda>_.
     bind_res (payload_for_record cr rec) (\<lambda>payload.
       let record_sha256 = sha_hex cr (sy_canonical payload) in
       Inr (case sy_record_ref payload of
              Some reference \<Rightarrow>
                \<lparr> rq_part_id = pr_part_id rec, rq_record_sha256 = record_sha256,
                  rq_record_base64 = None, rq_record_ref = Some reference \<rparr>
            | None \<Rightarrow>
                \<lparr> rq_part_id = pr_part_id rec, rq_record_sha256 = record_sha256,
                  rq_record_base64 = Some (b64_encode cr (sy_canonical payload)), rq_record_ref = None \<rparr>)))"

definition request_from_parts :: "string \<Rightarrow> string \<Rightarrow> sign_request_part list \<Rightarrow> sign_request" where
  "request_from_parts request_id tenant_id parts =
     \<lparr> sr_schema_version = 1, sr_request_id = request_id, sr_tenant_id = tenant_id, sr_parts = parts \<rparr>"

definition sign_request_new ::
  "crates \<Rightarrow> string \<Rightarrow> string \<Rightarrow> provenance_record list \<Rightarrow> sign_request res" where
  "sign_request_new cr request_id tenant_id records =
     bind_res (ensure (\<not> (records = [] \<or> SIGN_BATCH_MAX < length records))
       ''a sign request carries 1..=16 records'') (\<lambda>_.
     bind_res (res_map (request_part_for_record cr tenant_id) records) (\<lambda>parts.
       Inr (request_from_parts request_id tenant_id parts)))"

section \<open>Planning requests\<close>

record planned_sign_request =
  ps_start :: nat
  ps_end :: nat
  ps_request :: sign_request
  ps_body_bytes :: nat

text \<open>The inner loop: extend \<open>end\<close> while the next part fits the count and the budget.\<close>

function sign_extend :: "nat list \<Rightarrow> nat \<Rightarrow> nat \<Rightarrow> nat \<Rightarrow> nat \<Rightarrow> nat \<times> nat" where
  "sign_extend sizes budget_bytes start stop body =
     (if stop < length sizes \<and> stop - start < SIGN_BATCH_MAX \<and> body + 1 + sizes ! stop \<le> budget_bytes
      then sign_extend sizes budget_bytes start (stop + 1) (body + 1 + sizes ! stop)
      else (stop, body))"
  by pat_completeness auto
termination
  by (relation "measure (\<lambda>(sizes, _, _, stop, _). length sizes - stop)") auto

declare sign_extend.simps [simp del]

lemma sign_extend_stop: "stop \<le> fst (sign_extend sizes budget start stop body)"
proof (induction sizes budget start stop body rule: sign_extend.induct)
  case (1 sizes budget start stop body)
  then show ?case by (subst sign_extend.simps) (auto split: if_splits)
qed

text \<open>The outer loop; \<open>request_id\<close> gives the identifier drawn for the request that starts at an index.\<close>

function plan_from ::
  "(nat \<Rightarrow> string) \<Rightarrow> string \<Rightarrow> sign_request_part list \<Rightarrow> nat list \<Rightarrow> nat \<Rightarrow> nat \<Rightarrow> nat \<Rightarrow> planned_sign_request list" where
  "plan_from request_id tenant_id parts sizes envelope budget_bytes start =
     (if start < length sizes then
        (let (stop, body) = sign_extend sizes budget_bytes start (start + 1) (envelope + sizes ! start) in
         \<lparr> ps_start = start, ps_end = stop,
           ps_request = request_from_parts (request_id start) tenant_id (take (stop - start) (drop start parts)),
           ps_body_bytes = body \<rparr>
         # plan_from request_id tenant_id parts sizes envelope budget_bytes stop)
      else [])"
  by pat_completeness auto
termination
proof (relation "measure (\<lambda>(_, _, _, sizes, _, _, start). length sizes - start)", goal_cases)
  case (2 request_id tenant_id parts sizes envelope budget start p stop body)
  then have "start + 1 \<le> stop"
    using sign_extend_stop [of "start + 1" sizes budget start "envelope + sizes ! start"] by (metis fst_conv)
  then show ?case using 2 by auto
qed simp

declare plan_from.simps [simp del]

definition plan_sign_requests ::
  "crates \<Rightarrow> (nat \<Rightarrow> string) \<Rightarrow> (string \<Rightarrow> nat) \<Rightarrow> (sign_request_part \<Rightarrow> nat) \<Rightarrow> string
   \<Rightarrow> provenance_record list \<Rightarrow> nat \<Rightarrow> planned_sign_request list res" where
  "plan_sign_requests cr request_id envelope_len part_len tenant_id records budget_bytes =
     bind_res (res_map (request_part_for_record cr tenant_id) records) (\<lambda>parts.
       Inr (plan_from request_id tenant_id parts (map part_len parts) (envelope_len tenant_id) budget_bytes 0))"

section \<open>Owner checks\<close>

datatype owner_caller = Service | CellBearer

definition all_digits :: "string \<Rightarrow> nat \<Rightarrow> bool" where
  "all_digits s n \<longleftrightarrow> length s = n \<and> list_all is_digit s"

definition owner_precheck_ref :: "string \<Rightarrow> sign_request_part \<Rightarrow> unit res" where
  "owner_precheck_ref tenant_id part =
     ok_or (Option.bind (rq_record_ref part) (\<lambda>reference.
       if rq_record_base64 part \<noteq> None \<or> rf_sha256 reference \<noteq> rq_record_sha256 part
          \<or> \<not> is_sha256_hex (rf_sha256 reference) \<or> rf_size_bytes reference = 0
          \<or> MAX_PROVENANCE_BYTES < rf_size_bytes reference
       then None
       else Option.bind (strip_prefix (PARTS_ROOT @ ''/tenant='' @ tenant_id @ ''/parts/'') (rf_key reference)) (\<lambda>rest.
         case split_on CHR ''/'' rest of
           [level, yyyy, mm, dd, hh, part_id, file] \<Rightarrow>
             if level \<in> set [''l0'', ''m'', ''h'', ''d''] \<and> all_digits yyyy 4 \<and> all_digits mm 2
                \<and> all_digits dd 2 \<and> all_digits hh 2 \<and> part_id = rq_part_id part
                \<and> file = provenance_pending_file (rq_record_sha256 part)
             then Some () else None
         | _ \<Rightarrow> None)))
       RECORD_REF_INVALID"

definition request_bytes :: "crates \<Rightarrow> string \<Rightarrow> sign_request_part \<Rightarrow> string option \<Rightarrow> string res" where
  "request_bytes cr tenant_id part fetched =
     (case (rq_record_base64 part, rq_record_ref part, fetched) of
        (Some inline, None, None) \<Rightarrow>
          bind_res (ensure (length inline \<le> INLINE_RECORD_MAX_BASE64) ''record_inline_too_large'') (\<lambda>_.
            ok_or (b64_decode cr inline) ''record_invalid'')
      | (None, Some reference, Some bytes) \<Rightarrow>
          bind_res (owner_precheck_ref tenant_id part) (\<lambda>_.
          bind_res (ensure (rf_size_bytes reference = length bytes \<and> sha_hex cr bytes = rf_sha256 reference)
            RECORD_REF_INVALID) (\<lambda>_. Inr bytes))
      | _ \<Rightarrow> Inl (Bail ''record_payload_invalid''))"

definition owner_check_part ::
  "crates \<Rightarrow> string \<Rightarrow> sign_request_part \<Rightarrow> string option \<Rightarrow> string \<Rightarrow> owner_caller \<Rightarrow> provenance_record res" where
  "owner_check_part cr tenant_id part fetched signer_key_id caller =
     bind_res (request_bytes cr tenant_id part fetched) (\<lambda>bytes.
     bind_res (ensure (sha_hex cr bytes = rq_record_sha256 part \<and> length bytes \<le> MAX_PROVENANCE_BYTES)
       ''record_digest_mismatch'') (\<lambda>_.
     bind_res (ok_or (record_parse cr bytes) ''record_invalid'') (\<lambda>rec.
     bind_res (canonical_bytes cr rec) (\<lambda>canonical.
     bind_res (ensure (canonical = bytes) ''record_not_canonical'') (\<lambda>_.
     bind_res (ensure (pr_tenant_id rec = tenant_id \<and> pr_part_id rec = rq_part_id part)
       ''record_binding_mismatch'') (\<lambda>_.
     bind_res (case rq_record_ref part of
         None \<Rightarrow> Inr ()
       | Some reference \<Rightarrow>
           bind_res (record_dir cr rec) (\<lambda>dir.
             ensure (rf_key reference = provenance_pending dir (rq_record_sha256 part)) RECORD_REF_INVALID)) (\<lambda>_.
     bind_res (ensure (pr_signer_key_id rec = signer_key_id) ''record_signer_mismatch'') (\<lambda>_.
     bind_res (ensure (\<not> (caller = CellBearer \<and> is_adopted rec)) ''adopted_not_allowed'') (\<lambda>_.
     bind_res (record_validate cr rec) (\<lambda>_. Inr rec))))))))))"

datatype receipt_writer = WorkerMtls | Cell

record writer_receipt =
  wr_bytes :: nat
  wr_sha256 :: string
  wr_etag :: string
  wr_writer :: receipt_writer

record owner_object_view =
  ov_receipt :: "string \<Rightarrow> writer_receipt option"
  ov_live :: "string \<Rightarrow> (nat \<times> string) option"
  ov_rehash :: "string \<Rightarrow> nat \<Rightarrow> (nat \<times> string) option"
  ov_adopted_in_ledger :: "adoption_anchor \<Rightarrow> string \<Rightarrow> string \<Rightarrow> bool"

text \<open>Bucket key, digest and size of every file the record names, in the order the owner reads them.\<close>

definition owner_files_of ::
  "provenance_record \<Rightarrow> string \<Rightarrow> nat \<Rightarrow> data_file_digest \<Rightarrow> (string \<times> string \<times> nat) list res" where
  "owner_files_of rec dir index data =
     bind_res (ok_or (data_key rec dir index) ''data key'') (\<lambda>key.
       Inr ((key, df_sha256 data, df_bytes data)
            # map (\<lambda>(name, sha, bytes). (part_file dir name, sha, bytes)) (tl (data_file_all data))))"

definition owner_files :: "provenance_record \<Rightarrow> string \<Rightarrow> (string \<times> string \<times> nat) list res" where
  "owner_files rec dir =
     bind_res (res_map (\<lambda>(index, data). owner_files_of rec dir index data)
         (enumerate 0 (pf_data (pr_files rec)))) (\<lambda>per_data.
       Inr (concat per_data
            @ map (\<lambda>p. (part_file dir (pd_name p), pd_sha256 p, pd_bytes p)) (pf_partials (pr_files rec))))"

definition file_receipted :: "owner_object_view \<Rightarrow> string \<times> string \<times> nat \<Rightarrow> bool" where
  "file_receipted view file = (case file of (key, sha256, bytes) \<Rightarrow>
     (case ov_receipt view key of
        None \<Rightarrow> False
      | Some receipt \<Rightarrow>
          wr_writer receipt = WorkerMtls \<and> wr_bytes receipt = bytes \<and> wr_sha256 receipt = sha256
          \<and> ov_live view key = Some (wr_bytes receipt, wr_etag receipt)))"

definition file_verify :: "owner_object_view \<Rightarrow> string \<times> string \<times> nat \<Rightarrow> unit res" where
  "file_verify view file =
     (if file_receipted view file then Inr ()
      else (case file of (key, sha256, bytes) \<Rightarrow>
        (case ov_rehash view key bytes of
           Some (len, digest) \<Rightarrow> ensure (len = bytes \<and> digest = sha256) ''file_unverified''
         | None \<Rightarrow> Inl (Bail ''file_unverified''))))"

definition owner_verify_files :: "crates \<Rightarrow> provenance_record \<Rightarrow> owner_object_view \<Rightarrow> unit res" where
  "owner_verify_files cr rec view =
     bind_res (record_dir cr rec) (\<lambda>dir.
     bind_res (owner_files rec dir) (\<lambda>files.
     bind_res (case pr_inputs rec of
         Adopted anchor objects \<Rightarrow>
           (case objects of
              [] \<Rightarrow> Inl (Bail ''adopted part names no object'')
            | object # _ \<Rightarrow>
                ensure (ov_adopted_in_ledger view anchor (ao_key object) (ao_sha256 object))
                  ''adopted_object_unanchored'')
       | _ \<Rightarrow> Inr ()) (\<lambda>_.
       res_all (file_verify view) files)))"

section \<open>Every record is requested once, within the bounds\<close>

definition slice :: "nat \<Rightarrow> nat \<Rightarrow> 'a list \<Rightarrow> 'a list" where
  "slice i j xs = take (j - i) (drop i xs)"

lemma slice_snoc: "i \<le> j \<Longrightarrow> j < length xs \<Longrightarrow> slice i (Suc j) xs = slice i j xs @ [xs ! j]"
  by (simp add: slice_def Suc_diff_le take_Suc_conv_app_nth)

text \<open>Body length of the parts from \<open>start\<close> to \<open>stop\<close>: envelope, parts, separating commas.\<close>

definition body_of :: "nat \<Rightarrow> nat list \<Rightarrow> nat \<Rightarrow> nat \<Rightarrow> nat" where
  "body_of envelope sizes start stop = envelope + sum_list (slice start stop sizes) + (stop - start - 1)"

lemma body_of_Suc:
  "start < stop \<Longrightarrow> stop < length sizes
   \<Longrightarrow> body_of envelope sizes start (Suc stop) = body_of envelope sizes start stop + 1 + sizes ! stop"
  by (simp add: body_of_def slice_snoc)

lemma sign_extend_spec:
  assumes "sign_extend sizes budget start stop body = (stop', body')"
    and "start < stop" "stop \<le> length sizes" "stop - start \<le> SIGN_BATCH_MAX"
    and "body = body_of envelope sizes start stop"
  shows "stop \<le> stop' \<and> stop' \<le> length sizes \<and> stop' - start \<le> SIGN_BATCH_MAX
    \<and> body' = body_of envelope sizes start stop' \<and> (stop' = stop \<or> body' \<le> budget)"
  using assms
proof (induction sizes budget start stop body rule: sign_extend.induct)
  case (1 sizes budget start stop body)
  show ?case
  proof (cases "stop < length sizes \<and> stop - start < SIGN_BATCH_MAX \<and> body + 1 + sizes ! stop \<le> budget")
    case True
    then have "sign_extend sizes budget start (stop + 1) (body + 1 + sizes ! stop) = (stop', body')"
      using "1.prems"(1) by (subst (asm) sign_extend.simps) simp
    moreover have "body + 1 + sizes ! stop = body_of envelope sizes start (stop + 1)"
      using True "1.prems" by (simp add: body_of_Suc)
    moreover have "stop + 1 - start \<le> SIGN_BATCH_MAX" using True by linarith
    ultimately have "stop + 1 \<le> stop' \<and> stop' \<le> length sizes \<and> stop' - start \<le> SIGN_BATCH_MAX
      \<and> body' = body_of envelope sizes start stop' \<and> (stop' = stop + 1 \<or> body' \<le> budget)"
      using "1.IH" True "1.prems" by auto
    then show ?thesis
      using True "1.prems" body_of_Suc [of start stop sizes envelope] by auto
  next
    case False
    then have "(stop', body') = (stop, body)"
      using "1.prems"(1) by (subst (asm) sign_extend.simps) auto
    then show ?thesis using "1.prems" by auto
  qed
qed

definition plan_ok :: "nat list \<Rightarrow> sign_request_part list \<Rightarrow> nat \<Rightarrow> nat \<Rightarrow> planned_sign_request \<Rightarrow> bool" where
  "plan_ok sizes parts envelope budget p \<longleftrightarrow>
     ps_start p < ps_end p \<and> ps_end p \<le> length sizes \<and> ps_end p - ps_start p \<le> SIGN_BATCH_MAX
     \<and> sr_parts (ps_request p) = slice (ps_start p) (ps_end p) parts
     \<and> ps_body_bytes p = body_of envelope sizes (ps_start p) (ps_end p)
     \<and> (ps_end p = Suc (ps_start p) \<or> ps_body_bytes p \<le> budget)"

lemma plan_from_spec:
  assumes "length parts = length sizes" "start \<le> length sizes"
  shows "list_all (plan_ok sizes parts envelope budget) (plan_from rid tenant parts sizes envelope budget start)
    \<and> concat (map (\<lambda>p. sr_parts (ps_request p)) (plan_from rid tenant parts sizes envelope budget start))
        = drop start parts"
  using assms
proof (induction rid tenant parts sizes envelope budget start rule: plan_from.induct)
  case (1 rid tenant parts sizes envelope budget start)
  show ?case
  proof (cases "start < length sizes")
    case True
    obtain stop body where e: "sign_extend sizes budget start (start + 1) (envelope + sizes ! start) = (stop, body)"
      by (cases "sign_extend sizes budget start (start + 1) (envelope + sizes ! start)")
    have b: "envelope + sizes ! start = body_of envelope sizes start (start + 1)"
      using True slice_snoc [of start start sizes] by (simp add: body_of_def slice_def)
    have s: "start + 1 \<le> stop \<and> stop \<le> length sizes \<and> stop - start \<le> SIGN_BATCH_MAX
      \<and> body = body_of envelope sizes start stop \<and> (stop = start + 1 \<or> body \<le> budget)"
      using sign_extend_spec [OF e _ _ _ b] True by (auto simp: SIGN_BATCH_MAX_def)
    let ?p = "\<lparr> ps_start = start, ps_end = stop,
       ps_request = request_from_parts (rid start) tenant (take (stop - start) (drop start parts)), ps_body_bytes = body \<rparr>"
    have u: "plan_from rid tenant parts sizes envelope budget start
        = ?p # plan_from rid tenant parts sizes envelope budget stop"
      using True e by (subst plan_from.simps) simp
    have "plan_ok sizes parts envelope budget ?p"
      using s by (auto simp: plan_ok_def request_from_parts_def slice_def)
    moreover have "take (stop - start) (drop start parts) @ drop stop parts = drop start parts"
      using s append_take_drop_id [of "stop - start" "drop start parts"] by simp
    ultimately show ?thesis
      using "1.IH" [OF True e [symmetric]] "1.prems" s unfolding u by (simp add: request_from_parts_def)
  next
    case False
    then show ?thesis using "1.prems" by (subst (1 2) plan_from.simps) simp
  qed
qed

text \<open>
  C27: a batch of records is split into sign requests without loss: the requests carry the parts of
  the records in order, each exactly once; a request has 1 to 16 parts; its announced body length is
  exact (envelope, parts and separating commas); and it stays within the byte budget unless it
  carries a single part.
\<close>

theorem plan_sign_requests_partition:
  assumes "plan_sign_requests cr rid envelope_len part_len tenant records budget = Inr plans"
    and "res_map (request_part_for_record cr tenant) records = Inr parts"
  shows "concat (map (\<lambda>p. sr_parts (ps_request p)) plans) = parts
    \<and> (\<forall>p \<in> set plans. let n = length (sr_parts (ps_request p)) in
         1 \<le> n \<and> n \<le> 16
         \<and> ps_body_bytes p = envelope_len tenant + sum_list (map part_len (sr_parts (ps_request p))) + (n - 1)
         \<and> (n = 1 \<or> ps_body_bytes p \<le> budget))"
proof -
  let ?sizes = "map part_len parts"
  have plans: "plans = plan_from rid tenant parts ?sizes (envelope_len tenant) budget 0"
    using assms by (simp add: plan_sign_requests_def)
  have spec: "list_all (plan_ok ?sizes parts (envelope_len tenant) budget) plans"
    "concat (map (\<lambda>p. sr_parts (ps_request p)) plans) = parts"
    using plan_from_spec [of parts ?sizes 0] unfolding plans by simp_all
  have "let n = length (sr_parts (ps_request p)) in 1 \<le> n \<and> n \<le> 16
         \<and> ps_body_bytes p = envelope_len tenant + sum_list (map part_len (sr_parts (ps_request p))) + (n - 1)
         \<and> (n = 1 \<or> ps_body_bytes p \<le> budget)" if "p \<in> set plans" for p
  proof -
    have ok: "plan_ok ?sizes parts (envelope_len tenant) budget p" using spec(1) that by (simp add: list_all_iff)
    then have n: "length (sr_parts (ps_request p)) = ps_end p - ps_start p"
      "map part_len (sr_parts (ps_request p)) = slice (ps_start p) (ps_end p) ?sizes"
      by (auto simp: plan_ok_def slice_def take_map drop_map)
    show ?thesis
      using ok unfolding Let_def n by (auto simp: plan_ok_def body_of_def SIGN_BATCH_MAX_def)
  qed
  then show ?thesis using spec(2) by blast
qed

section \<open>Owner checks are sound\<close>

lemma owner_check_part_facts:
  assumes "owner_check_part cr tenant_id part fetched signer caller = Inr rec"
  shows "\<exists>bytes. request_bytes cr tenant_id part fetched = Inr bytes \<and> sha_hex cr bytes = rq_record_sha256 part
    \<and> length bytes \<le> MAX_PROVENANCE_BYTES \<and> canonical_bytes cr rec = Inr bytes"
    and "pr_tenant_id rec = tenant_id" "pr_part_id rec = rq_part_id part" "pr_signer_key_id rec = signer"
    and "\<not> (caller = CellBearer \<and> is_adopted rec)" "record_validate cr rec = Inr ()"
    and "\<And>reference. rq_record_ref part = Some reference \<Longrightarrow>
      \<exists>dir. record_dir cr rec = Inr dir \<and> rf_key reference = provenance_pending dir (rq_record_sha256 part)"
  using assms unfolding owner_check_part_def by (clarsimp simp: res_simps)+

text \<open>
  C33: what the owner agrees to sign. A request part that passes the owner check yields a record
  that validates, belongs to the requesting tenant, part and signer, whose canonical bytes are
  exactly the submitted bytes and hash to the announced digest; a by-reference record was staged
  under the part's own directory; and a cell bearer never gets an adopted part signed.
\<close>

theorem owner_check_part_sound:
  assumes "owner_check_part cr tenant_id part fetched signer caller = Inr rec"
  shows "record_validate cr rec = Inr () \<and> pr_tenant_id rec = tenant_id \<and> pr_part_id rec = rq_part_id part
    \<and> pr_signer_key_id rec = signer
    \<and> (\<exists>bytes. canonical_bytes cr rec = Inr bytes \<and> sha_hex cr bytes = rq_record_sha256 part
         \<and> length bytes \<le> MAX_PROVENANCE_BYTES)
    \<and> (\<forall>reference. rq_record_ref part = Some reference \<longrightarrow>
         (\<exists>dir. record_dir cr rec = Inr dir \<and> rf_key reference = provenance_pending dir (rq_record_sha256 part)))
    \<and> (is_adopted rec \<longrightarrow> caller = Service)"
  using owner_check_part_facts [OF assms] by (cases caller) auto


section \<open>The cell's requests pass the owner's checks\<close>

lemma split_on_single: "c \<notin> set a \<Longrightarrow> split_on c a = [a]"
  by (induction a) auto

lemma split_on_Cons: "c \<notin> set a \<Longrightarrow> split_on c (a @ c # b) = a # split_on c b"
  by (induction a) auto

lemma slash_free_digits: "list_all is_digit s \<Longrightarrow> CHR ''/'' \<notin> set s"
  by (auto simp: list_all_iff is_digit_def)

lemma slash_free_hex: "list_all is_lower_hex s \<Longrightarrow> CHR ''/'' \<notin> set s"
  by (auto simp: list_all_iff is_lower_hex_def is_digit_def)

lemma slash_free_part_id:
  assumes "part_id_ok p"
  shows "CHR ''/'' \<notin> set p"
proof -
  have "set p = set (take 13 p @ p ! 13 # drop 14 p)"
    using assms by (subst id_take_nth_drop [of 13 p]) (simp_all add: part_id_ok_iff)
  then have "set p = set (take 13 p) \<union> insert CHR ''-'' (set (drop 14 p))"
    using assms by (simp add: part_id_ok_iff)
  moreover have "CHR ''/'' \<notin> set (take 13 p)" "CHR ''/'' \<notin> set (drop 14 p)"
    using assms by (simp_all add: part_id_ok_iff slash_free_digits slash_free_hex)
  ultimately show ?thesis by simp
qed

lemma slash_free_level: "CHR ''/'' \<notin> set (level_code l)"
  by (cases l) auto

lemma all_digits_pad0: "n < 10 ^ w \<Longrightarrow> 0 < w \<Longrightarrow> all_digits (pad0 w (dec n)) w"
  using length_dec_bound [of n w] by (simp add: all_digits_def length_pad0 pad0_digits dec_digits)

definition civil_ok :: "civil \<Rightarrow> bool" where
  "civil_ok c \<longleftrightarrow> 0 \<le> cv_year c \<and> cv_year c \<le> 9999 \<and> cv_month c < 100 \<and> cv_day c < 100 \<and> cv_hour c < 100"

lemma pending_key_prechecked:
  assumes "part_keys_new uc ft tenant l hour pid = Inr dir" "\<And>c. ft (hour * 3600) = Some c \<Longrightarrow> civil_ok c"
    and "part_id_ok pid" "is_sha256_hex h" "0 < n" "n \<le> MAX_PROVENANCE_BYTES"
  shows "owner_precheck_ref tenant \<lparr> rq_part_id = pid, rq_record_sha256 = h, rq_record_base64 = None,
     rq_record_ref = Some \<lparr> rf_key = provenance_pending dir h, rf_sha256 = h, rf_size_bytes = n \<rparr> \<rparr> = Inr ()"
proof -
  obtain c where c: "ft (hour * 3600) = Some c" and dir: "dir = tenant_root tenant @ ''/parts/'' @ level_code l @ ''/''
      @ pad0_int 4 (cv_year c) @ ''/'' @ pad0 2 (dec (cv_month c)) @ ''/'' @ pad0 2 (dec (cv_day c)) @ ''/''
      @ pad0 2 (dec (if l = Day then 0 else cv_hour c)) @ ''/'' @ pid"
    using assms(1) unfolding part_keys_new_def by (clarsimp simp: res_simps)
  have ok: "civil_ok c" using assms(2) c by blast
  let ?y = "pad0 4 (dec (nat (cv_year c)))" and ?m = "pad0 2 (dec (cv_month c))"
    and ?d = "pad0 2 (dec (cv_day c))" and ?h = "pad0 2 (dec (if l = Day then 0 else cv_hour c))"
    and ?f = "provenance_pending_file h"
  have y: "pad0_int 4 (cv_year c) = ?y" using ok by (simp add: pad0_int_def civil_ok_def)
  have digs: "all_digits ?y 4" "all_digits ?m 2" "all_digits ?d 2" "all_digits ?h 2"
    using ok by (auto simp: civil_ok_def intro!: all_digits_pad0)
  have sf: "CHR ''/'' \<notin> set ?y" "CHR ''/'' \<notin> set ?m" "CHR ''/'' \<notin> set ?d" "CHR ''/'' \<notin> set ?h"
    using digs by (auto simp: all_digits_def dest: slash_free_digits)
  have ff: "CHR ''/'' \<notin> set ?f"
    using slash_free_hex assms(4) by (simp add: provenance_pending_file_def is_sha256_hex_def)
  let ?rest = "level_code l @ CHR ''/'' # ?y @ CHR ''/'' # ?m @ CHR ''/'' # ?d @ CHR ''/'' # ?h @ CHR ''/'' # pid @ CHR ''/'' # ?f"
  have key: "provenance_pending dir h = (PARTS_ROOT @ ''/tenant='' @ tenant @ ''/parts/'') @ ?rest"
    by (simp add: provenance_pending_def part_file_def dir tenant_root_def y)
  have segs: "split_on CHR ''/'' ?rest = [level_code l, ?y, ?m, ?d, ?h, pid, ?f]"
    by (simp only: split_on_Cons [OF slash_free_level] split_on_Cons [OF sf(1)] split_on_Cons [OF sf(2)]
        split_on_Cons [OF sf(3)] split_on_Cons [OF sf(4)] split_on_Cons [OF slash_free_part_id [OF assms(3)]]
        split_on_single [OF ff])
  have lev: "level_code l \<in> set [''l0'', ''m'', ''h'', ''d'']" by (cases l) auto
  show ?thesis
    unfolding owner_precheck_ref_def
    using assms(4-6) digs lev segs strip_prefix_append [of "PARTS_ROOT @ ''/tenant='' @ tenant @ ''/parts/''" ?rest]
    by (simp add: key)
qed

text \<open>What the exchange relies on in the crates: base64 decodes what it encoded with the standard
  padded length, digests are hex SHA-256, and canonical bytes parse back to the record.\<close>

definition crates_faithful :: "crates \<Rightarrow> provenance_record \<Rightarrow> bool" where
  "crates_faithful cr rec \<longleftrightarrow>
     (\<forall>x. b64_decode cr (b64_encode cr x) = Some x \<and> length (b64_encode cr x) = div_ceil (length x) 3 * 4
        \<and> is_sha256_hex (sha_hex cr x))
     \<and> (\<forall>bytes. canonical_bytes cr rec = Inr bytes \<longrightarrow> record_parse cr bytes = Some rec)"

definition staged_bytes :: "sign_request_part \<Rightarrow> string \<Rightarrow> string option" where
  "staged_bytes part bytes = (if rq_record_ref part = None then None else Some bytes)"

lemma request_part_cases:
  assumes "request_part_for_record cr tenant rec = Inr part" "canonical_bytes cr rec = Inr bytes"
  shows "record_validate cr rec = Inr () \<and> pr_tenant_id rec = tenant
    \<and> (part = \<lparr> rq_part_id = pr_part_id rec, rq_record_sha256 = sha_hex cr bytes,
              rq_record_base64 = Some (b64_encode cr bytes), rq_record_ref = None \<rparr>
         \<and> div_ceil (length bytes) 3 * 4 \<le> CELL_INLINE_RECORD_MAX_BASE64
       \<or> (\<exists>dir. record_dir cr rec = Inr dir
            \<and> part = \<lparr> rq_part_id = pr_part_id rec, rq_record_sha256 = sha_hex cr bytes, rq_record_base64 = None,
                rq_record_ref = Some \<lparr> rf_key = provenance_pending dir (sha_hex cr bytes), rf_sha256 = sha_hex cr bytes,
                                      rf_size_bytes = length bytes \<rparr> \<rparr>
            \<and> CELL_INLINE_RECORD_MAX_BASE64 < div_ceil (length bytes) 3 * 4))"
  using assms unfolding request_part_for_record_def payload_for_record_def Let_def
  by (clarsimp simp: res_simps split: if_splits)

text \<open>
  C35: the cell and the owner agree. For a valid record with a well-formed part id, at most 1 MiB of
  canonical bytes and an event hour in the years 0 to 9999, the request part the cell builds (inline
  or staged by reference) passes the owner's check under the record's signer and yields the same
  record, for a service caller or for a part that is not adopted.
\<close>

theorem request_part_accepted:
  assumes "request_part_for_record cr tenant rec = Inr part" "canonical_bytes cr rec = Inr bytes"
    and "crates_faithful cr rec" "length bytes \<le> MAX_PROVENANCE_BYTES" "part_id_ok (pr_part_id rec)"
    and "\<And>c. from_timestamp cr (pr_event_hour rec * 3600) = Some c \<Longrightarrow> civil_ok c"
    and "caller = CellBearer \<Longrightarrow> \<not> is_adopted rec"
  shows "owner_check_part cr tenant part (staged_bytes part bytes) (pr_signer_key_id rec) caller = Inr rec"
proof -
  note cases = request_part_cases [OF assms(1,2)]
  have f: "b64_decode cr (b64_encode cr bytes) = Some bytes" "is_sha256_hex (sha_hex cr bytes)"
    "length (b64_encode cr bytes) = div_ceil (length bytes) 3 * 4" "record_parse cr bytes = Some rec"
    using assms(2,3) unfolding crates_faithful_def by blast+
  have "request_bytes cr tenant part (staged_bytes part bytes) = Inr bytes
      \<and> sha_hex cr bytes = rq_record_sha256 part \<and> rq_part_id part = pr_part_id rec
      \<and> (case rq_record_ref part of None \<Rightarrow> Inr () | Some reference \<Rightarrow> bind_res (record_dir cr rec) (\<lambda>dir.
           ensure (rf_key reference = provenance_pending dir (rq_record_sha256 part)) RECORD_REF_INVALID)) = Inr ()"
    using cases
  proof (elim conjE disjE exE)
    assume "part = \<lparr> rq_part_id = pr_part_id rec, rq_record_sha256 = sha_hex cr bytes,
        rq_record_base64 = Some (b64_encode cr bytes), rq_record_ref = None \<rparr>"
      "div_ceil (length bytes) 3 * 4 \<le> CELL_INLINE_RECORD_MAX_BASE64"
    then show ?thesis
      using f by (simp add: request_bytes_def staged_bytes_def CELL_INLINE_RECORD_MAX_BASE64_def INLINE_RECORD_MAX_BASE64_def)
  next
    fix dir
    assume dir: "record_dir cr rec = Inr dir" and t: "pr_tenant_id rec = tenant"
      and part: "part = \<lparr> rq_part_id = pr_part_id rec, rq_record_sha256 = sha_hex cr bytes, rq_record_base64 = None,
        rq_record_ref = Some \<lparr> rf_key = provenance_pending dir (sha_hex cr bytes), rf_sha256 = sha_hex cr bytes,
                              rf_size_bytes = length bytes \<rparr> \<rparr>"
      and big: "CELL_INLINE_RECORD_MAX_BASE64 < div_ceil (length bytes) 3 * 4"
    have "0 < length bytes" using big by (cases bytes) (auto simp: div_ceil_def)
    then have "owner_precheck_ref tenant part = Inr ()"
      using pending_key_prechecked [OF dir [unfolded record_dir_def t] assms(6,5) f(2)] assms(4) part by simp
    then show ?thesis using part dir by (simp add: request_bytes_def staged_bytes_def)
  qed
  then show ?thesis
    using cases f(4) assms(2,4,7) unfolding owner_check_part_def by (auto simp: res_simps)
qed

section \<open>Concrete exchange\<close>

lemma demo_request:
  "request_part_for_record demo_crates ''t'' demo_record =
     Inr \<lparr> rq_part_id = pr_part_id demo_record, rq_record_sha256 = demo_digest,
           rq_record_base64 = Some (demo_scalar (JStr (pr_part_id demo_record))), rq_record_ref = None \<rparr>"
  by (simp add: request_part_for_record_def payload_for_record_def demo_record_valid canonical_bytes_def
      canonical_json_bytes_def Let_def)
     (simp add: demo_crates_def demo_record_def demo_sha_def demo_digest_def CELL_INLINE_RECORD_MAX_BASE64_def
       demo_esc_def div_ceil_def)

theorem plan_sign_requests_partition_witness:
  "\<exists>plans. plan_sign_requests demo_crates (\<lambda>_. ''id'') (\<lambda>_. 100) (\<lambda>_. 20) ''t'' [demo_record, demo_record] 110 = Inr plans
     \<and> length (concat (map (\<lambda>p. sr_parts (ps_request p)) plans)) = 2"
proof -
  obtain parts where parts: "res_map (request_part_for_record demo_crates ''t'') [demo_record, demo_record] = Inr parts"
    "length parts = 2"
    by (simp add: demo_request)
  then obtain plans where plans:
    "plan_sign_requests demo_crates (\<lambda>_. ''id'') (\<lambda>_. 100) (\<lambda>_. 20) ''t'' [demo_record, demo_record] 110 = Inr plans"
    by (simp add: plan_sign_requests_def)
  show ?thesis
    using plan_sign_requests_partition [OF plans parts(1)] plans parts(2) by auto
qed

text \<open>A padded encoding with the base64 length law: three bytes to four characters, the last
  character telling how many bytes the final group lacks.\<close>

definition demo64 :: "string \<Rightarrow> string" where
  "demo64 x = (if x = [] then [] else
     let c = div_ceil (length x) 3; d = 3 * c - length x in
     x @ replicate (c + d - 1) CHR ''.'' @ [digit_char d])"

definition undemo64 :: "string \<Rightarrow> string option" where
  "undemo64 y = (if y = [] then Some [] else Some (take (3 * (length y div 4) - digit_val (last y)) y))"

lemma demo64_laws: "undemo64 (demo64 x) = Some x" "length (demo64 x) = div_ceil (length x) 3 * 4"
proof -
  define c d where "c = div_ceil (length x) 3" and "d = 3 * c - length x"
  have cd: "3 * c = length x + d" "d < 3" by (simp_all add: c_def d_def div_ceil_def)
  show len: "length (demo64 x) = div_ceil (length x) 3 * 4"
  proof (cases "x = []")
    case False
    then have "0 < c" using cd by (cases c) auto
    then show ?thesis using cd by (simp add: demo64_def False c_def [symmetric] d_def [symmetric] Let_def)
  qed (simp add: demo64_def div_ceil_def)
  show "undemo64 (demo64 x) = Some x"
  proof (cases "x = []")
    case False
    then have "demo64 x = x @ replicate (c + d - 1) CHR ''.'' @ [digit_char d]"
      by (simp add: demo64_def c_def d_def Let_def)
    moreover have "length (demo64 x) div 4 = c" using len by (simp add: c_def)
    ultimately show ?thesis using cd by (simp add: undemo64_def)
  qed (simp add: demo64_def undemo64_def)
qed

definition demo_crates64 :: crates where
  "demo_crates64 = demo_crates\<lparr> b64_encode := demo64, b64_decode := undemo64 \<rparr>"

lemma demo_valid64: "record_validate demo_crates64 demo_record = Inr ()"
proof -
  have "uuid_canon demo_crates64 = uuid_canon demo_crates" "sha_hex demo_crates64 = sha_hex demo_crates"
    by (simp_all add: demo_crates64_def)
  then show ?thesis
    using demo_record_valid unfolding record_validate_def inputs_check_def by (simp only:)
qed

lemma demo_canonical64: "canonical_bytes demo_crates64 demo_record = Inr (demo_scalar (JStr (pr_part_id demo_record)))"
  by (simp add: canonical_bytes_def canonical_json_bytes_def demo_crates64_def demo_crates_def)

lemma demo_canonical_length: "length (demo_scalar (JStr (pr_part_id demo_record))) = 61"
  by (simp add: demo_record_def demo_esc_def)

definition demo_part64 :: sign_request_part where
  "demo_part64 = \<lparr> rq_part_id = pr_part_id demo_record, rq_record_sha256 = demo_digest,
     rq_record_base64 = Some (demo64 (demo_scalar (JStr (pr_part_id demo_record)))), rq_record_ref = None \<rparr>"

lemma demo_crates64_simps:
  "b64_encode demo_crates64 = demo64" "b64_decode demo_crates64 = undemo64" "sha_hex demo_crates64 = demo_sha"
  "record_parse demo_crates64 = (\<lambda>_. Some demo_record)"
  "from_timestamp demo_crates64 = (\<lambda>_. Some \<lparr> cv_year = 2026, cv_month = 9, cv_day = 25, cv_hour = 10 \<rparr>)"
  by (simp_all add: demo_crates64_def demo_crates_def)

lemma demo_record_fields:
  "pr_tenant_id demo_record = ''t''" "pr_signer_key_id demo_record = ''owner-key''" "\<not> is_adopted demo_record"
  "part_id_ok (pr_part_id demo_record)"
  by (simp_all add: demo_record_def is_adopted_def part_id_ok_iff is_digit_def is_lower_hex_def)

lemma demo_request64: "request_part_for_record demo_crates64 ''t'' demo_record = Inr demo_part64"
  by (simp add: request_part_for_record_def payload_for_record_def demo_valid64 demo_canonical64 Let_def
      demo_part64_def demo_canonical_length CELL_INLINE_RECORD_MAX_BASE64_def div_ceil_def demo_crates64_simps
      demo_record_fields demo_sha_def demo_digest_def del: demo_scalar.simps)

lemma demo_owner_check:
  "owner_check_part demo_crates64 ''t'' demo_part64 None ''owner-key'' CellBearer = Inr demo_record"
proof -
  have "length (demo64 (demo_scalar (JStr (pr_part_id demo_record)))) = 84"
    by (simp add: demo64_laws demo_canonical_length div_ceil_def del: demo_scalar.simps)
  then show ?thesis
    by (simp add: owner_check_part_def request_bytes_def demo_part64_def demo_crates64_simps demo64_laws
        INLINE_RECORD_MAX_BASE64_def demo_canonical64 demo_record_fields demo_valid64 demo_sha_def demo_digest_def
        MAX_PROVENANCE_BYTES_def demo_canonical_length del: demo_scalar.simps)
qed

theorem owner_check_part_sound_witness:
  "record_validate demo_crates64 demo_record = Inr () \<and> pr_part_id demo_record = rq_part_id demo_part64"
  using owner_check_part_sound [OF demo_owner_check] by simp

theorem request_part_accepted_witness:
  "owner_check_part demo_crates64 ''t'' demo_part64
     (staged_bytes demo_part64 (demo_scalar (JStr (pr_part_id demo_record)))) ''owner-key'' CellBearer = Inr demo_record"
proof -
  have "crates_faithful demo_crates64 demo_record"
    by (auto simp: crates_faithful_def demo_crates64_simps demo64_laws demo_sha_def demo_hex)
  then show ?thesis
    using request_part_accepted [OF demo_request64 demo_canonical64, of CellBearer]
    by (simp add: demo_record_fields demo_crates64_simps civil_ok_def MAX_PROVENANCE_BYTES_def
        demo_canonical_length del: demo_scalar.simps)
qed

definition demo_view :: owner_object_view where
  "demo_view = \<lparr> ov_receipt = (\<lambda>_. None), ov_live = (\<lambda>_. None), ov_rehash = (\<lambda>_ n. Some (n, demo_digest)),
     ov_adopted_in_ledger = (\<lambda>_ _ _. False) \<rparr>"


end
