(* ===== verification/Part_Ref.thy ===== *)
theory Part_Ref
  imports Provenance
begin

text \<open>
  What the part log holds about a part (\<open>parts/part_log.rs\<close>: \<open>PartRef\<close>, \<open>SourceRef\<close>, \<open>Rejection\<close>)
  and the checks that bind a log entry to the owner-signed records it names.
\<close>

section \<open>References\<close>

record part_ref =
  pt_request_hours :: "request_hours option"
  pt_part_id :: part_id
  pt_level :: level
  pt_event_hour :: int
  pt_event_day :: "int option"
  pt_rows :: nat
  pt_min_time_us :: int
  pt_max_time_us :: int
  pt_schema_fingerprint :: string
  pt_provenance_sha256 :: string
  pt_merkle_root :: string
  pt_sorted :: bool
  pt_data_bytes :: nat
  pt_row_groups :: nat
  pt_data_files :: nat

definition part_ref_validate :: "part_ref \<Rightarrow> unit res" where
  "part_ref_validate self =
     bind_res (ensure (case pt_request_hours self of None \<Rightarrow> True | Some hours \<Rightarrow> rh_valid hours)
       ''invalid source request-hour summary'') (\<lambda>_.
     bind_res (ensure (\<not> (pt_rows self = 0 \<or> pt_max_time_us self < pt_min_time_us self
         \<or> pt_row_groups self = 0 \<or> pt_data_files self = 0))
       ''part reference bounds are invalid'') (\<lambda>_.
     bind_res (ensure (is_sha256_hex (pt_schema_fingerprint self) \<and> is_sha256_hex (pt_provenance_sha256 self)
         \<and> is_sha256_hex (pt_merkle_root self))
       ''part reference digest is malformed'') (\<lambda>_.
       ensure ((pt_level self = Day) = (pt_event_day self \<noteq> None)) ''part reference day binding is invalid'')))"

definition check_record :: "part_ref \<Rightarrow> provenance_record \<Rightarrow> string \<Rightarrow> unit res" where
  "check_record self rec provenance_sha256 =
     ensure (pt_request_hours self = pr_request_hours rec
       \<and> pt_part_id self = pr_part_id rec
       \<and> pt_level self = pr_level rec
       \<and> pt_event_hour self = pr_event_hour rec
       \<and> pt_event_day self = pr_event_day rec
       \<and> pt_rows self = pr_rows rec
       \<and> pt_min_time_us self = pr_min_time_us rec
       \<and> pt_max_time_us self = pr_max_time_us rec
       \<and> pt_schema_fingerprint self = pr_schema_fingerprint rec
       \<and> pt_merkle_root self = pr_merkle_root rec
       \<and> pt_provenance_sha256 self = provenance_sha256
       \<and> pt_data_files self = length (pf_data (pr_files rec))
       \<and> pt_row_groups self = files_row_groups (pr_files rec)
       \<and> pt_data_bytes self = files_data_bytes (pr_files rec))
       ''log part reference differs from its signed record''"

definition part_ref_from_record :: "provenance_record \<Rightarrow> string \<Rightarrow> bool \<Rightarrow> part_ref" where
  "part_ref_from_record rec provenance_sha256 is_sorted =
     \<lparr> pt_request_hours = pr_request_hours rec, pt_part_id = pr_part_id rec, pt_level = pr_level rec,
       pt_event_hour = pr_event_hour rec, pt_event_day = pr_event_day rec, pt_rows = pr_rows rec,
       pt_min_time_us = pr_min_time_us rec, pt_max_time_us = pr_max_time_us rec,
       pt_schema_fingerprint = pr_schema_fingerprint rec, pt_provenance_sha256 = provenance_sha256,
       pt_merkle_root = pr_merkle_root rec, pt_sorted = is_sorted,
       pt_data_bytes = files_data_bytes (pr_files rec), pt_row_groups = files_row_groups (pr_files rec),
       pt_data_files = length (pf_data (pr_files rec)) mod 2 ^ 32 \<rparr>"

definition part_overlaps :: "part_ref \<Rightarrow> int \<Rightarrow> int \<Rightarrow> bool" where
  "part_overlaps self from_us to_us \<longleftrightarrow> pt_min_time_us self \<le> to_us \<and> from_us \<le> pt_max_time_us self"

section \<open>Binding entries to records\<close>

definition check_add_edge_log :: "edge_log_range option \<Rightarrow> provenance_record \<Rightarrow> unit res" where
  "check_add_edge_log entry_edge_log rec =
     (case pr_inputs rec of
        Sources _ edge_log \<Rightarrow> ensure (edge_log = entry_edge_log) ''record edge_log differs from its add entry''
      | _ \<Rightarrow> Inl (Bail ''add entry names a part without source inputs''))"

definition check_supersedes :: "part_id list \<Rightarrow> provenance_record \<Rightarrow> unit res" where
  "check_supersedes supersedes out =
     (case pr_inputs out of
        Parts parts \<Rightarrow> ensure (sort (map ip_part_id parts) = sort supersedes)
          ''merge supersedes parts other than its record's inputs''
      | _ \<Rightarrow> Inl (Bail ''merge output record has no part inputs''))"

section \<open>Consumed and refused sources\<close>

record source_ref =
  sf_key :: string
  sf_version :: string
  sf_sha256 :: string

record rejection =
  rj_source :: source_ref
  rj_scope :: string
  rj_rows_rejected :: nat
  rj_reason :: string
  rj_detail :: string

definition finding_receipts_only :: "string \<Rightarrow> source_ref list \<Rightarrow> bool" where
  "finding_receipts_only tenant_id sources \<longleftrightarrow>
     (let prefix = ''lake/parts/v1/tenant='' @ tenant_id @ ''/finding-outbox/receipts/'' in
      sources \<noteq> []
      \<and> list_all (\<lambda>source. sf_version source = ''nano.finding-outbox-receipt.v1''
          \<and> is_sha256_hex (sf_sha256 source)
          \<and> sf_key source = prefix @ sf_sha256 source @ ''.json'') sources)"

definition QUARANTINE_REPLAY_VERSION :: string where
  "QUARANTINE_REPLAY_VERSION = ''nano.bronze-quarantine-replay.v1''"

definition quarantine_replay_key :: "string \<Rightarrow> string \<Rightarrow> string" where
  "quarantine_replay_key tenant_id sha256 = ''bronze-quarantine/tenant_id='' @ tenant_id @ ''/'' @ sha256 @ ''.parquet''"

definition quarantine_replays_only :: "string \<Rightarrow> source_ref list \<Rightarrow> bool" where
  "quarantine_replays_only tenant_id sources \<longleftrightarrow>
     sources \<noteq> []
     \<and> list_all (\<lambda>source. sf_version source = QUARANTINE_REPLAY_VERSION
         \<and> is_sha256_hex (sf_sha256 source)
         \<and> sf_key source = quarantine_replay_key tenant_id (sf_sha256 source)) sources"

definition rejection_ok :: "rejection \<Rightarrow> bool" where
  "rejection_ok r \<longleftrightarrow>
     rj_scope r \<in> set [''object'', ''rows'']
     \<and> rj_reason r \<in> set [''admission_invalid'', ''shape_drift'', ''int_truncation'', ''digest_mismatch'', ''missing'']
     \<and> length (rj_detail r) \<le> 512 \<and> is_sha256_hex (sf_sha256 (rj_source r))
     \<and> (rj_scope r = ''object'' \<or> 0 < rj_rows_rejected r)"

section \<open>Properties\<close>

text \<open>
  A log reference built from a record that validates is accepted by the reader's comparison
  against that record, and it is itself a valid reference provided its provenance digest is hex and
  the row groups of its files do not wrap to zero.
\<close>

lemma part_ref_from_record_checks:
  assumes "record_validate cr rec = Inr ()" "is_sha256_hex h" "files_row_groups (pr_files rec) \<noteq> 0"
  shows "check_record (part_ref_from_record rec h s) rec h = Inr ()
    \<and> part_ref_validate (part_ref_from_record rec h s) = Inr ()"
proof -
  obtain key where k: "part_files_validate (pr_files rec) (pr_rows rec) key = Inr ()"
    "hour_binding_check rec = Inr ()" "0 < pr_rows rec" "pr_min_time_us rec \<le> pr_max_time_us rec"
    using assms(1) by (rule record_validate_ok)
  have len: "0 < length (pf_data (pr_files rec))" "length (pf_data (pr_files rec)) < 2 ^ 32"
    using part_files_validate_ok(2,3) [OF k(1)] by (auto simp: MAX_DATA_FILES_def)
  have day: "(pr_level rec = Day) = (pr_event_day rec \<noteq> None)"
    using k(2) by (auto simp: hour_binding_check_def res_simps split: if_splits)
  have hex: "is_sha256_hex (pr_schema_fingerprint rec)" "is_sha256_hex (pr_merkle_root rec)"
    "case pr_request_hours rec of None \<Rightarrow> True | Some hours \<Rightarrow> rh_valid hours"
    using assms(1) unfolding record_validate_def by (clarsimp simp: res_simps)+
  show ?thesis
    using len k(3,4) assms(2,3) day hex
    by (simp add: check_record_def part_ref_validate_def part_ref_from_record_def)
qed

lemma check_supersedes_mset:
  "check_supersedes ids out = Inr ()
   \<longleftrightarrow> (\<exists>parts. pr_inputs out = Parts parts \<and> mset ids = mset (map ip_part_id parts))"
  unfolding check_supersedes_def
  by (cases "pr_inputs out") (auto simp: res_simps dest: arg_cong [of _ _ mset] intro: properties_for_sort sym)

lemma quarantine_not_finding:
  "quarantine_replays_only t s \<Longrightarrow> \<not> finding_receipts_only t s"
  by (cases s) (auto simp: quarantine_replays_only_def finding_receipts_only_def QUARANTINE_REPLAY_VERSION_def)

end
