(* ===== verification/Merge_Levels.thy ===== *)
theory Merge_Levels
  imports Part_Ref "HOL-Library.Product_Lexorder"
begin

text \<open>
  The merge planner (\<open>parts/levels.rs\<close>): policies, planning over the live set, the byte cap with its
  chunking, splitting a merge that does not fit memory, and the overdue signal. Clock and event-hour
  arithmetic is on unbounded integers: the code computes in \<open>i64\<close> on millisecond clocks and 32-bit
  hours, far from its ends, except where it saturates, which is written out.
\<close>

section \<open>Policies\<close>

record merge_policy =
  mp_minute_min_l0_parts :: nat
  mp_minute_max_l0_age_ms :: int
  mp_hour_seal_ms :: int
  mp_day_seal_ms :: int
  mp_supersede_grace_ms :: int
  mp_orphan_age_ms :: int
  mp_max_part_bytes :: "nat option"
  mp_day_merges :: bool
  mp_sealed_remerge_debounce_ms :: int
  mp_sealed_remerge_max_defer_ms :: int

definition INTERIM_MAX_PART_BYTES :: nat where "INTERIM_MAX_PART_BYTES = 2 * 1024 * 1024 * 1024"

definition default_sealed_remerge_debounce_ms :: int where
  "default_sealed_remerge_debounce_ms = 5 * 60000"

definition default_sealed_remerge_max_defer_ms :: int where
  "default_sealed_remerge_max_defer_ms = 30 * 60000"

definition default_merge_policy :: merge_policy where
  "default_merge_policy =
     \<lparr> mp_minute_min_l0_parts = 12, mp_minute_max_l0_age_ms = 60000, mp_hour_seal_ms = 10 * 60000,
       mp_day_seal_ms = 2 * 3600000, mp_supersede_grace_ms = 3600000, mp_orphan_age_ms = 49 * 3600000,
       mp_max_part_bytes = Some INTERIM_MAX_PART_BYTES, mp_day_merges = False,
       mp_sealed_remerge_debounce_ms = default_sealed_remerge_debounce_ms,
       mp_sealed_remerge_max_defer_ms = default_sealed_remerge_max_defer_ms \<rparr>"

definition estimated_part_bytes :: "part_ref list \<Rightarrow> nat" where
  "estimated_part_bytes inputs =
     (let data = sum_u64 (map pt_data_bytes inputs) in sat_add_u64 data (sat_mul_u64 data 35 div 100))"

record flush_policy =
  fp_min_age_ms :: int
  fp_max_age_ms :: int
  fp_target_rows :: nat

definition FLUSH_AGE_FLOOR_MS :: int where "FLUSH_AGE_FLOOR_MS = 1000"
definition FLUSH_AGE_CEILING_MS :: int where "FLUSH_AGE_CEILING_MS = 120000"
definition FLUSH_TARGET_ROWS_CEILING :: nat where "FLUSH_TARGET_ROWS_CEILING = 16777216"

definition default_flush_policy :: flush_policy where
  "default_flush_policy = \<lparr> fp_min_age_ms = 5000, fp_max_age_ms = 10000, fp_target_rows = 3000 \<rparr>"

definition flush_policy_validate :: "flush_policy \<Rightarrow> unit res" where
  "flush_policy_validate self =
     bind_res (ensure (FLUSH_AGE_FLOOR_MS \<le> fp_min_age_ms self \<and> fp_min_age_ms self \<le> FLUSH_AGE_CEILING_MS
         \<and> FLUSH_AGE_FLOOR_MS \<le> fp_max_age_ms self \<and> fp_max_age_ms self \<le> FLUSH_AGE_CEILING_MS)
       ''ingest flush ages must be within 1000..=120000 ms'') (\<lambda>_.
     bind_res (ensure (fp_min_age_ms self \<le> fp_max_age_ms self) ''ingest flush min_age_ms exceeds max_age_ms'') (\<lambda>_.
       ensure (0 < fp_target_rows self \<and> fp_target_rows self \<le> FLUSH_TARGET_ROWS_CEILING)
         ''ingest flush target_rows is out of range''))"

definition MAX_MINUTE_MERGE_INPUTS :: nat where "MAX_MINUTE_MERGE_INPUTS = 24"
definition FRAGMENTED_HOUR_PARTS :: nat where "FRAGMENTED_HOUR_PARTS = 64"

definition hour_is_fragmented :: "nat \<Rightarrow> bool" where
  "hour_is_fragmented parts \<longleftrightarrow> FRAGMENTED_HOUR_PARTS \<le> parts"

record planned_merge =
  pm_output_level :: level
  pm_event_hour :: int
  pm_inputs :: "part_ref list"

definition is_fragmented_hour_merge :: "planned_merge \<Rightarrow> bool" where
  "is_fragmented_hour_merge m \<longleftrightarrow> pm_output_level m = Hour \<and> hour_is_fragmented (length (pm_inputs m))"

section \<open>Planning\<close>

abbreviation created :: "part_ref \<Rightarrow> int" where
  "created p \<equiv> created_unix_ms (pt_part_id p)"

definition is_unmerged :: "part_ref \<Rightarrow> bool" where
  "is_unmerged p \<longleftrightarrow> pt_level p = L0 \<or> pt_level p = Minute"

text \<open>\<open>newest.max(Some(..))\<close> over an option: \<open>None\<close> is below every \<open>Some\<close>.\<close>

definition unmerged_quiet :: "part_ref list \<Rightarrow> int \<Rightarrow> merge_policy \<Rightarrow> bool" where
  "unmerged_quiet parts now_ms policy \<longleftrightarrow>
     (case map created (filter is_unmerged parts) of
        [] \<Rightarrow> False
      | c # cs \<Rightarrow> now_ms - fold max cs c \<ge> mp_sealed_remerge_debounce_ms policy)"

text \<open>\<open>entry(k).or_default().push(x)\<close> in a loop.\<close>

definition push_group :: "('a \<Rightarrow> 'k::linorder) \<Rightarrow> 'a \<Rightarrow> ('k, 'a list) bmap \<Rightarrow> ('k, 'a list) bmap" where
  "push_group key x m = bput (key x) ((case map_of m (key x) of Some xs \<Rightarrow> xs | None \<Rightarrow> []) @ [x]) m"

definition group_by :: "('a \<Rightarrow> 'k::linorder) \<Rightarrow> 'a list \<Rightarrow> ('k, 'a list) bmap" where
  "group_by key xs = fold (push_group key) xs []"

definition day_of_part :: "part_ref \<Rightarrow> int" where
  "day_of_part p = (case pt_event_day p of Some d \<Rightarrow> d | None \<Rightarrow> event_day_of (pt_event_hour p * HOUR_US))"

definition hour_end_ms :: "int \<Rightarrow> int" where
  "hour_end_ms hour = (hour + 1) * (HOUR_US div 1000)"

definition hour_settled :: "part_ref list \<Rightarrow> int \<Rightarrow> merge_policy \<Rightarrow> bool" where
  "hour_settled parts now_ms policy \<longleftrightarrow>
     (let cs = map created (filter (\<lambda>p. pt_level p \<noteq> Hour) parts);
          newest = fold max cs i64_min; oldest = fold min cs i64_max in
      cs = [] \<or> now_ms - newest \<ge> mp_sealed_remerge_debounce_ms policy
      \<or> now_ms - oldest \<ge> mp_sealed_remerge_max_defer_ms policy)"

definition plan_hour :: "int \<Rightarrow> merge_policy \<Rightarrow> bool \<Rightarrow> int \<times> part_ref list \<Rightarrow> planned_merge list" where
  "plan_hour now_ms policy history_open hp = (case hp of (hour, parts) \<Rightarrow>
     (let is_sealed = now_ms \<ge> hour_end_ms hour + mp_hour_seal_ms policy;
          unmerged = length (filter (\<lambda>p. pt_level p \<noteq> Hour) parts);
          hour_parts = length (filter (\<lambda>p. pt_level p = Hour) parts);
          direct = history_open \<and> is_sealed \<and> unmerged_quiet parts now_ms policy;
          fragmented = hour_is_fragmented (length parts);
          l0 = filter (\<lambda>p. pt_level p = L0) parts in
      if is_sealed \<and> (unmerged > 0 \<or> hour_parts > 1) \<and> (hour_settled parts now_ms policy \<or> fragmented)
         \<and> (direct \<or> fragmented \<or> length l0 < mp_minute_min_l0_parts policy)
      then [\<lparr> pm_output_level = Hour, pm_event_hour = hour, pm_inputs = parts \<rparr>]
      else if length l0 \<ge> 2
        \<and> (length l0 \<ge> mp_minute_min_l0_parts policy
           \<or> now_ms - fold min (map created l0) (created (hd l0)) \<ge> mp_minute_max_l0_age_ms policy)
      then [\<lparr> pm_output_level = Minute, pm_event_hour = hour, pm_inputs = l0 \<rparr>]
      else []))"

definition lone_hour :: "int \<times> part_ref list \<Rightarrow> bool" where
  "lone_hour hp \<longleftrightarrow> length (snd hp) = 1 \<and> pt_level (snd hp ! 0) = Hour"

definition get_list :: "('k, 'a list) bmap \<Rightarrow> 'k \<Rightarrow> 'a list" where
  "get_list m k = (case map_of m k of Some xs \<Rightarrow> xs | None \<Rightarrow> [])"

definition plan_day ::
  "int \<Rightarrow> merge_policy \<Rightarrow> (int, (int \<times> part_ref list) list) bmap \<Rightarrow> (int, part_ref list) bmap \<Rightarrow> int
   \<Rightarrow> planned_merge list" where
  "plan_day now_ms policy hours_by_day days day =
     (let day_end_ms = (day + 1) * (DAY_US div 1000);
          hours = get_list hours_by_day day; prior_days = get_list days day in
      if now_ms < day_end_ms + mp_day_seal_ms policy then []
      else if \<not> list_all lone_hour hours \<or> (hours = [] \<and> length prior_days \<le> 1) then []
      else [\<lparr> pm_output_level = Day, pm_event_hour = wrap_i32 (day * 24),
              pm_inputs = prior_days @ concat (map snd hours) \<rparr>])"

definition plan_merges_uncapped :: "part_ref list \<Rightarrow> int \<Rightarrow> merge_policy \<Rightarrow> bool \<Rightarrow> planned_merge list" where
  "plan_merges_uncapped live now_ms policy history_open =
     (let usable = filter pt_sorted live;
          days = group_by day_of_part (filter (\<lambda>p. pt_level p = Day) usable);
          by_hour = group_by pt_event_hour (filter (\<lambda>p. pt_level p \<noteq> Day) usable);
          planned = concat (map (plan_hour now_ms policy history_open) by_hour) in
      if \<not> mp_day_merges policy then planned
      else
        (let hours_by_day = group_by (\<lambda>hp. event_day_of (fst hp * HOUR_US)) by_hour;
             day_keys = remdups_adj (sort (map fst hours_by_day @ map fst days)) in
         planned @ concat (map (plan_day now_ms policy hours_by_day days) day_keys)))"

section \<open>The byte cap\<close>

definition cap_fits :: "nat \<Rightarrow> part_ref list \<Rightarrow> bool" where
  "cap_fits cap inputs \<longleftrightarrow> estimated_part_bytes inputs \<le> cap"

text \<open>The chunk loop: \<open>chunk\<close> is the vector being filled.\<close>

fun cap_chunks :: "nat \<Rightarrow> part_ref list \<Rightarrow> part_ref list \<Rightarrow> part_ref list list" where
  "cap_chunks cap chunk [] = (if length chunk \<ge> 2 then [chunk] else [])"
| "cap_chunks cap chunk (part # rest) =
     (if cap_fits cap (chunk @ [part]) then cap_chunks cap (chunk @ [part]) rest
      else (if length chunk \<ge> 2 then [chunk] else []) @ cap_chunks cap [part] rest)"

definition split_minute :: "planned_merge \<Rightarrow> planned_merge list" where
  "split_minute m =
     (if pm_output_level m = Minute
      then map (\<lambda>c. \<lparr> pm_output_level = Minute, pm_event_hour = pm_event_hour m, pm_inputs = c \<rparr>)
             (filter (\<lambda>c. length c \<ge> 2) (chunks MAX_MINUTE_MERGE_INPUTS (pm_inputs m)))
      else [m])"

definition cap_merge :: "nat \<Rightarrow> int \<Rightarrow> merge_policy \<Rightarrow> bool \<Rightarrow> planned_merge \<Rightarrow> planned_merge list" where
  "cap_merge cap now_ms policy history_open m =
     (if cap_fits cap (pm_inputs m) then [m]
      else if pm_output_level m = Day then []
      else
        (let direct = history_open \<and> pm_output_level m = Hour \<and> unmerged_quiet (pm_inputs m) now_ms policy;
             output_level = (if direct then Hour else Minute);
             chunked = (if direct then [L0, Minute] else [L0]);
             l0 = sort_key (\<lambda>p. (pt_min_time_us p, pt_max_time_us p))
                    (filter (\<lambda>p. pt_level p \<in> set chunked) (pm_inputs m)) in
         map (\<lambda>c. \<lparr> pm_output_level = output_level, pm_event_hour = pm_event_hour m, pm_inputs = c \<rparr>)
           (cap_chunks cap [] l0)))"

definition plan_merges_with :: "part_ref list \<Rightarrow> int \<Rightarrow> merge_policy \<Rightarrow> bool \<Rightarrow> planned_merge list" where
  "plan_merges_with live now_ms policy history_open =
     (let merges = plan_merges_uncapped live now_ms policy history_open in
      case mp_max_part_bytes policy of
        None \<Rightarrow> concat (map split_minute merges)
      | Some cap \<Rightarrow>
          concat (map split_minute (concat (map (cap_merge cap now_ms policy history_open) merges))))"

definition plan_merges :: "part_ref list \<Rightarrow> int \<Rightarrow> merge_policy \<Rightarrow> planned_merge list" where
  "plan_merges live now_ms policy = plan_merges_with live now_ms policy True"

definition split_merge :: "planned_merge \<Rightarrow> nat \<Rightarrow> planned_merge list" where
  "split_merge m max_inputs =
     (if pm_output_level m = Day then [m]
      else
        (let unmerged = sort_key (\<lambda>p. (pt_min_time_us p, pt_max_time_us p, pt_part_id p))
               (filter is_unmerged (pm_inputs m)) in
         map (\<lambda>c. \<lparr> pm_output_level = pm_output_level m, pm_event_hour = pm_event_hour m, pm_inputs = c \<rparr>)
           (filter (\<lambda>c. length c \<ge> 2) (chunks (max max_inputs 2) unmerged))))"

section \<open>The overdue signal\<close>

definition hour_due_ms :: "merge_policy \<Rightarrow> int \<times> part_ref list \<Rightarrow> int option" where
  "hour_due_ms policy hp = (case hp of (hour, parts) \<Rightarrow>
     (let l0 = sort (map created (filter (\<lambda>p. pt_level p = L0) parts)) in
      if l0 = [] then None
      else if length l0 \<ge> 2 then
        (let by_age = sat_add_i64 (l0 ! 0) (mp_minute_max_l0_age_ms policy);
             n = max (mp_minute_min_l0_parts policy) 2 - 1;
             by_count = (if n < length l0 then l0 ! n else i64_max) in
         Some (max (l0 ! 1) (min by_age by_count)))
      else
        (let cs = map created (filter is_unmerged parts);
             newest = fold max cs i64_min; oldest = fold min cs i64_max;
             settled = min (sat_add_i64 newest (mp_sealed_remerge_debounce_ms policy))
                           (sat_add_i64 oldest (mp_sealed_remerge_max_defer_ms policy)) in
         Some (max (sat_add_i64 (hour_end_ms hour) (mp_hour_seal_ms policy)) settled))))"

definition l0_merge_overdue_ms :: "part_ref list \<Rightarrow> int \<Rightarrow> merge_policy \<Rightarrow> int" where
  "l0_merge_overdue_ms live now_ms policy =
     (let unsorted = map (\<lambda>p. sat_sub_i64 now_ms (sat_add_i64 (created p) (mp_hour_seal_ms policy)))
            (filter (\<lambda>p. pt_level p = L0 \<and> \<not> pt_sorted p) live);
          by_hour = group_by pt_event_hour
            (filter (\<lambda>p. pt_sorted p \<and> is_hourly (pt_level p)) live);
          hourly = map (sat_sub_i64 now_ms) (List.map_filter (hour_due_ms policy) by_hour) in
      fold max (unsorted @ hourly) 0)"

section \<open>Grouping\<close>

lemma group_by_snoc: "group_by key (xs @ [x]) = push_group key x (group_by key xs)"
  by (simp add: group_by_def)

lemma bwf_group_by: "bwf (group_by key xs)"
  by (induction xs rule: rev_induct) (simp_all add: group_by_def push_group_def bwf_bput)

lemma map_of_group_by:
  "map_of (group_by key xs) k = (case filter (\<lambda>x. key x = k) xs of [] \<Rightarrow> None | ys \<Rightarrow> Some ys)"
proof (induction xs rule: rev_induct)
  case Nil
  then show ?case by (simp add: group_by_def)
next
  case (snoc x xs)
  then show ?case
    by (auto simp: group_by_snoc push_group_def map_of_bput split: list.splits)
qed

lemma group_by_mem: "(k, ys) \<in> set (group_by key xs) \<longleftrightarrow> ys \<noteq> [] \<and> ys = filter (\<lambda>x. key x = k) xs"
  by (auto simp: bwf_in_map_of [OF bwf_group_by] map_of_group_by split: list.splits)

lemma get_list_group_by: "get_list (group_by key xs) k = filter (\<lambda>x. key x = k) xs"
  by (simp add: get_list_def map_of_group_by split: list.splits)

lemma mset_bput_group:
  assumes "bwf m"
  shows "(\<Sum>(k, ys) \<leftarrow> bput k v m. F k ys) + (case map_of m k of Some w \<Rightarrow> F k w | None \<Rightarrow> {#})
     = (\<Sum>(k, ys) \<leftarrow> m. F k ys) + F k v"
  using assms
proof (induction k v m rule: bput.induct)
  case (1 k v)
  then show ?case by simp
next
  case (2 k v j w m)
  then have "map_of m k = None" if "k < j"
    using that by (force simp: bwf_Cons map_of_eq_None_iff)
  then show ?case
    using 2 by (auto simp: bwf_Cons algebra_simps split: option.splits)
qed

lemma sum_group_by:
  fixes G :: "'a \<Rightarrow> 'b multiset"
  shows "(\<Sum>(k, ys) \<leftarrow> group_by key xs. \<Sum>y \<leftarrow> ys. G y) = (\<Sum>x \<leftarrow> xs. G x)"
proof (induction xs rule: rev_induct)
  case Nil
  then show ?case by (simp add: group_by_def)
next
  case (snoc x xs)
  let ?g = "group_by key xs" and ?F = "\<lambda>_ ys. \<Sum>y \<leftarrow> ys. G y"
  have "(\<Sum>(k, ys) \<leftarrow> group_by key (xs @ [x]). ?F k ys) + (\<Sum>y \<leftarrow> get_list ?g (key x). G y)
      = (\<Sum>x \<leftarrow> xs. G x) + (\<Sum>y \<leftarrow> get_list ?g (key x) @ [x]. G y)"
    using mset_bput_group [OF bwf_group_by, where F = ?F, of "key x" "get_list ?g (key x) @ [x]" key xs] snoc
    by (auto simp: group_by_snoc push_group_def get_list_def split: option.splits)
  then show ?case by (simp add: add.assoc)
qed

lemma sum_singletons: "(\<Sum>x \<leftarrow> xs. {#x#}) = mset xs"
  by (induction xs) auto

lemma mset_group_by: "mset (concat (map snd (group_by key xs))) = mset xs"
  using sum_group_by [of "\<lambda>x. {#x#}" key xs]
  by (simp add: mset_concat sum_singletons case_prod_unfold comp_def)

lemma sum_list_subseteq:
  fixes f g :: "'a \<Rightarrow> 'b multiset"
  shows "(\<And>x. x \<in> set xs \<Longrightarrow> f x \<subseteq># g x) \<Longrightarrow> (\<Sum>x \<leftarrow> xs. f x) \<subseteq># (\<Sum>x \<leftarrow> xs. g x)"
  by (induction xs) (auto intro: subset_mset.add_mono)

lemma sum_list_split:
  fixes f :: "'a \<Rightarrow> 'b multiset"
  shows "(\<Sum>x \<leftarrow> xs. f x) = (\<Sum>x \<leftarrow> filter P xs. f x) + (\<Sum>x \<leftarrow> filter (\<lambda>x. \<not> P x) xs. f x)"
  by (induction xs) (auto simp: add.assoc add.left_commute)

lemma sum_get_list:
  fixes f :: "'a list \<Rightarrow> 'b multiset"
  assumes "bwf m" "distinct ks" "f [] = {#}"
  shows "(\<Sum>k \<leftarrow> ks. f (get_list m k)) \<subseteq># (\<Sum>(k, xs) \<leftarrow> m. f xs)"
  using assms(1,2)
proof (induction m arbitrary: ks)
  case Nil
  then show ?case using assms(3) by (simp add: get_list_def)
next
  case (Cons a m)
  obtain j ys where a: "a = (j, ys)" by (cases a)
  have m: "bwf m" "map_of m j = None"
    using Cons.prems by (auto simp: a bwf_Cons map_of_eq_None_iff)
  have sum: "(\<Sum>k \<leftarrow> us. f (get_list ((j, ys) # m) k)) = (\<Sum>k \<leftarrow> us. f (get_list m k))" if "j \<notin> set us" for us
    using that by (induction us) (auto simp: get_list_def)
  show ?case
  proof (cases "j \<in> set ks")
    case False
    then show ?thesis
      using Cons.IH [OF m(1) Cons.prems(2)] by (simp add: sum a subset_mset.add_increasing)
  next
    case True
    then obtain us vs where ks: "ks = us @ j # vs" by (meson split_list)
    then have "j \<notin> set us" "j \<notin> set vs" "distinct (us @ vs)" using Cons.prems(2) by auto
    then show ?thesis
      using Cons.IH [OF m(1), of "us @ vs"] sum [of us] sum [of vs]
      by (simp add: ks a add.left_commute) (simp add: get_list_def)
  qed
qed

lemma distinct_dedup: "sorted xs \<Longrightarrow> distinct (remdups_adj xs)"
  by (induction xs rule: remdups_adj.induct) (auto simp: order.order_iff_strict)

section \<open>Planned merges use each live part at most once\<close>

lemma plan_hour_subset: "(\<Sum>m \<leftarrow> plan_hour now policy open hp. mset (pm_inputs m)) \<subseteq># mset (snd hp)"
  by (cases hp) (auto simp: plan_hour_def Let_def)

lemma plan_hour_lone: "lone_hour hp \<Longrightarrow> plan_hour now policy open hp = []"
  by (cases hp; cases "snd hp") (auto simp: plan_hour_def lone_hour_def Let_def)

lemma plan_day_subset:
  "(\<Sum>m \<leftarrow> plan_day now policy hbd days d. mset (pm_inputs m))
     \<subseteq># mset (get_list days d) + (\<Sum>hp \<leftarrow> filter lone_hour (get_list hbd d). mset (snd hp))"
proof -
  have "filter lone_hour hs = hs" if "list_all lone_hour hs" for hs
    using that by (simp add: filter_id_conv list_all_iff)
  then show ?thesis
    by (auto simp: plan_day_def Let_def mset_concat comp_def)
qed

lemma plan_uncapped_subset:
  "mset (concat (map pm_inputs (plan_merges_uncapped live now policy open))) \<subseteq># mset live"
proof -
  define usable where "usable = filter pt_sorted live"
  define dayp where "dayp = filter (\<lambda>p. pt_level p = Day) usable"
  define hourp where "hourp = filter (\<lambda>p. pt_level p \<noteq> Day) usable"
  define days where "days = group_by day_of_part dayp"
  define byh where "byh = group_by pt_event_hour hourp"
  define hbd where "hbd = group_by (\<lambda>hp. event_day_of (fst hp * HOUR_US)) byh"
  define keys where "keys = remdups_adj (sort (map fst hbd @ map fst days))"
  let ?S = "\<lambda>ms. \<Sum>m \<leftarrow> ms. mset (pm_inputs m)"
  let ?H = "concat (map (plan_hour now policy open) byh)" and ?D = "concat (map (plan_day now policy hbd days) keys)"
  have sum_concat: "?S (concat (map f xs)) = (\<Sum>x \<leftarrow> xs. ?S (f x))" for f and xs :: "'x list"
    by (induction xs) auto
  have zero: "(\<Sum>x \<leftarrow> filter lone_hour xs. ?S (plan_hour now policy open x)) = {#}" for xs
    by (induction xs) (simp_all add: plan_hour_lone)
  have "?S ?H \<subseteq># (\<Sum>hp \<leftarrow> filter (\<lambda>x. \<not> lone_hour x) byh. mset (snd hp))"
  proof -
    have "?S ?H = (\<Sum>hp \<leftarrow> filter (\<lambda>x. \<not> lone_hour x) byh. ?S (plan_hour now policy open hp))"
      unfolding sum_concat by (subst sum_list_split [of _ _ lone_hour]) (simp add: zero)
    then show ?thesis by (auto intro!: sum_list_subseteq plan_hour_subset)
  qed
  moreover have "?S ?D \<subseteq># mset dayp + (\<Sum>hp \<leftarrow> filter lone_hour byh. mset (snd hp))"
  proof -
    have "?S ?D \<subseteq># (\<Sum>d \<leftarrow> keys. mset (get_list days d)) + (\<Sum>d \<leftarrow> keys. \<Sum>hp \<leftarrow> filter lone_hour (get_list hbd d). mset (snd hp))"
      unfolding sum_concat sum_list_addf [symmetric] by (intro sum_list_subseteq plan_day_subset)
    also have "\<dots> \<subseteq># (\<Sum>(d, ps) \<leftarrow> days. mset ps) + (\<Sum>(d, hs) \<leftarrow> hbd. \<Sum>hp \<leftarrow> filter lone_hour hs. mset (snd hp))"
      by (intro subset_mset.add_mono sum_get_list)
        (auto simp: days_def hbd_def keys_def bwf_group_by distinct_dedup)
    also have "(\<Sum>(d, ps) \<leftarrow> days. mset ps) = mset dayp"
      using mset_group_by [of day_of_part dayp] by (simp add: days_def mset_concat case_prod_unfold comp_def)
    also have "(\<Sum>(d, hs) \<leftarrow> hbd. \<Sum>hp \<leftarrow> filter lone_hour hs. mset (snd hp)) = (\<Sum>hp \<leftarrow> filter lone_hour byh. mset (snd hp))"
    proof -
      have f: "(\<Sum>x \<leftarrow> filter lone_hour xs. mset (snd x)) = (\<Sum>x \<leftarrow> xs. if lone_hour x then mset (snd x) else {#})"
        for xs :: "(int \<times> part_ref list) list" by (induction xs) auto
      show ?thesis unfolding f hbd_def by (rule sum_group_by)
    qed
    finally show ?thesis .
  qed
  ultimately have "?S ?H + ?S ?D \<subseteq># (\<Sum>hp \<leftarrow> filter (\<lambda>x. \<not> lone_hour x) byh. mset (snd hp))
      + (mset dayp + (\<Sum>hp \<leftarrow> filter lone_hour byh. mset (snd hp)))"
    by (rule subset_mset.add_mono)
  also have "\<dots> = (\<Sum>hp \<leftarrow> byh. mset (snd hp)) + mset dayp"
    using sum_list_split [of "\<lambda>hp. mset (snd hp)" byh lone_hour] by (simp only: ac_simps)
  also have "(\<Sum>hp \<leftarrow> byh. mset (snd hp)) = mset hourp"
    using mset_group_by [of pt_event_hour hourp] by (simp add: byh_def mset_concat comp_def)
  also have "mset hourp + mset dayp = mset usable"
    by (simp add: hourp_def dayp_def)
  also have "\<dots> \<subseteq># mset live" by (simp add: usable_def)
  finally have total: "?S ?H + ?S ?D \<subseteq># mset live" .
  have "plan_merges_uncapped live now policy open = (if mp_day_merges policy then ?H @ ?D else ?H)"
    by (simp add: plan_merges_uncapped_def Let_def usable_def dayp_def hourp_def days_def byh_def hbd_def keys_def)
  then have "mset (concat (map pm_inputs (plan_merges_uncapped live now policy open)))
      = (if mp_day_merges policy then ?S ?H + ?S ?D else ?S ?H)"
    by (simp add: mset_concat comp_def)
  moreover have "?S ?H \<subseteq># mset live"
    using total subset_mset.order_trans mset_subset_eq_add_left by blast
  ultimately show ?thesis using total by simp
qed

lemma split_minute_subset: "(\<Sum>x \<leftarrow> split_minute m. mset (pm_inputs x)) \<subseteq># mset (pm_inputs m)"
proof -
  have f: "(\<Sum>c \<leftarrow> filter P cs. mset c) \<subseteq># (\<Sum>c \<leftarrow> cs. mset c)" for P and cs :: "part_ref list list"
    by (induction cs) (auto intro: subset_mset.add_mono subset_mset.add_increasing)
  have "(\<Sum>c \<leftarrow> chunks MAX_MINUTE_MERGE_INPUTS (pm_inputs m). mset c) = mset (pm_inputs m)"
    using concat_chunks [of MAX_MINUTE_MERGE_INPUTS "pm_inputs m"]
    by (simp add: MAX_MINUTE_MERGE_INPUTS_def flip: mset_concat)
  then show ?thesis
    using f [of "\<lambda>c. 2 \<le> length c" "chunks MAX_MINUTE_MERGE_INPUTS (pm_inputs m)"]
    by (simp add: split_minute_def comp_def)
qed

lemma cap_chunks_subset: "(\<Sum>c \<leftarrow> cap_chunks cap chunk rest. mset c) \<subseteq># mset chunk + mset rest"
proof (induction cap chunk rest rule: cap_chunks.induct)
  case (1 cap chunk)
  then show ?case by simp
next
  case (2 cap chunk part rest)
  show ?case
  proof (cases "cap_fits cap (chunk @ [part])")
    case True
    then show ?thesis using 2 by simp
  next
    case False
    have "(\<Sum>c \<leftarrow> (if 2 \<le> length chunk then [chunk] else []). mset c) \<subseteq># mset chunk" by simp
    from subset_mset.add_mono [OF this "2.IH"(2) [OF False]] show ?thesis
      using False by simp
  qed
qed

lemma cap_merge_subset: "(\<Sum>x \<leftarrow> cap_merge cap now policy open m. mset (pm_inputs x)) \<subseteq># mset (pm_inputs m)"
proof -
  have "(\<Sum>c \<leftarrow> cap_chunks cap [] (sort_key k (filter P xs)). mset c) \<subseteq># mset xs"
    for k :: "part_ref \<Rightarrow> int \<times> int" and P xs
    using cap_chunks_subset [of cap "[]" "sort_key k (filter P xs)"]
    by (auto intro: subset_mset.order_trans)
  then show ?thesis by (auto simp: cap_merge_def Let_def comp_def)
qed

lemma sum_concat_subset:
  assumes "\<And>m. (\<Sum>x \<leftarrow> f m. mset (pm_inputs x)) \<subseteq># mset (pm_inputs m)"
  shows "(\<Sum>x \<leftarrow> concat (map f ms). mset (pm_inputs x)) \<subseteq># (\<Sum>m \<leftarrow> ms. mset (pm_inputs m))"
  by (induction ms) (auto intro: subset_mset.add_mono assms)

text \<open>
  C10: one planning round never uses a live part twice: the inputs of all planned merges together,
  counted with multiplicity, are among the live parts, with or without the byte cap, day merges and
  an open history lane. So the merges of a round can all commit, in any order.
\<close>

theorem plan_merges_disjoint:
  "mset (concat (map pm_inputs (plan_merges_with live now policy history_open))) \<subseteq># mset live"
proof -
  let ?u = "plan_merges_uncapped live now policy history_open"
  let ?S = "\<lambda>ms. \<Sum>m \<leftarrow> ms. mset (pm_inputs m)"
  have "?S (plan_merges_with live now policy history_open) \<subseteq># ?S ?u"
    unfolding plan_merges_with_def Let_def
    by (cases "mp_max_part_bytes policy")
      (auto intro: sum_concat_subset split_minute_subset
        subset_mset.order_trans [OF sum_concat_subset [OF split_minute_subset] sum_concat_subset [OF cap_merge_subset]])
  also have "\<dots> \<subseteq># mset live"
    using plan_uncapped_subset [of live now policy history_open] by (simp add: mset_concat comp_def)
  finally show ?thesis by (simp add: mset_concat comp_def)
qed

section \<open>Shape of a planned merge\<close>

text \<open>What a merge may look like: sorted inputs of one event hour below the output's rank for
  hourly outputs, and work that gets done: two inputs, or one that rises a level.\<close>

definition merge_shape :: "planned_merge \<Rightarrow> bool" where
  "merge_shape m \<longleftrightarrow>
     list_all pt_sorted (pm_inputs m)
     \<and> (pm_output_level m \<noteq> Day \<longrightarrow>
          list_all (\<lambda>p. pt_event_hour p = pm_event_hour m \<and> pt_level p \<le> pm_output_level m) (pm_inputs m))
     \<and> (pm_output_level m = Minute \<longrightarrow> list_all (\<lambda>p. pt_level p = L0) (pm_inputs m))
     \<and> (length (pm_inputs m) \<ge> 2
        \<or> (\<exists>p. pm_inputs m = [p] \<and> pt_level p < pm_output_level m))"

lemma group_hour_facts:
  assumes "(h, ps) \<in> set (group_by pt_event_hour (filter (\<lambda>p. pt_level p \<noteq> Day) (filter pt_sorted live)))"
  shows "list_all (\<lambda>p. pt_sorted p \<and> pt_event_hour p = h \<and> pt_level p \<noteq> Day) ps" "ps \<noteq> []"
  using assms by (auto simp: group_by_mem list_all_iff)

lemma level_cases_le: "l \<noteq> Day \<Longrightarrow> l \<le> Hour" "l \<noteq> Day \<Longrightarrow> l \<noteq> Hour \<Longrightarrow> l < Hour" "Hour < Day"
  by (cases l; simp add: less_eq_level_def less_level_def)+

lemma plan_hour_shape:
  assumes "list_all (\<lambda>p. pt_sorted p \<and> pt_event_hour p = h \<and> pt_level p \<noteq> Day) ps" "ps \<noteq> []"
    and "m \<in> set (plan_hour now policy open (h, ps))"
  shows "merge_shape m"
proof -
  have single: "\<exists>p. ps = [p] \<and> pt_level p < Hour"
    if some: "filter (\<lambda>p. pt_level p \<noteq> Hour) ps \<noteq> [] \<or> Suc 0 < length (filter (\<lambda>p. pt_level p = Hour) ps)"
      and few: "\<not> 2 \<le> length ps"
  proof -
    obtain p where "ps = [p]" using few assms(2) by (cases ps; cases "tl ps") auto
    then show ?thesis using some assms(1) level_cases_le by (auto split: if_splits)
  qed
  consider
    (hour) "m = \<lparr> pm_output_level = Hour, pm_event_hour = h, pm_inputs = ps \<rparr>"
      "filter (\<lambda>p. pt_level p \<noteq> Hour) ps \<noteq> [] \<or> Suc 0 < length (filter (\<lambda>p. pt_level p = Hour) ps)"
  | (minute) "m = \<lparr> pm_output_level = Minute, pm_event_hour = h, pm_inputs = filter (\<lambda>p. pt_level p = L0) ps \<rparr>"
      "2 \<le> length (filter (\<lambda>p. pt_level p = L0) ps)"
    using assms(3) by (auto simp: plan_hour_def Let_def split: if_splits)
  then show ?thesis
  proof cases
    case hour
    then show ?thesis
      using assms(1) single level_cases_le(1) by (auto simp: merge_shape_def list_all_iff)
  next
    case minute
    then show ?thesis
      using assms(1) by (simp add: merge_shape_def list_all_iff less_eq_level_def)
  qed
qed

lemma plan_day_shape:
  assumes "m \<in> set (plan_day now policy hbd days d)"
    and "\<And>p. p \<in> set (get_list days d) \<Longrightarrow> pt_sorted p \<and> pt_level p = Day"
    and "\<And>hp p. hp \<in> set (get_list hbd d) \<Longrightarrow> p \<in> set (snd hp) \<Longrightarrow> pt_sorted p"
  shows "merge_shape m"
proof -
  let ?hs = "get_list hbd d" and ?ds = "get_list days d"
  have m: "m = \<lparr> pm_output_level = Day, pm_event_hour = wrap_i32 (d * 24), pm_inputs = ?ds @ concat (map snd ?hs) \<rparr>"
    "list_all lone_hour ?hs" "?hs \<noteq> [] \<or> 1 < length ?ds"
    using assms(1) by (auto simp: plan_day_def Let_def split: if_splits)
  have "length (?ds @ concat (map snd ?hs)) \<ge> 2
      \<or> (\<exists>p. ?ds @ concat (map snd ?hs) = [p] \<and> pt_level p < Day)"
  proof (cases ?hs)
    case Nil
    then show ?thesis using m(3) by simp
  next
    case (Cons hp hs)
    then obtain p where p: "snd hp = [p]" "pt_level p = Hour"
      using m(2) by (auto simp: lone_hour_def length_Suc_conv)
    show ?thesis
    proof (cases "?ds = [] \<and> hs = []")
      case True
      then show ?thesis using Cons p level_cases_le(3) by auto
    next
      case False
      have "hs \<noteq> [] \<longrightarrow> 1 \<le> length (concat (map snd hs))"
        using m(2) Cons by (cases hs) (auto simp: lone_hour_def)
      then have "1 \<le> length ?ds + length (concat (map snd hs))"
        using False by (cases "?ds = []") (auto simp: Suc_le_eq simp del: length_concat)
      then show ?thesis using Cons p by (simp del: length_concat)
    qed
  qed
  moreover have "list_all pt_sorted (?ds @ concat (map snd ?hs))"
    using assms(2,3) by (auto simp: list_all_iff)
  ultimately show ?thesis
    unfolding m(1) merge_shape_def by simp
qed

lemma plan_uncapped_shape:
  assumes "m \<in> set (plan_merges_uncapped live now policy open)"
  shows "merge_shape m"
proof -
  let ?usable = "filter pt_sorted live"
  let ?days = "group_by day_of_part (filter (\<lambda>p. pt_level p = Day) ?usable)"
  let ?byh = "group_by pt_event_hour (filter (\<lambda>p. pt_level p \<noteq> Day) ?usable)"
  let ?hbd = "group_by (\<lambda>hp. event_day_of (fst hp * HOUR_US)) ?byh"
  have days: "pt_sorted p \<and> pt_level p = Day" if "p \<in> set (get_list ?days d)" for p d
    using that by (auto simp: get_list_group_by)
  have hours: "pt_sorted p" if "hp \<in> set (get_list ?hbd d)" "p \<in> set (snd hp)" for hp p d
  proof -
    have "hp \<in> set ?byh"
      using that(1) by (auto simp: get_list_group_by)
    then show ?thesis
      using that(2) group_hour_facts(1) [of "fst hp" "snd hp" live] by (auto simp: list_all_iff)
  qed
  have "(\<exists>hp \<in> set ?byh. m \<in> set (plan_hour now policy open hp)) \<or> (\<exists>d. m \<in> set (plan_day now policy ?hbd ?days d))"
    using assms by (auto simp: plan_merges_uncapped_def Let_def split: if_splits)
  then show ?thesis
  proof (elim disjE bexE exE)
    fix hp assume hp: "hp \<in> set ?byh" "m \<in> set (plan_hour now policy open hp)"
    have "(fst hp, snd hp) \<in> set ?byh" using hp(1) by simp
    note g = group_hour_facts [OF this]
    show ?thesis by (rule plan_hour_shape [OF g, of m now policy "open"]) (use hp(2) in simp)
  next
    fix d assume "m \<in> set (plan_day now policy ?hbd ?days d)"
    then show ?thesis by (rule plan_day_shape) (use days hours in blast)+
  qed
qed

lemma split_minute_shape:
  assumes "merge_shape m" "x \<in> set (split_minute m)"
  shows "merge_shape x"
    and "pm_output_level x = Minute \<Longrightarrow> 2 \<le> length (pm_inputs x) \<and> length (pm_inputs x) \<le> MAX_MINUTE_MERGE_INPUTS"
proof -
  have sub: "set c \<subseteq> set (pm_inputs m)" if "c \<in> set (chunks MAX_MINUTE_MERGE_INPUTS (pm_inputs m))" for c
    using that concat_chunks [of MAX_MINUTE_MERGE_INPUTS "pm_inputs m"]
    by (auto simp: MAX_MINUTE_MERGE_INPUTS_def) (metis UN_I set_concat)
  show "merge_shape x"
    using assms sub by (fastforce simp: split_minute_def merge_shape_def list_all_iff split: if_splits)
  show "2 \<le> length (pm_inputs x) \<and> length (pm_inputs x) \<le> MAX_MINUTE_MERGE_INPUTS" if "pm_output_level x = Minute"
    using assms(2) that chunks_length [of _ MAX_MINUTE_MERGE_INPUTS "pm_inputs m"]
    by (auto simp: split_minute_def split: if_splits)
qed

lemma cap_chunks_mem:
  assumes "c \<in> set (cap_chunks cap chunk rest)" "length chunk \<ge> 2 \<Longrightarrow> cap_fits cap chunk"
  shows "2 \<le> length c \<and> cap_fits cap c \<and> set c \<subseteq> set chunk \<union> set rest"
  using assms
proof (induction cap chunk rest rule: cap_chunks.induct)
  case (1 cap chunk)
  then show ?case by (auto split: if_splits)
next
  case (2 cap chunk part rest)
  then show ?case by (cases "cap_fits cap (chunk @ [part])") (auto split: if_splits)
qed

lemma cap_merge_shape:
  assumes "merge_shape m" "x \<in> set (cap_merge cap now policy open m)"
  shows "merge_shape x \<and> cap_fits cap (pm_inputs x)"
proof (cases "x = m \<and> cap_fits cap (pm_inputs m)")
  case True
  then show ?thesis using assms by simp
next
  case False
  then obtain lv P c where x: "x = \<lparr> pm_output_level = lv, pm_event_hour = pm_event_hour m, pm_inputs = c \<rparr>"
    and c: "c \<in> set (cap_chunks cap [] (sort_key (\<lambda>p. (pt_min_time_us p, pt_max_time_us p)) (filter P (pm_inputs m))))"
    and day: "pm_output_level m \<noteq> Day"
    and lv: "lv = Hour \<and> pm_output_level m = Hour \<or> lv = Minute \<and> P = (\<lambda>p. pt_level p \<in> set [L0])"
    using assms(2) by (auto simp: cap_merge_def Let_def split: if_splits)
  have mem: "2 \<le> length c" "cap_fits cap c" "\<And>p. p \<in> set c \<Longrightarrow> p \<in> set (pm_inputs m) \<and> P p"
    using cap_chunks_mem [OF c] by auto
  then show ?thesis
    using assms(1) day lv unfolding x merge_shape_def
    by (auto simp: list_all_iff less_eq_level_def)
qed


section \<open>The cap holds\<close>

lemma data_sum_mono:
  assumes "mset xs \<subseteq># mset ys"
  shows "sum_list (map pt_data_bytes xs) \<le> sum_list (map pt_data_bytes ys)"
proof -
  obtain C where "mset ys = mset xs + C" using assms by (auto simp: mset_subset_eq_exists_conv)
  then have "sum_mset (image_mset pt_data_bytes (mset ys))
      = sum_mset (image_mset pt_data_bytes (mset xs)) + sum_mset (image_mset pt_data_bytes C)" by simp
  then show ?thesis by (simp flip: sum_mset_sum_list)
qed

lemma estimated_mono:
  assumes "mset xs \<subseteq># mset ys" "sum_list (map pt_data_bytes ys) < 2 ^ 64"
  shows "estimated_part_bytes xs \<le> estimated_part_bytes ys"
proof -
  let ?a = "sum_list (map pt_data_bytes xs)" and ?b = "sum_list (map pt_data_bytes ys)"
  have "?a \<le> ?b" by (rule data_sum_mono) fact
  then have "sat_mul_u64 ?a 35 div 100 \<le> sat_mul_u64 ?b 35 div 100"
    by (intro div_le_mono) (auto simp: sat_mul_u64_def)
  then show ?thesis
    using assms(2) \<open>?a \<le> ?b\<close>
    by (auto simp: estimated_part_bytes_def sum_u64_def Let_def sat_add_u64_def)
qed

lemma member_subset: "x \<in> set ms \<Longrightarrow> mset (pm_inputs x) \<subseteq># (\<Sum>m \<leftarrow> ms. mset (pm_inputs m))"
  by (induction ms) (auto intro: subset_mset.add_increasing subset_mset.add_increasing2)

text \<open>
  With a byte cap configured, every planned merge is estimated to stay within it, as long as the
  live data itself is below 2^64 bytes. This holds after chunking an hour that is over the cap and
  after bounding minute jobs.
\<close>

lemma plan_merges_capped:
  assumes "mp_max_part_bytes policy = Some cap" "sum_list (map pt_data_bytes live) < 2 ^ 64"
    and "m \<in> set (plan_merges_with live now policy history_open)"
  shows "estimated_part_bytes (pm_inputs m) \<le> cap"
proof -
  let ?S = "\<lambda>ms. \<Sum>m \<leftarrow> ms. mset (pm_inputs m)"
  obtain v u where v: "v \<in> set (plan_merges_uncapped live now policy history_open)"
    and u: "u \<in> set (cap_merge cap now policy history_open v)" and m: "m \<in> set (split_minute u)"
    using assms(1,3) unfolding plan_merges_with_def Let_def by auto
  have "cap_fits cap (pm_inputs u)"
    using cap_merge_shape [OF plan_uncapped_shape [OF v] u] by simp
  moreover have "mset (pm_inputs m) \<subseteq># mset (pm_inputs u)"
    using member_subset [OF m] split_minute_subset subset_mset.order_trans by blast
  moreover have "mset (pm_inputs u) \<subseteq># mset live"
  proof -
    have "mset (pm_inputs u) \<subseteq># mset (pm_inputs v)"
      using member_subset [OF u] cap_merge_subset subset_mset.order_trans by blast
    also have "\<dots> \<subseteq># mset live"
      using member_subset [OF v] plan_uncapped_subset [of live now policy history_open]
      by (auto simp: mset_concat comp_def intro: subset_mset.order_trans)
    finally show ?thesis .
  qed
  ultimately show ?thesis
    using estimated_mono [of "pm_inputs m" "pm_inputs u"] data_sum_mono [of "pm_inputs u" live] assms(2)
    by (simp add: cap_fits_def)
qed

section \<open>Splitting a merge\<close>

text \<open>
  Splitting a merge that does not fit memory gives chunks of 2 to \<open>max(max_inputs, 2)\<close> unmerged
  inputs with the output level and hour of the merge; together they use only inputs of the merge,
  each at most once, never an hour part again, and leave out at most one unmerged part. A day merge
  is not split.
\<close>

lemma split_merge_chunks:
  assumes "pm_output_level m \<noteq> Day"
  shows "(\<forall>c \<in> set (split_merge m k). pm_output_level c = pm_output_level m \<and> pm_event_hour c = pm_event_hour m
        \<and> 2 \<le> length (pm_inputs c) \<and> length (pm_inputs c) \<le> max k 2 \<and> list_all is_unmerged (pm_inputs c))
    \<and> (\<Sum>c \<leftarrow> split_merge m k. mset (pm_inputs c)) \<subseteq># filter_mset is_unmerged (mset (pm_inputs m))
    \<and> length (filter is_unmerged (pm_inputs m)) \<le> Suc (sum_list (map (\<lambda>c. length (pm_inputs c)) (split_merge m k)))"
proof -
  define us where "us = sort_key (\<lambda>p. (pt_min_time_us p, pt_max_time_us p, pt_part_id p)) (filter is_unmerged (pm_inputs m))"
  define cs where "cs = chunks (max k 2) us"
  have split: "split_merge m k = map (\<lambda>c. \<lparr> pm_output_level = pm_output_level m, pm_event_hour = pm_event_hour m, pm_inputs = c \<rparr>)
      (filter (\<lambda>c. 2 \<le> length c) cs)"
    using assms by (simp add: split_merge_def us_def cs_def Let_def)
  have cat: "concat cs = us" by (simp add: cs_def concat_chunks)
  have mem: "length c \<le> max k 2 \<and> set c \<subseteq> set us" if "c \<in> set cs" for c
  proof -
    have "set c \<subseteq> set us" unfolding cat [symmetric] using that by auto
    then show ?thesis using that chunks_length [of c "max k 2" us] by (simp add: cs_def)
  qed
  have "(\<Sum>c \<leftarrow> filter P cs. mset c) \<subseteq># mset us" for P
    unfolding cat [symmetric] mset_concat by (induction cs) (auto intro: subset_mset.add_mono subset_mset.add_increasing)
  then have sub: "(\<Sum>c \<leftarrow> split_merge m k. mset (pm_inputs c)) \<subseteq># filter_mset is_unmerged (mset (pm_inputs m))"
    unfolding split by (simp add: comp_def us_def)
  have drop: "length (concat (chunks n xs)) \<le> Suc (sum_list (map length (filter (\<lambda>c. 2 \<le> length c) (chunks n xs))))"
    if "2 \<le> n" for n and xs :: "part_ref list"
    using that
  proof (induction n xs rule: chunks.induct)
    case (1 n xs)
    show ?case
    proof (cases "xs = []")
      case False
      have c: "chunks n xs = take n xs # chunks n (drop n xs)"
        using False "1.prems" by (subst chunks.simps) simp
      show ?thesis
      proof (cases "2 \<le> length xs")
        case True
        then show ?thesis using 1 False unfolding c by auto
      next
        case short: False
        then have "drop n xs = []" using "1.prems" by simp
        then show ?thesis using short unfolding c by (simp add: chunks.simps)
      qed
    qed (simp add: chunks.simps)
  qed
  have "length us \<le> Suc (sum_list (map (\<lambda>c. length (pm_inputs c)) (split_merge m k)))"
    using drop [of "max k 2" us] cat unfolding split cs_def by (simp add: comp_def)
  moreover have "list_all is_unmerged c" if "c \<in> set cs" for c
    using mem [OF that] by (auto simp: us_def list_all_iff)
  ultimately show ?thesis
    using sub mem by (auto simp: split us_def)
qed

section \<open>An overdue part is planned\<close>

lemma fold_max_ge: "(y :: int) \<le> fold max xs y" and fold_max_ge_mem: "x \<in> set xs \<Longrightarrow> (x :: int) \<le> fold max xs y"
proof -
  have 1: "y \<le> fold max xs y" for xs and y :: int
    by (induction xs arbitrary: y) (auto intro: order.trans [OF max.cobounded2])
  show "y \<le> fold max xs y" by (rule 1)
  show "x \<in> set xs \<Longrightarrow> x \<le> fold max xs y"
    by (induction xs arbitrary: y) (auto intro: order.trans [OF max.cobounded1 1])
qed

lemma fold_max_mem: "fold max xs (y :: int) = y \<or> fold max xs y \<in> set xs"
proof (induction xs arbitrary: y)
  case (Cons x xs)
  show ?case using Cons [of "max x y"] by (auto simp: max_def split: if_splits)
qed simp

lemma fold_min_le: "fold min xs (y :: int) \<le> y" and fold_min_le_mem: "x \<in> set xs \<Longrightarrow> fold min xs y \<le> (x :: int)"
proof -
  have 1: "fold min xs y \<le> y" for xs and y :: int
    by (induction xs arbitrary: y) (auto intro: order.trans [OF _ min.cobounded2])
  show "fold min xs y \<le> y" by (rule 1)
  show "x \<in> set xs \<Longrightarrow> fold min xs y \<le> x"
    by (induction xs arbitrary: y) (auto intro: order.trans [OF 1 min.cobounded1])
qed

lemma sat_add_past: "sat_add_i64 a b < now \<Longrightarrow> now \<le> i64_max \<Longrightarrow> a + b < now"
  by (auto simp: sat_add_i64_def)

lemma sat_sub_past: "0 < sat_sub_i64 now due \<Longrightarrow> due < now"
  by (auto simp: sat_sub_i64_def i64_min_def i64_max_def)

lemma sort_hd_min: "xs \<noteq> [] \<Longrightarrow> x \<in> set xs \<Longrightarrow> sort xs ! 0 \<le> (x :: int)"
  by (metis in_set_conv_nth le0 set_sort sorted_nth_mono sorted_sort)

lemma max_past: "max a b < (now :: int) \<Longrightarrow> a < now"
  by simp

lemma max_min_past: "max a (min b c) < (now :: int) \<Longrightarrow> b < now \<or> c < now"
  by (auto simp: min_less_iff_disj)

lemma overdue_hour_planned:
  assumes due: "hour_due_ms policy (h, ps) = Some due" "due < now" "now \<le> i64_max"
    and levels: "list_all (\<lambda>p. pt_level p \<noteq> Day) ps" and two: "2 \<le> mp_minute_min_l0_parts policy"
  shows "\<exists>m \<in> set (plan_hour now policy open (h, ps)). \<exists>p \<in> set (pm_inputs m). pt_level p = L0"
proof -
  let ?l0 = "filter (\<lambda>p. pt_level p = L0) ps" and ?s = "sort (map created (filter (\<lambda>p. pt_level p = L0) ps))"
  have ne: "?l0 \<noteq> []" using due(1) by (auto simp: hour_due_ms_def Let_def)
  then obtain p where p: "p \<in> set ps" "pt_level p = L0" by (metis (mono_tags, lifting) filter_False)
  have un: "filter is_unmerged ps = filter (\<lambda>p. pt_level p \<noteq> Hour) ps"
    using levels by (intro filter_cong refl) (auto simp: is_unmerged_def list_all_iff intro: level.exhaust)
  have len: "length ?s = length ?l0" by simp
  then have "?s \<noteq> []" using ne by (metis length_0_conv)
  note sl = len this
  show ?thesis
  proof (cases "2 \<le> length ?l0")
    case True
    have "length ?l0 \<ge> mp_minute_min_l0_parts policy
        \<or> now - fold min (map created ?l0) (created (hd ?l0)) \<ge> mp_minute_max_l0_age_ms policy"
    proof -
      let ?n = "max (mp_minute_min_l0_parts policy) 2 - 1"
      have "sat_add_i64 (?s ! 0) (mp_minute_max_l0_age_ms policy) < now
          \<or> (if ?n < length ?s then ?s ! ?n else i64_max) < now"
      proof (rule max_min_past)
        show "max (?s ! 1) (min (sat_add_i64 (?s ! 0) (mp_minute_max_l0_age_ms policy))
            (if ?n < length ?s then ?s ! ?n else i64_max)) < now"
          using due(1,2) True sl(2) unfolding hour_due_ms_def Let_def prod.case len [symmetric]
          by (simp only: if_not_P if_P option.inject if_True if_False)
      qed
      then show ?thesis
      proof
        assume "sat_add_i64 (?s ! 0) (mp_minute_max_l0_age_ms policy) < now"
        then have "?s ! 0 + mp_minute_max_l0_age_ms policy < now" using due(3) by (rule sat_add_past)
        moreover have "?s ! 0 \<in> set ?s"
          by (rule nth_mem) (rule length_greater_0_conv [THEN iffD2], rule sl(2))
        then have "?s ! 0 \<in> set (map created ?l0)" by (simp only: set_sort)
        then have "fold min (map created ?l0) (created (hd ?l0)) \<le> ?s ! 0" by (rule fold_min_le_mem)
        ultimately show ?thesis by linarith
      next
        assume "(if ?n < length ?s then ?s ! ?n else i64_max) < now"
        then show ?thesis using due(3) by (auto split: if_splits)
      qed
    qed
    then have "plan_hour now policy open (h, ps) = [\<lparr> pm_output_level = Hour, pm_event_hour = h, pm_inputs = ps \<rparr>]
        \<or> plan_hour now policy open (h, ps) = [\<lparr> pm_output_level = Minute, pm_event_hour = h, pm_inputs = ?l0 \<rparr>]"
      using True by (simp add: plan_hour_def Let_def)
    then show ?thesis using p by (elim disjE) (simp, blast)+
  next
    case False
    let ?cs = "map created (filter (\<lambda>p. pt_level p \<noteq> Hour) ps)"
    have past: "sat_add_i64 (hour_end_ms h) (mp_hour_seal_ms policy) < now"
      "sat_add_i64 (fold max ?cs i64_min) (mp_sealed_remerge_debounce_ms policy) < now
       \<or> sat_add_i64 (fold min ?cs i64_max) (mp_sealed_remerge_max_defer_ms policy) < now"
    proof -
      have "max (sat_add_i64 (hour_end_ms h) (mp_hour_seal_ms policy))
          (min (sat_add_i64 (fold max ?cs i64_min) (mp_sealed_remerge_debounce_ms policy))
            (sat_add_i64 (fold min ?cs i64_max) (mp_sealed_remerge_max_defer_ms policy))) < now"
        using due(1,2) False sl(2) unfolding hour_due_ms_def Let_def prod.case un len [symmetric]
        by (simp only: if_not_P if_P option.inject if_True if_False)
      then show "sat_add_i64 (hour_end_ms h) (mp_hour_seal_ms policy) < now"
        "sat_add_i64 (fold max ?cs i64_min) (mp_sealed_remerge_debounce_ms policy) < now
         \<or> sat_add_i64 (fold min ?cs i64_max) (mp_sealed_remerge_max_defer_ms policy) < now"
        by (rule max_past, rule max_min_past)
    qed
    have "fold max ?cs i64_min + mp_sealed_remerge_debounce_ms policy < now
        \<or> fold min ?cs i64_max + mp_sealed_remerge_max_defer_ms policy < now"
      using past(2) sat_add_past [OF _ due(3)] by blast
    then have "hour_settled ps now policy"
      unfolding hour_settled_def Let_def by (elim disjE) simp_all
    moreover have "hour_end_ms h + mp_hour_seal_ms policy < now"
      using past(1) due(3) by (rule sat_add_past)
    moreover have "length ?l0 < mp_minute_min_l0_parts policy" using False two by linarith
    moreover have "filter (\<lambda>p. pt_level p \<noteq> Hour) ps \<noteq> []" using p by (fastforce simp: filter_empty_conv)
    ultimately have "plan_hour now policy open (h, ps) = [\<lparr> pm_output_level = Hour, pm_event_hour = h, pm_inputs = ps \<rparr>]"
      by (simp add: plan_hour_def Let_def)
    then show ?thesis using p by auto
  qed
qed

text \<open>
  C38: the overdue signal and the planner agree: when every live L0 part is sorted (which the part
  log enforces) and some L0 part is reported overdue, the planner has a merge with an L0 input
  ready at that moment, whether or not the history lane is open. The policy asks for at least two
  L0 parts before it merges by count; with a threshold below two a lone L0 can be overdue while the
  planner waits for its hour to go quiet.
\<close>

theorem overdue_is_planned:
  assumes "0 < l0_merge_overdue_ms live now policy" "now \<le> i64_max"
    and "2 \<le> mp_minute_min_l0_parts policy"
    and "\<And>p. p \<in> set live \<Longrightarrow> pt_level p = L0 \<Longrightarrow> pt_sorted p"
  shows "\<exists>m \<in> set (plan_merges_uncapped live now policy history_open). \<exists>p \<in> set (pm_inputs m). pt_level p = L0"
proof -
  let ?byh = "group_by pt_event_hour (filter (\<lambda>p. pt_level p \<noteq> Day) (filter pt_sorted live))"
  have un: "filter (\<lambda>p. pt_level p = L0 \<and> \<not> pt_sorted p) live = []"
    using assms(4) by (auto simp: filter_empty_conv)
  have same: "filter (\<lambda>p. pt_sorted p \<and> is_hourly (pt_level p)) live
      = filter (\<lambda>p. pt_level p \<noteq> Day) (filter pt_sorted live)"
    by (simp add: is_hourly_def conj_commute)
  let ?xs = "map (sat_sub_i64 now) (List.map_filter (hour_due_ms policy) ?byh)"
  have "l0_merge_overdue_ms live now policy = fold max ?xs 0"
    by (simp add: l0_merge_overdue_ms_def Let_def un same)
  then have "fold max ?xs 0 \<in> set ?xs" using fold_max_mem [of ?xs 0] assms(1) by auto
  then obtain hp due where hp: "hp \<in> set ?byh" "hour_due_ms policy hp = Some due" "0 < sat_sub_i64 now due"
    using assms(1) \<open>l0_merge_overdue_ms live now policy = fold max ?xs 0\<close>
    by (auto simp: map_filter_def)
  obtain h ps where e: "hp = (h, ps)" by (cases hp)
  have "list_all (\<lambda>p. pt_level p \<noteq> Day) ps"
    using group_hour_facts(1) [of h ps live] hp(1) unfolding e list_all_iff by blast
  then have "\<exists>m \<in> set (plan_hour now policy history_open hp). \<exists>p \<in> set (pm_inputs m). pt_level p = L0"
    using overdue_hour_planned [OF hp(2) [unfolded e] sat_sub_past [OF hp(3)] assms(2) _ assms(3)] e by blast
  moreover have "set (plan_hour now policy history_open hp) \<subseteq> set (plan_merges_uncapped live now policy history_open)"
    using hp(1) unfolding plan_merges_uncapped_def Let_def by (cases "mp_day_merges policy") auto
  ultimately show ?thesis by blast
qed

section \<open>A concrete round\<close>

definition demo_l0 :: "string \<Rightarrow> part_ref" where
  "demo_l0 pid =
     \<lparr> pt_request_hours = None, pt_part_id = pid, pt_level = L0, pt_event_hour = 0, pt_event_day = None,
       pt_rows = 10, pt_min_time_us = 0, pt_max_time_us = 9, pt_schema_fingerprint = demo_digest,
       pt_provenance_sha256 = demo_digest, pt_merkle_root = demo_digest, pt_sorted = True,
       pt_data_bytes = 100, pt_row_groups = 1, pt_data_files = 1 \<rparr>"

definition demo_id1 :: string where "demo_id1 = ''0000000001000-0000000000000000''"
definition demo_id2 :: string where "demo_id2 = ''0000000002000-0000000000000000''"

definition demo_live :: "part_ref list" where
  "demo_live = [demo_l0 demo_id1, demo_l0 demo_id2]"

definition demo_merge :: planned_merge where
  "demo_merge = \<lparr> pm_output_level = Minute, pm_event_hour = 0, pm_inputs = demo_live \<rparr>"

lemma demo_created: "created_unix_ms demo_id1 = 1000" "created_unix_ms demo_id2 = 2000"
  by (simp_all add: created_unix_ms_def demo_id1_def demo_id2_def parse_int_def parse_digits_def is_digit_def
      digit_val_def Let_def i64_min_def i64_max_def)

lemma demo_plan_uncapped: "plan_merges_uncapped demo_live 100000 default_merge_policy open = [demo_merge]"
  by (simp add: plan_merges_uncapped_def demo_live_def demo_l0_def group_by_def push_group_def plan_hour_def
      default_merge_policy_def hour_end_ms_def HOUR_US_def demo_created demo_merge_def Let_def)

lemma demo_fits: "cap_fits INTERIM_MAX_PART_BYTES demo_live"
  by (simp add: cap_fits_def estimated_part_bytes_def demo_live_def demo_l0_def sum_u64_def sat_add_u64_def
      sat_mul_u64_def u64_max_def INTERIM_MAX_PART_BYTES_def)

lemma demo_plan: "plan_merges_with demo_live 100000 default_merge_policy open = [demo_merge]"
proof -
  have "cap_merge INTERIM_MAX_PART_BYTES 100000 default_merge_policy open demo_merge = [demo_merge]"
    by (simp add: cap_merge_def demo_merge_def demo_fits)
  moreover have "split_minute demo_merge = [demo_merge]"
    by (simp add: split_minute_def demo_merge_def demo_live_def MAX_MINUTE_MERGE_INPUTS_def chunks.simps)
  ultimately show ?thesis
    by (simp add: plan_merges_with_def demo_plan_uncapped)
      (simp add: default_merge_policy_def)
qed


lemma demo_overdue: "0 < l0_merge_overdue_ms demo_live 100000 default_merge_policy"
  by (simp add: l0_merge_overdue_ms_def demo_live_def demo_l0_def group_by_def push_group_def hour_due_ms_def
      default_merge_policy_def demo_created Let_def is_hourly_def map_filter_def sat_add_i64_def sat_sub_i64_def
      i64_min_def i64_max_def)

theorem overdue_is_planned_witness:
  "\<exists>m \<in> set (plan_merges_uncapped demo_live 100000 default_merge_policy False). \<exists>p \<in> set (pm_inputs m). pt_level p = L0"
proof (rule overdue_is_planned [OF demo_overdue])
  show "(100000 :: int) \<le> i64_max" by (simp add: i64_max_def)
  show "2 \<le> mp_minute_min_l0_parts default_merge_policy" by (simp add: default_merge_policy_def)
  show "pt_sorted p" if "p \<in> set demo_live" "pt_level p = L0" for p
    using that by (auto simp: demo_live_def demo_l0_def)
qed

end
