(* ===== verification/Undo_Journal.thy ===== *)
theory Undo_Journal
  imports Prelude
begin

text \<open>
  Fallible operations that mutate a state and journal how to undo each mutation, newest first. The
  locale \<open>undo_journal\<close> is the contract between such operations and the code that reverts them: each
  operation leaves a journal that takes the state back. It is proved once that sequencing and
  iterating journaled operations is journaled; the part log interprets it.
\<close>

section \<open>Journaled state passing\<close>

type_synonym ('s, 'u, 'a) jop = "'s \<times> 'u list \<Rightarrow> 'a res \<times> ('s \<times> 'u list)"

definition j_lift :: "'a res \<Rightarrow> ('s, 'u, 'a) jop" where
  "j_lift r s = (r, s)"

definition j_bind :: "('s, 'u, 'a) jop \<Rightarrow> ('a \<Rightarrow> ('s, 'u, 'b) jop) \<Rightarrow> ('s, 'u, 'b) jop" where
  "j_bind m k s = (case m s of (Inl e, s') \<Rightarrow> (Inl e, s') | (Inr x, s') \<Rightarrow> k x s')"

fun j_for :: "('a \<Rightarrow> ('s, 'u, unit) jop) \<Rightarrow> 'a list \<Rightarrow> ('s, 'u, unit) jop" where
  "j_for f [] = j_lift (Inr ())"
| "j_for f (x # xs) = j_bind (f x) (\<lambda>_. j_for f xs)"

text \<open>An update outside the journal (fields restored from a saved copy), and reading the state.\<close>

definition j_update :: "('s \<Rightarrow> 's) \<Rightarrow> ('s, 'u, unit) jop" where
  "j_update f su = (Inr (), (f (fst su), snd su))"

definition j_read :: "('s \<Rightarrow> 'a res) \<Rightarrow> ('s, 'u, 'a) jop" where
  "j_read f su = (f (fst su), su)"

definition undo_all :: "('u \<Rightarrow> 's \<Rightarrow> 's) \<Rightarrow> 'u list \<Rightarrow> 's \<Rightarrow> 's" where
  "undo_all undo1 us s = fold undo1 us s"

definition journaled ::
  "('u \<Rightarrow> 's \<Rightarrow> 's) \<Rightarrow> ('s \<Rightarrow> bool) \<Rightarrow> ('s \<Rightarrow> 's) \<Rightarrow> ('s, 'u, 'a) jop \<Rightarrow> bool" where
  "journaled undo1 good view m \<longleftrightarrow>
     (\<forall>s u r s' u'. good s \<longrightarrow> m (s, u) = (r, (s', u')) \<longrightarrow>
        good s' \<and> (\<exists>us. u' = us @ u \<and> view (undo_all undo1 us s') = view s))"

lemma undo_all_append: "undo_all undo1 (us @ vs) s = undo_all undo1 vs (undo_all undo1 us s)"
  by (simp add: undo_all_def)

lemma undo_all_simps [simp]:
  "undo_all undo1 [] s = s" "undo_all undo1 (u # us) s = undo_all undo1 us (undo1 u s)"
  by (simp_all add: undo_all_def)

lemma j_bind_Inr:
  "j_bind m k s = (Inr y, s'') \<longleftrightarrow> (\<exists>x s'. m s = (Inr x, s') \<and> k x s' = (Inr y, s''))"
  by (auto simp: j_bind_def split: prod.splits sum.splits)

lemma j_bind_Inl:
  "j_bind m k s = (Inl e, s'') \<longleftrightarrow>
     m s = (Inl e, s'') \<or> (\<exists>x s'. m s = (Inr x, s') \<and> k x s' = (Inl e, s''))"
  by (auto simp: j_bind_def split: prod.splits sum.splits)

lemma j_lift_simps [simp]: "j_lift r s = (r', s') \<longleftrightarrow> r' = r \<and> s' = s"
  by (auto simp: j_lift_def)

section \<open>The contract\<close>

locale undo_journal =
  fixes undo1 :: "'u \<Rightarrow> 's \<Rightarrow> 's"
    and good :: "'s \<Rightarrow> bool"
    and view :: "'s \<Rightarrow> 's"
  assumes view_undo: "view (undo1 u s) = undo1 u (view s)"
begin

lemma view_undo_all: "view (undo_all undo1 us s) = undo_all undo1 us (view s)"
  by (induction us arbitrary: s) (simp_all add: view_undo)

lemma undo_all_view_cong: "view s = view t \<Longrightarrow> view (undo_all undo1 us s) = view (undo_all undo1 us t)"
  by (simp add: view_undo_all)

lemma journaled_lift: "journaled undo1 good view (j_lift r)"
  by (simp add: journaled_def)

lemma journaled_read: "journaled undo1 good view (j_read f)"
  by (simp add: journaled_def j_read_def)

lemma journaled_update:
  assumes "\<And>s. view (f s) = view s" "\<And>s. good s \<Longrightarrow> good (f s)"
  shows "journaled undo1 good view (j_update f)"
  using assms by (simp add: journaled_def j_update_def)

lemma journaled_bind:
  assumes m: "journaled undo1 good view m" and k: "\<And>x. journaled undo1 good view (k x)"
  shows "journaled undo1 good view (j_bind m k)"
  unfolding journaled_def
proof (intro allI impI)
  fix s u r s' u'
  assume s: "good s" and run: "j_bind m k (s, u) = (r, (s', u'))"
  obtain r1 s1 u1 where m1: "m (s, u) = (r1, (s1, u1))" by (metis surj_pair)
  then obtain us where us: "good s1" "u1 = us @ u" "view (undo_all undo1 us s1) = view s"
    using m s unfolding journaled_def by blast
  show "good s' \<and> (\<exists>us. u' = us @ u \<and> view (undo_all undo1 us s') = view s)"
  proof (cases r1)
    case (Inl e)
    then show ?thesis using run m1 us by (auto simp: j_bind_def)
  next
    case (Inr x)
    then have "k x (s1, u1) = (r, (s', u'))" using run m1 by (simp add: j_bind_def)
    then obtain vs where vs: "good s'" "u' = vs @ u1" "view (undo_all undo1 vs s') = view s1"
      using k us(1) unfolding journaled_def by blast
    have "view (undo_all undo1 (vs @ us) s') = view s"
      using undo_all_view_cong [OF vs(3), of us] us(3) by (simp add: undo_all_append)
    then show ?thesis using vs us(2) by (intro conjI exI [of _ "vs @ us"]) auto
  qed
qed

lemma journaled_for:
  assumes "\<And>x. journaled undo1 good view (f x)"
  shows "journaled undo1 good view (j_for f xs)"
  by (induction xs) (simp_all add: journaled_lift journaled_bind assms)

lemma journaled_undo:
  assumes "journaled undo1 good view m" "good s" "m (s, []) = (r, (s', u'))"
  shows "view (undo_all undo1 u' s') = view s"
  using assms unfolding journaled_def by fastforce

lemma journaled_good:
  assumes "journaled undo1 good view m" "good s" "m (s, u) = (r, (s', u'))"
  shows "good s'"
  using assms unfolding journaled_def by blast

end

end
