(* ===== verification/Part_Log.thy ===== *)
theory Part_Log
  imports Part_Ref Undo_Journal
begin

text \<open>
  The per-tenant part log (\<open>parts/part_log.rs\<close>): entries, checkpoints, and the live set folded from
  verified entries. Operations on the live set mutate it in place and journal every mutation; a
  refused entry is rolled back. The journal vector is held newest first. The 16-byte source identity
  is kept as its 32 hex digits.
\<close>

section \<open>Entries and checkpoints\<close>

definition LOG_FORMAT :: string where "LOG_FORMAT = ''nano.part-log.v1''"
definition CHECKPOINT_FORMAT :: string where "CHECKPOINT_FORMAT = ''nano.part-log-checkpoint.v1''"
definition CHECKPOINT_EVERY :: nat where "CHECKPOINT_EVERY = 1024"
definition ID_MEMORY_MS :: int where "ID_MEMORY_MS = 48 * 3600000"
definition GENESIS_PREV :: string where "GENESIS_PREV = replicate 64 CHR ''0''"

record log_schema =
  lg_parquet_base64 :: string
  lg_fingerprint :: string

text \<open>What the log code calls outside the log: hex SHA-256, base64, the parquet crate (the Arrow schema
  of a file, opaque here), and the fingerprint of a schema.\<close>

record log_crates =
  lc_sha_hex :: "string \<Rightarrow> string"
  lc_b64_decode :: "string \<Rightarrow> string option"
  lc_parquet_schema :: "string \<Rightarrow> string option"
  lc_schema_fingerprint :: "string \<Rightarrow> string option"

definition log_schema_to_arrow :: "log_crates \<Rightarrow> log_schema \<Rightarrow> string res" where
  "log_schema_to_arrow lc self =
     bind_res (ok_or (lc_b64_decode lc (lg_parquet_base64 self)) ''log schema is not base64'') (\<lambda>bytes.
     bind_res (ok_or (lc_parquet_schema lc bytes) ''log schema does not decode'') (\<lambda>schema.
     bind_res (ok_or (lc_schema_fingerprint lc schema) ''schema fingerprint'') (\<lambda>fingerprint.
     bind_res (ensure (fingerprint = lg_fingerprint self) ''log schema fingerprint does not match its schema'') (\<lambda>_.
       Inr schema))))"

datatype retire_reason = Retention | Erasure

datatype log_op =
    Genesis log_schema
  | Schema log_schema
  | Add "part_ref list" "source_ref list" "edge_log_range option"
  | EdgeFloor nat string string
  | Reject "rejection list"
  | EdgeEnd nat string string
  | Merge part_ref "part_id list"
  | Retire "part_id list" retire_reason string
  | Rewrite part_ref "part_id list" string
  | Adopt "part_ref list"

record log_entry =
  le_format :: string
  le_tenant_id :: string
  le_seq :: nat
  le_prev_sha256 :: string
  le_writer_epoch :: nat
  le_appended_at_ms :: int
  le_op :: log_op

record edge_point =
  ep_log :: string
  ep_through_seq :: nat
  ep_through_chain :: string

record checkpoint =
  cp_format :: string
  cp_tenant_id :: string
  cp_seq :: nat
  cp_entry_sha256 :: string
  cp_writer_epoch :: nat
  cp_schema :: log_schema
  cp_live :: "part_ref list"
  cp_edge_log :: "edge_point option"
  cp_edge_ended :: "edge_point option"

definition check_edge_commit_monotonic :: "nat \<Rightarrow> nat \<Rightarrow> unit res" where
  "check_edge_commit_monotonic last_committed next =
     ensure (last_committed \<le> next) ''edge log commit would regress''"

text \<open>serde_json and the canonical writer as arguments: the canonical bytes of an entry or checkpoint
  and the parser.\<close>

definition entry_to_bytes :: "(log_entry \<Rightarrow> string res) \<Rightarrow> log_entry \<Rightarrow> string res" where
  "entry_to_bytes canon self =
     bind_res (canon self) (\<lambda>bytes.
     bind_res (ensure (length bytes \<le> MAX_LOG_OBJECT_BYTES) ''log entry exceeds 4194304 bytes'') (\<lambda>_. Inr bytes))"

definition entry_parse_bytes ::
  "(log_entry \<Rightarrow> string res) \<Rightarrow> (string \<Rightarrow> log_entry option) \<Rightarrow> string \<Rightarrow> string \<Rightarrow> log_entry res" where
  "entry_parse_bytes canon parse bytes tenant_id =
     bind_res (ensure (length bytes \<le> MAX_LOG_OBJECT_BYTES) ''log entry exceeds its byte bound'') (\<lambda>_.
     bind_res (ok_or (parse bytes) ''log entry does not parse'') (\<lambda>entry.
     bind_res (ensure (le_format entry = LOG_FORMAT \<and> le_tenant_id entry = tenant_id)
       ''log entry format or tenant is wrong'') (\<lambda>_.
     bind_res (entry_to_bytes canon entry) (\<lambda>own.
     bind_res (ensure (own = bytes) ''log entry is not in canonical form'') (\<lambda>_. Inr entry)))))"

definition checkpoint_to_bytes :: "(checkpoint \<Rightarrow> string res) \<Rightarrow> checkpoint \<Rightarrow> string option res" where
  "checkpoint_to_bytes canon self =
     bind_res (canon self) (\<lambda>bytes. Inr (if length bytes \<le> MAX_LOG_OBJECT_BYTES then Some bytes else None))"

definition checkpoint_parse_bytes :: "(string \<Rightarrow> checkpoint option) \<Rightarrow> string \<Rightarrow> string \<Rightarrow> checkpoint res" where
  "checkpoint_parse_bytes parse bytes tenant_id =
     bind_res (ensure (length bytes \<le> MAX_LOG_OBJECT_BYTES) ''checkpoint exceeds its byte bound'') (\<lambda>_.
     bind_res (ok_or (parse bytes) ''checkpoint does not parse'') (\<lambda>cp.
     bind_res (ensure (cp_format cp = CHECKPOINT_FORMAT \<and> cp_tenant_id cp = tenant_id)
       ''checkpoint format or tenant is wrong'') (\<lambda>_. Inr cp)))"

section \<open>The live set\<close>

record live_set =
  ls_live :: "(part_id, part_ref) bmap"
  ls_seen :: "part_id bset"
  ls_removed :: "(part_id, nat \<times> int) bmap"
  ls_removed_refs :: "(part_id, part_ref) bmap"
  ls_added_at :: "(part_id, int) bmap"
  ls_schema :: "log_schema option"
  ls_head :: "(nat \<times> string \<times> nat) option"
  ls_edge :: "edge_point option"
  ls_edge_ended :: "edge_point option"
  ls_consumed :: "(string, int) bmap"

definition empty_live_set :: live_set where
  "empty_live_set =
     \<lparr> ls_live = [], ls_seen = [], ls_removed = [], ls_removed_refs = [], ls_added_at = [], ls_schema = None,
       ls_head = None, ls_edge = None, ls_edge_ended = None, ls_consumed = [] \<rparr>"

datatype undo =
    UndoSeen part_id
  | UndoLive part_id "part_ref option"
  | UndoUnlive part_id part_ref
  | UndoAddedAt part_id "int option"
  | UndoRemoved part_id "(nat \<times> int) option"
  | UndoRemovedRef part_id "part_ref option"
  | UndoConsumed string "int option"

definition source_identity :: "log_crates \<Rightarrow> source_ref \<Rightarrow> string" where
  "source_identity lc source =
     (let nul = [char_of (0::nat)] in
      take 32 (lc_sha_hex lc (sf_key source @ nul @ sf_version source @ nul @ sf_sha256 source)))"

fun from_checkpoint_parts :: "live_set \<Rightarrow> part_ref list \<Rightarrow> live_set res" where
  "from_checkpoint_parts ls [] = Inr ls"
| "from_checkpoint_parts ls (part # rest) =
     bind_res (part_ref_validate part) (\<lambda>_.
     bind_res (ensure (\<not> bhas (ls_live ls) (pt_part_id part)) ''checkpoint repeats a part'') (\<lambda>_.
       from_checkpoint_parts
         (ls\<lparr> ls_live := bput (pt_part_id part) part (ls_live ls),
               ls_seen := bput (pt_part_id part) () (ls_seen ls),
               ls_added_at := bput (pt_part_id part) (created_unix_ms (pt_part_id part)) (ls_added_at ls) \<rparr>)
         rest))"

definition from_checkpoint :: "checkpoint \<Rightarrow> live_set res" where
  "from_checkpoint cp =
     bind_res (from_checkpoint_parts empty_live_set (cp_live cp)) (\<lambda>ls.
       Inr (ls\<lparr> ls_edge := cp_edge_log cp, ls_edge_ended := cp_edge_ended cp, ls_schema := Some (cp_schema cp),
                 ls_head := Some (cp_seq cp, cp_entry_sha256 cp, cp_writer_epoch cp) \<rparr>))"

definition live_checkpoint :: "live_set \<Rightarrow> string \<Rightarrow> checkpoint res" where
  "live_checkpoint self tenant_id =
     bind_res (ok_or (ls_head self) ''empty log has no checkpoint'') (\<lambda>(seq, sha, epoch).
     bind_res (ok_or (ls_schema self) ''log has no schema'') (\<lambda>schema.
       Inr \<lparr> cp_format = CHECKPOINT_FORMAT, cp_tenant_id = tenant_id, cp_seq = seq, cp_entry_sha256 = sha,
             cp_writer_epoch = epoch, cp_schema = schema, cp_live = map snd (ls_live self),
             cp_edge_log = ls_edge self, cp_edge_ended = ls_edge_ended self \<rparr>))"

record live_part_totals =
  lt_parts :: nat
  lt_rows :: nat
  lt_data_bytes :: nat
  lt_data_files :: nat
  lt_min_time_us :: "int option"
  lt_max_time_us :: "int option"
  lt_last_added_at_ms :: "int option"

definition opt_with :: "(int \<Rightarrow> int \<Rightarrow> int) \<Rightarrow> int option \<Rightarrow> int \<Rightarrow> int option" where
  "opt_with f old x = Some (case old of None \<Rightarrow> x | Some t \<Rightarrow> f t x)"

definition totals_step :: "live_set \<Rightarrow> part_ref \<Rightarrow> live_part_totals \<Rightarrow> live_part_totals" where
  "totals_step self part t =
     \<lparr> lt_parts = (lt_parts t + 1) mod 2 ^ 64,
       lt_rows = sat_add_u64 (lt_rows t) (pt_rows part),
       lt_data_bytes = sat_add_u64 (lt_data_bytes t) (pt_data_bytes part),
       lt_data_files = sat_add_u64 (lt_data_files t) (pt_data_files part),
       lt_min_time_us = opt_with min (lt_min_time_us t) (pt_min_time_us part),
       lt_max_time_us = opt_with max (lt_max_time_us t) (pt_max_time_us part),
       lt_last_added_at_ms =
         (case map_of (ls_added_at self) (pt_part_id part) of
            Some at \<Rightarrow> opt_with max (lt_last_added_at_ms t) at
          | None \<Rightarrow> lt_last_added_at_ms t) \<rparr>"

definition totals :: "live_set \<Rightarrow> live_part_totals" where
  "totals self = fold (totals_step self) (map snd (ls_live self))
     \<lparr> lt_parts = 0, lt_rows = 0, lt_data_bytes = 0, lt_data_files = 0, lt_min_time_us = None,
       lt_max_time_us = None, lt_last_added_at_ms = None \<rparr>"

definition gc_clear_resident :: "live_set \<Rightarrow> live_set" where
  "gc_clear_resident self =
     self\<lparr> ls_live := [], ls_seen := [], ls_removed := [], ls_removed_refs := [], ls_added_at := [], ls_consumed := [] \<rparr>"

definition resident_refs :: "live_set \<Rightarrow> nat" where
  "resident_refs self = sum_list [length (ls_live self), length (ls_seen self), length (ls_removed self),
     length (ls_removed_refs self), length (ls_added_at self), length (ls_consumed self)]"

definition live_consumed :: "log_crates \<Rightarrow> live_set \<Rightarrow> source_ref \<Rightarrow> bool" where
  "live_consumed lc self source \<longleftrightarrow> bhas (ls_consumed self) (source_identity lc source)"

fun consumes_from :: "log_crates \<Rightarrow> live_set \<Rightarrow> string bset \<Rightarrow> source_ref list \<Rightarrow> unit res" where
  "consumes_from lc self within [] = Inr ()"
| "consumes_from lc self within (source # rest) =
     (let sid = source_identity lc source in
      if bhas within sid \<or> bhas (ls_consumed self) sid then Inl (DoubleConsume (sf_key source))
      else consumes_from lc self (bput sid () within) rest)"

definition check_consumes :: "log_crates \<Rightarrow> live_set \<Rightarrow> log_op \<Rightarrow> unit res" where
  "check_consumes lc self op = (case op of Add _ consumed _ \<Rightarrow> consumes_from lc self [] consumed | _ \<Rightarrow> Inr ())"

definition removed_before :: "live_set \<Rightarrow> int \<Rightarrow> part_id list" where
  "removed_before self before_ms = map fst (filter (\<lambda>(_, (_, at)). at \<le> before_ms) (ls_removed self))"

section \<open>Applying an entry\<close>

type_synonym 'a log_step = "(live_set, undo, 'a) jop"

definition live_add :: "part_ref \<Rightarrow> int \<Rightarrow> unit log_step" where
  "live_add part at_ms =
     (let pid = pt_part_id part in
      j_bind (j_lift (part_ref_validate part)) (\<lambda>_.
      j_bind (j_lift (ensure (\<not> created_unix_ms pid < sat_sub_i64 at_ms ID_MEMORY_MS)
        ''log adds part created outside the id memory window'')) (\<lambda>_.
      (\<lambda>(ls, undo).
         if bhas (ls_seen ls) pid then (Inl (Bail ''log adds part twice''), (ls, undo))
         else (Inr (),
           (ls\<lparr> ls_seen := bput pid () (ls_seen ls), ls_live := bput pid part (ls_live ls),
                ls_added_at := bput pid at_ms (ls_added_at ls) \<rparr>,
            UndoAddedAt pid (map_of (ls_added_at ls) pid) # UndoLive pid (map_of (ls_live ls) pid)
            # UndoSeen pid # undo))))))"

definition live_remove :: "nat \<Rightarrow> int \<Rightarrow> part_id \<Rightarrow> unit log_step" where
  "live_remove seq at_ms pid = (\<lambda>(ls, undo).
     case map_of (ls_live ls) pid of
       None \<Rightarrow> (Inl (Bail ''log removes part that is not live''), (ls, undo))
     | Some part \<Rightarrow>
         (Inr (),
          (ls\<lparr> ls_live := bdel pid (ls_live ls), ls_removed_refs := bput pid part (ls_removed_refs ls),
               ls_removed := bput pid (seq, at_ms) (ls_removed ls) \<rparr>,
           UndoRemoved pid (map_of (ls_removed ls) pid) # UndoRemovedRef pid (map_of (ls_removed_refs ls) pid)
           # UndoUnlive pid part # undo)))"

definition live_consume :: "log_crates \<Rightarrow> int \<Rightarrow> source_ref \<Rightarrow> unit log_step" where
  "live_consume lc at_ms source = (\<lambda>(ls, undo).
     let sid = source_identity lc source in
     (Inr (), (ls\<lparr> ls_consumed := bput sid at_ms (ls_consumed ls) \<rparr>,
               UndoConsumed sid (map_of (ls_consumed ls) sid) # undo)))"

fun rollback_step :: "undo \<Rightarrow> live_set \<Rightarrow> live_set" where
  "rollback_step (UndoSeen pid) ls = ls\<lparr> ls_seen := bdel pid (ls_seen ls) \<rparr>"
| "rollback_step (UndoLive pid previous) ls = ls\<lparr> ls_live := brestore pid previous (ls_live ls) \<rparr>"
| "rollback_step (UndoUnlive pid part) ls = ls\<lparr> ls_live := bput pid part (ls_live ls) \<rparr>"
| "rollback_step (UndoAddedAt pid previous) ls = ls\<lparr> ls_added_at := brestore pid previous (ls_added_at ls) \<rparr>"
| "rollback_step (UndoRemoved pid previous) ls = ls\<lparr> ls_removed := brestore pid previous (ls_removed ls) \<rparr>"
| "rollback_step (UndoRemovedRef pid previous) ls = ls\<lparr> ls_removed_refs := brestore pid previous (ls_removed_refs ls) \<rparr>"
| "rollback_step (UndoConsumed sid previous) ls = ls\<lparr> ls_consumed := brestore sid previous (ls_consumed ls) \<rparr>"

definition rollback :: "undo list \<Rightarrow> live_set \<Rightarrow> live_set" where
  "rollback undo ls = undo_all rollback_step undo ls"

text \<open>The continuity check of an \<open>add\<close>: the cases over the entry's range and the current edge point.\<close>

definition add_edge_check ::
  "log_crates \<Rightarrow> string \<Rightarrow> source_ref list \<Rightarrow> edge_log_range option \<Rightarrow> live_set \<Rightarrow> unit res" where
  "add_edge_check lc tenant_id consumed edge_log ls =
     (case (edge_log, ls_edge ls) of
        (Some rng, Some point) \<Rightarrow> follows_point rng (ep_log point) (ep_through_seq point) (ep_through_chain point)
      | (Some rng, None) \<Rightarrow>
          (case ls_edge_ended ls of
             Some ended \<Rightarrow> follows_point rng (ep_log ended) (ep_through_seq ended) (ep_through_chain ended)
           | None \<Rightarrow> follows_point rng (''edgelog:'' @ tenant_id) 0 (edge_log_genesis (lc_sha_hex lc) tenant_id))
      | (None, Some _) \<Rightarrow>
          ensure (finding_receipts_only tenant_id consumed \<or> quarantine_replays_only tenant_id consumed)
            ''add without edge_log after the log consumed from an edge log''
      | (None, None) \<Rightarrow> Inr ())"

definition add_edge_point :: "string \<Rightarrow> edge_log_range option \<Rightarrow> unit log_step" where
  "add_edge_point tenant_id edge_log =
     (case edge_log of
        None \<Rightarrow> j_lift (Inr ())
      | Some rng \<Rightarrow>
          j_bind (j_lift (ensure (el_log rng = ''edgelog:'' @ tenant_id) ''edge log range names another tenant'')) (\<lambda>_.
            j_update (\<lambda>ls. ls\<lparr> ls_edge := Some \<lparr> ep_log = el_log rng, ep_through_seq = el_through_seq rng,
                                               ep_through_chain = el_through_chain rng \<rparr> \<rparr>)))"

definition edge_text_ok :: "string \<Rightarrow> string \<Rightarrow> bool" where
  "edge_text_ok through_chain reason \<longleftrightarrow> is_sha256_hex through_chain \<and> reason \<noteq> [] \<and> length reason \<le> 256"

definition set_schema :: "log_crates \<Rightarrow> log_schema \<Rightarrow> unit log_step" where
  "set_schema lc schema =
     j_bind (j_lift (log_schema_to_arrow lc schema)) (\<lambda>_. j_update (\<lambda>ls. ls\<lparr> ls_schema := Some schema \<rparr>))"

definition apply_supersede :: "nat \<Rightarrow> int \<Rightarrow> part_ref \<Rightarrow> part_id list \<Rightarrow> unit log_step" where
  "apply_supersede seq at out supersedes =
     j_bind (j_lift (ensure (supersedes \<noteq> []) ''merge entry supersedes nothing'')) (\<lambda>_.
     j_bind (j_for (live_remove seq at) supersedes) (\<lambda>_. live_add out at))"

definition apply_nongenesis :: "log_crates \<Rightarrow> log_entry \<Rightarrow> unit log_step" where
  "apply_nongenesis lc entry =
     (let seq = le_seq entry; at = le_appended_at_ms entry; tenant = le_tenant_id entry in
      case le_op entry of
        Genesis _ \<Rightarrow> j_lift (Inl (Bail ''genesis after seq 0''))
      | Schema schema \<Rightarrow> set_schema lc schema
      | Add parts consumed edge_log \<Rightarrow>
          j_bind (j_lift (ensure (\<not> (parts = [] \<or> consumed = [])) ''add entry has no parts or no sources'')) (\<lambda>_.
          j_bind (j_read (add_edge_check lc tenant consumed edge_log)) (\<lambda>_.
          j_bind (add_edge_point tenant edge_log) (\<lambda>_.
          j_bind (j_for (\<lambda>part.
              j_bind (j_lift (ensure (pt_level part = L0 \<and> pt_sorted part) ''add entry carries a non-L0 part'')) (\<lambda>_.
                live_add part at)) parts) (\<lambda>_.
            j_for (live_consume lc at) consumed))))
      | Merge out supersedes \<Rightarrow> apply_supersede seq at out supersedes
      | Rewrite out supersedes _ \<Rightarrow> apply_supersede seq at out supersedes
      | EdgeFloor through_seq through_chain reason \<Rightarrow>
          j_bind (j_lift (ensure (edge_text_ok through_chain reason) ''edge floor entry is malformed'')) (\<lambda>_.
          j_bind (j_read (\<lambda>ls. ensure (case ls_edge ls of None \<Rightarrow> True | Some point \<Rightarrow> ep_through_seq point \<le> through_seq)
            ''edge floor moves backwards'')) (\<lambda>_.
          j_bind (j_read (\<lambda>ls. ensure (\<not> (ls_edge ls = None \<and> ls_edge_ended ls \<noteq> None))
            ''edge floor after edge mode ended'')) (\<lambda>_.
            j_update (\<lambda>ls. ls\<lparr> ls_edge := Some \<lparr> ep_log = ''edgelog:'' @ tenant, ep_through_seq = through_seq,
                                               ep_through_chain = through_chain \<rparr> \<rparr>))))
      | Reject rejections \<Rightarrow>
          j_bind (j_lift (ensure (\<not> (rejections = [] \<or> 1000 < length rejections))
            ''reject entry has no or too many rejections'')) (\<lambda>_.
            j_lift (res_all (\<lambda>r. ensure (rejection_ok r) ''reject entry is malformed'') rejections))
      | EdgeEnd through_seq through_chain reason \<Rightarrow>
          j_bind (j_lift (ensure (edge_text_ok through_chain reason) ''edge end entry is malformed'')) (\<lambda>_.
          j_bind (j_read (\<lambda>ls. ok_or (ls_edge ls) ''edge end outside edge mode'')) (\<lambda>point.
          j_bind (j_update (\<lambda>ls. ls\<lparr> ls_edge := None \<rparr>)) (\<lambda>_.
          j_bind (j_lift (ensure (ep_through_seq point = through_seq \<and> ep_through_chain point = through_chain)
            ''edge end is not at the consumed point'')) (\<lambda>_.
            j_update (\<lambda>ls. ls\<lparr> ls_edge_ended := Some point \<rparr>)))))
      | Retire parts _ _ \<Rightarrow>
          j_bind (j_lift (ensure (parts \<noteq> []) ''retire entry names no part'')) (\<lambda>_.
            j_for (live_remove seq at) parts)
      | Adopt parts \<Rightarrow>
          j_bind (j_lift (ensure (parts \<noteq> []) ''adopt entry names no part'')) (\<lambda>_.
            j_for (\<lambda>part.
              j_bind (j_lift (ensure (pt_level part = Hour \<or> pt_level part = Day)
                ''adopted parts must be hour or day parts'')) (\<lambda>_.
              j_bind (j_lift (ensure (\<not> pt_sorted part) ''adopt entry carries a sorted part'')) (\<lambda>_.
                live_add part at))) parts))"

definition apply_op :: "log_crates \<Rightarrow> log_entry \<Rightarrow> unit log_step" where
  "apply_op lc entry =
     (if le_seq entry = 0 then
        (case le_op entry of
           Genesis schema \<Rightarrow> set_schema lc schema
         | _ \<Rightarrow> j_lift (Inl (Bail ''seq 0 must be genesis'')))
      else apply_nongenesis lc entry)"

text \<open>Forget ids and sources older than the memory window, once the oldest seen id is.\<close>

definition prune_ids :: "int \<Rightarrow> live_set \<Rightarrow> live_set" where
  "prune_ids at ls =
     (let horizon = sat_sub_i64 at ID_MEMORY_MS in
      case ls_seen ls of
        [] \<Rightarrow> ls
      | (first, _) # _ \<Rightarrow>
          if created_unix_ms first < horizon then
            (let removed = bretain (\<lambda>_ (_, removed_at). horizon \<le> removed_at) (ls_removed ls) in
             ls\<lparr> ls_seen := bretain (\<lambda>pid _. horizon \<le> created_unix_ms pid \<or> bhas (ls_live ls) pid) (ls_seen ls),
                 ls_removed := removed,
                 ls_removed_refs := bretain (\<lambda>pid _. bhas removed pid) (ls_removed_refs ls),
                 ls_added_at := bretain (\<lambda>pid _. bhas (ls_live ls) pid) (ls_added_at ls),
                 ls_consumed := bretain (\<lambda>_ consumed_at. horizon \<le> consumed_at) (ls_consumed ls) \<rparr>)
          else ls)"

definition expected_seq :: "(nat \<times> string \<times> nat) option \<Rightarrow> nat" where
  "expected_seq head = (case head of None \<Rightarrow> 0 | Some (seq, _, _) \<Rightarrow> seq + 1)"

definition expected_prev :: "(nat \<times> string \<times> nat) option \<Rightarrow> string" where
  "expected_prev head = (case head of None \<Rightarrow> GENESIS_PREV | Some (_, sha, _) \<Rightarrow> sha)"

definition min_epoch :: "(nat \<times> string \<times> nat) option \<Rightarrow> nat" where
  "min_epoch head = (case head of None \<Rightarrow> 0 | Some (_, _, epoch) \<Rightarrow> epoch)"

definition live_apply :: "log_crates \<Rightarrow> live_set \<Rightarrow> log_entry \<Rightarrow> string \<Rightarrow> unit res \<times> live_set" where
  "live_apply lc self entry entry_sha256 =
     (if le_seq entry \<noteq> expected_seq (ls_head self) \<or> le_prev_sha256 entry \<noteq> expected_prev (ls_head self)
      then (Inl (Bail ''log chain is broken''), self)
      else if le_writer_epoch entry < min_epoch (ls_head self)
      then (Inl (Bail ''log entry regresses the writer epoch''), self)
      else
        (case apply_op lc entry (self, []) of
           (Inl err, (ls, undo)) \<Rightarrow>
             (Inl err, (rollback undo ls)\<lparr> ls_schema := ls_schema self, ls_edge := ls_edge self,
                                          ls_edge_ended := ls_edge_ended self \<rparr>)
         | (Inr _, (ls, _)) \<Rightarrow>
             (Inr (), prune_ids (le_appended_at_ms entry)
               (ls\<lparr> ls_head := Some (le_seq entry, entry_sha256, le_writer_epoch entry) \<rparr>))))"

section \<open>A refused entry leaves the set unchanged\<close>

definition ls_wf :: "live_set \<Rightarrow> bool" where
  "ls_wf ls \<longleftrightarrow> bwf (ls_live ls) \<and> bwf (ls_seen ls) \<and> bwf (ls_removed ls) \<and> bwf (ls_removed_refs ls)
     \<and> bwf (ls_added_at ls) \<and> bwf (ls_consumed ls)"

text \<open>The journaled fields: the others are restored from the saved copy.\<close>

definition ls_view :: "live_set \<Rightarrow> live_set" where
  "ls_view ls = ls\<lparr> ls_schema := None, ls_edge := None, ls_edge_ended := None \<rparr>"

interpretation lj: undo_journal rollback_step ls_wf ls_view
proof
  show "ls_view (rollback_step u ls) = rollback_step u (ls_view ls)" for u ls
    by (cases u) (simp_all add: ls_view_def)
qed

abbreviation log_journaled :: "'a log_step \<Rightarrow> bool" where
  "log_journaled m \<equiv> journaled rollback_step ls_wf ls_view m"

lemma bdel_bput_absent: "bwf m \<Longrightarrow> \<not> bhas m k \<Longrightarrow> bdel k (bput k v m) = m"
  using brestore_bput [of m k v] by (simp add: bhas_def brestore_def)

lemma add_undone:
  assumes "ls_wf ls" "\<not> bhas (ls_seen ls) pid"
  shows "undo_all rollback_step
     [UndoAddedAt pid (map_of (ls_added_at ls) pid), UndoLive pid (map_of (ls_live ls) pid), UndoSeen pid]
     (ls\<lparr> ls_seen := bput pid () (ls_seen ls), ls_live := bput pid part (ls_live ls),
          ls_added_at := bput pid at_ms (ls_added_at ls) \<rparr>) = ls"
  using assms by (simp add: ls_wf_def brestore_bput bdel_bput_absent)

lemma remove_undone:
  assumes "ls_wf ls" "map_of (ls_live ls) pid = Some part"
  shows "undo_all rollback_step
     [UndoRemoved pid (map_of (ls_removed ls) pid), UndoRemovedRef pid (map_of (ls_removed_refs ls) pid), UndoUnlive pid part]
     (ls\<lparr> ls_live := bdel pid (ls_live ls), ls_removed_refs := bput pid part (ls_removed_refs ls),
          ls_removed := bput pid (seq, at_ms) (ls_removed ls) \<rparr>) = ls"
  using assms by (simp add: ls_wf_def brestore_bput bm.del_get_undo)

lemma journaled_add: "log_journaled (live_add part at)"
proof -
  have "log_journaled (\<lambda>(ls, undo).
      if bhas (ls_seen ls) pid then (Inl (Bail ''log adds part twice''), (ls, undo))
      else (Inr (), (ls\<lparr> ls_seen := bput pid () (ls_seen ls), ls_live := bput pid part (ls_live ls),
             ls_added_at := bput pid at (ls_added_at ls) \<rparr>,
           UndoAddedAt pid (map_of (ls_added_at ls) pid) # UndoLive pid (map_of (ls_live ls) pid) # UndoSeen pid # undo)))"
    for pid :: part_id
    unfolding journaled_def
  proof (intro allI impI, goal_cases)
    case (1 s u r s' u')
    then show ?case
      using add_undone [of s pid at part]
      by (cases "bhas (ls_seen s) pid") (auto simp: ls_wf_def)
  qed
  then show ?thesis
    unfolding live_add_def Let_def by (intro lj.journaled_bind lj.journaled_lift)
qed

lemma journaled_remove: "log_journaled (live_remove seq at pid)"
  unfolding journaled_def live_remove_def
proof (intro allI impI, goal_cases)
  case (1 s u r s' u')
  then show ?case
    using remove_undone [of s pid _ seq at]
    by (cases "map_of (ls_live s) pid") (auto simp: ls_wf_def)
qed

lemma journaled_consume: "log_journaled (live_consume lc at source)"
  unfolding journaled_def live_consume_def Let_def
  by (auto simp: ls_wf_def brestore_bput intro!: exI [of _ "[UndoConsumed (source_identity lc source) _]"])

lemma journaled_fields:
  "log_journaled (j_update (\<lambda>ls. ls\<lparr> ls_schema := x \<rparr>))"
  "log_journaled (j_update (\<lambda>ls. ls\<lparr> ls_edge := y \<rparr>))"
  "log_journaled (j_update (\<lambda>ls. ls\<lparr> ls_edge_ended := z \<rparr>))"
  by (rule lj.journaled_update; simp add: ls_view_def ls_wf_def)+

lemmas journaled_ops = journaled_add journaled_remove journaled_consume journaled_fields
  lj.journaled_lift lj.journaled_read lj.journaled_bind lj.journaled_for

lemma journaled_apply_op: "log_journaled (apply_op lc entry)"
proof -
  have "log_journaled (apply_nongenesis lc entry)"
    unfolding apply_nongenesis_def Let_def
    by (cases "le_op entry")
      (simp_all add: set_schema_def apply_supersede_def add_edge_point_def journaled_ops split: option.split)
  then show ?thesis
    unfolding apply_op_def by (cases "le_op entry") (simp_all add: set_schema_def journaled_ops)
qed

lemma ls_view_restore:
  "ls_view a = ls_view b \<Longrightarrow> a\<lparr> ls_schema := ls_schema b, ls_edge := ls_edge b, ls_edge_ended := ls_edge_ended b \<rparr> = b"
  by (cases a; cases b) (simp add: ls_view_def)

lemma apply_refused:
  assumes "ls_wf ls" "live_apply lc ls entry sha = (Inl err, ls')"
  shows "ls' = ls"
proof -
  obtain r ls1 u where op: "apply_op lc entry (ls, []) = (r, (ls1, u))" by (metis surj_pair)
  have "ls_view (undo_all rollback_step u ls1) = ls_view ls"
    using lj.journaled_undo [OF journaled_apply_op assms(1) op] .
  then have "(rollback u ls1)\<lparr> ls_schema := ls_schema ls, ls_edge := ls_edge ls, ls_edge_ended := ls_edge_ended ls \<rparr> = ls"
    unfolding rollback_def by (rule ls_view_restore)
  then show ?thesis
    using assms(2) op by (auto simp: live_apply_def split: if_splits sum.splits)
qed

lemma ls_wf_empty: "ls_wf empty_live_set"
  by (simp add: ls_wf_def empty_live_set_def)

lemma ls_wf_prune: "ls_wf ls \<Longrightarrow> ls_wf (prune_ids at ls)"
  by (auto simp: prune_ids_def ls_wf_def Let_def split: list.splits)

lemma ls_wf_apply:
  assumes "ls_wf ls"
  shows "ls_wf (snd (live_apply lc ls entry sha))"
proof -
  obtain r ls1 u where op: "apply_op lc entry (ls, []) = (r, (ls1, u))" by (metis surj_pair)
  have wf1: "ls_wf ls1" using lj.journaled_good [OF journaled_apply_op assms op] .
  show ?thesis
  proof (cases "fst (live_apply lc ls entry sha)")
    case (Inl err)
    then have "live_apply lc ls entry sha = (Inl err, snd (live_apply lc ls entry sha))" by (metis prod.collapse)
    then have "snd (live_apply lc ls entry sha) = ls" by (rule apply_refused [OF assms])
    then show ?thesis using assms by simp
  next
    case (Inr x)
    then show ?thesis
      using op wf1 by (auto simp: live_apply_def ls_wf_def split: if_splits sum.splits
        intro!: ls_wf_prune [unfolded ls_wf_def])
  qed
qed

end
