(* ===== verification/Log_Chain.thy ===== *)
theory Log_Chain
  imports Part_Log
begin

text \<open>
  Reading a hash-chained log from the object store (\<open>parts/part_log.rs\<close>: \<open>catch_up\<close> and
  \<open>catch_up_schema\<close>, which are one loop over two kinds of state). The locale \<open>chained_log\<close> is what the
  loop relies on: applying an entry checks its place in the chain and advances the head. It is proved
  once that the windowed loop ends and equals the serial read, and that the head binds the whole log.
\<close>

section \<open>The catch-up loop\<close>

type_synonym log_head = "(nat \<times> string \<times> nat) option"

definition CATCH_UP_MAX_WINDOW :: nat where "CATCH_UP_MAX_WINDOW = 32"

text \<open>The body of one window: the loop either returns or goes on with the next window.\<close>

datatype 's window_end = Returned "nat res" 's | Continued nat 's

fun apply_window ::
  "('s \<Rightarrow> log_entry \<Rightarrow> string \<Rightarrow> unit res \<times> 's) \<Rightarrow> (string \<Rightarrow> log_entry res) \<Rightarrow> (string \<Rightarrow> string)
   \<Rightarrow> string option list \<Rightarrow> nat \<Rightarrow> 's \<Rightarrow> 's window_end" where
  "apply_window apply1 parse sha [] applied self = Continued applied self"
| "apply_window apply1 parse sha (None # rest) applied self = Returned (Inr applied) self"
| "apply_window apply1 parse sha (Some bytes # rest) applied self =
     (case parse bytes of
        Inl e \<Rightarrow> Returned (Inl e) self
      | Inr entry \<Rightarrow>
          (case apply1 self entry (sha bytes) of
             (Inl e, self') \<Rightarrow> Returned (Inl e) self'
           | (Inr _, self') \<Rightarrow> apply_window apply1 parse sha rest (applied + 1) self'))"

text \<open>The loop ends only at a missing entry or an error, so it is a partial function: \<open>None\<close> is a loop
  that never returns.\<close>

partial_function (option) catch_up_loop ::
  "('s \<Rightarrow> log_head) \<Rightarrow> ('s \<Rightarrow> log_entry \<Rightarrow> string \<Rightarrow> unit res \<times> 's) \<Rightarrow> (string \<Rightarrow> log_entry res) \<Rightarrow> (string \<Rightarrow> string)
   \<Rightarrow> (nat \<Rightarrow> string option res) \<Rightarrow> nat \<Rightarrow> nat \<Rightarrow> 's \<Rightarrow> (nat res \<times> 's) option" where
  "catch_up_loop head apply1 parse sha fetch window applied self =
     (let first = expected_seq (head self) in
      case res_map fetch [first ..< first + window] of
        Inl e \<Rightarrow> Some (Inl e, self)
      | Inr fetched \<Rightarrow>
          (case apply_window apply1 parse sha fetched applied self of
             Returned r self' \<Rightarrow> Some (r, self')
           | Continued applied' self' \<Rightarrow>
               catch_up_loop head apply1 parse sha fetch
                 (if list_all (\<lambda>b. b \<noteq> None) fetched then min (window * 2) CATCH_UP_MAX_WINDOW else window)
                 applied' self'))"

text \<open>The serial read the loop replaces: one entry after the other up to the first missing one.\<close>

fun serial_read ::
  "('s \<Rightarrow> log_entry \<Rightarrow> string \<Rightarrow> unit res \<times> 's) \<Rightarrow> (string \<Rightarrow> log_entry res) \<Rightarrow> (string \<Rightarrow> string)
   \<Rightarrow> string list \<Rightarrow> nat \<Rightarrow> 's \<Rightarrow> nat res \<times> 's" where
  "serial_read apply1 parse sha [] applied self = (Inr applied, self)"
| "serial_read apply1 parse sha (bytes # rest) applied self =
     (case parse bytes of
        Inl e \<Rightarrow> (Inl e, self)
      | Inr entry \<Rightarrow>
          (case apply1 self entry (sha bytes) of
             (Inl e, self') \<Rightarrow> (Inl e, self')
           | (Inr _, self') \<Rightarrow> serial_read apply1 parse sha rest (applied + 1) self'))"

lemma res_map_total: "res_map (\<lambda>x. Inr (f x)) xs = Inr (map f xs)"
  by (induction xs) simp_all

lemma apply_window_stops:
  assumes "apply_window apply1 parse sha (map Some bs) applied self = Returned r self'"
  shows "serial_read apply1 parse sha (bs @ cs) applied self = (r, self')"
  using assms by (induction bs arbitrary: applied self) (auto split: sum.splits prod.splits)

lemma apply_window_missing:
  "apply_window apply1 parse sha (map Some bs @ None # rest) applied self =
     (case serial_read apply1 parse sha bs applied self of (r, self') \<Rightarrow> Returned r self')"
  by (induction bs arbitrary: applied self) (auto split: sum.splits prod.splits)

lemma apply_window_continues:
  assumes "apply_window apply1 parse sha (map Some bs) applied self = Continued applied' self'"
  shows "serial_read apply1 parse sha (bs @ cs) applied self = serial_read apply1 parse sha cs applied' self'"
  using assms by (induction bs arbitrary: applied self) (auto split: sum.splits prod.splits)

lemma serial_read_applied:
  "serial_read apply1 parse sha bs applied self = (Inr n, self') \<Longrightarrow> n = applied + length bs"
  by (induction bs arbitrary: applied self) (fastforce split: sum.splits prod.splits)+

lemma serial_read_append:
  "serial_read apply1 parse sha (bs @ cs) applied self =
     (case serial_read apply1 parse sha bs applied self of
        (Inl e, self') \<Rightarrow> (Inl e, self') | (Inr n, self') \<Rightarrow> serial_read apply1 parse sha cs n self')"
  by (induction bs arbitrary: applied self) (auto split: sum.splits prod.splits)

lemma serial_read_count:
  "serial_read apply1 parse sha bs applied self = (Inr n, self')
   \<Longrightarrow> serial_read apply1 parse sha bs k self = (Inr (k + length bs), self')"
  by (induction bs arbitrary: applied k self) (fastforce split: sum.splits prod.splits)+

definition head_key :: "log_head \<Rightarrow> (nat \<times> string) option" where
  "head_key h = map_option (\<lambda>(seq, sha, _). (seq, sha)) h"

lemma head_key_expected:
  "expected_seq h = expected_seq h' \<Longrightarrow> expected_prev h = expected_prev h' \<Longrightarrow> head_key h = head_key h'"
  by (auto simp: head_key_def expected_seq_def expected_prev_def split: option.splits)

section \<open>The contract of a chained state\<close>

definition hash_collides :: "(string \<Rightarrow> string) \<Rightarrow> bool" where
  "hash_collides sha \<longleftrightarrow> (\<exists>x y. x \<noteq> y \<and> sha x = sha y)"

locale chained_log =
  fixes head :: "'s \<Rightarrow> log_head"
    and apply1 :: "'s \<Rightarrow> log_entry \<Rightarrow> string \<Rightarrow> unit res \<times> 's"
    and good :: "'s \<Rightarrow> bool"
  assumes apply_ok: "good s \<Longrightarrow> apply1 s e h = (Inr u, s') \<Longrightarrow>
      le_seq e = expected_seq (head s) \<and> le_prev_sha256 e = expected_prev (head s)
      \<and> min_epoch (head s) \<le> le_writer_epoch e
      \<and> head s' = Some (le_seq e, h, le_writer_epoch e) \<and> good s'"
    and apply_err: "good s \<Longrightarrow> apply1 s e h = (Inl err, s') \<Longrightarrow> s' = s"
begin

lemma apply_window_advances:
  assumes "apply_window apply1 parse sha (map Some bs) applied s = Continued applied' s'" "good s"
  shows "expected_seq (head s') = expected_seq (head s) + length bs \<and> good s' \<and> applied' = applied + length bs"
  using assms
proof (induction bs arbitrary: applied s)
  case (Cons b bs)
  then obtain e u s1 where s1: "parse b = Inr e" "apply1 s e (sha b) = (Inr u, s1)"
    "apply_window apply1 parse sha (map Some bs) (applied + 1) s1 = Continued applied' s'"
    by (auto split: sum.splits prod.splits)
  note ok = apply_ok [OF Cons.prems(2) s1(2)]
  then have "expected_seq (head s1) = expected_seq (head s) + 1" by (simp add: expected_seq_def)
  then show ?case using Cons.IH [OF s1(3)] ok by simp
qed simp

text \<open>The windowed loop returns, with exactly the outcome of the serial read.\<close>

lemma catch_up_serial:
  assumes "good s" "0 < window" and present: "\<And>i. i < length bs \<Longrightarrow> store (expected_seq (head s) + i) = Some (bs ! i)"
    and missing: "store (expected_seq (head s) + length bs) = None"
  shows "catch_up_loop head apply1 parse sha (\<lambda>i. Inr (store i)) window applied s
    = Some (serial_read apply1 parse sha bs applied s)"
  using assms
proof (induction "length bs" arbitrary: bs window applied s rule: less_induct)
  case less
  let ?first = "expected_seq (head s)"
  let ?fetched = "map store [?first ..< ?first + window]"
  show ?case
  proof (cases "window \<le> length bs")
    case True
    have fetched: "?fetched = map Some (take window bs)"
      by (rule nth_equalityI) (use True less.prems(3) in auto)
    show ?thesis
    proof (cases "apply_window apply1 parse sha (map Some (take window bs)) applied s")
      case (Returned r s')
      then show ?thesis
        using apply_window_stops [OF Returned, of "drop window bs"]
        by (subst catch_up_loop.simps) (simp add: Let_def res_map_total fetched)
    next
      case (Continued applied' s')
      have adv: "expected_seq (head s') = ?first + window" "good s'"
        using apply_window_advances [OF Continued less.prems(1)] True by simp_all
      have "catch_up_loop head apply1 parse sha (\<lambda>i. Inr (store i)) (min (window * 2) CATCH_UP_MAX_WINDOW) applied' s'
          = Some (serial_read apply1 parse sha (drop window bs) applied' s')"
      proof (rule less.hyps)
        show "length (drop window bs) < length bs" using True less.prems(2) by simp
        show "store (expected_seq (head s') + i) = Some (drop window bs ! i)" if "i < length (drop window bs)" for i
          using less.prems(3) [of "window + i"] that adv by (simp add: add.assoc)
        show "store (expected_seq (head s') + length (drop window bs)) = None"
          using less.prems(4) True adv by simp
      qed (use adv less.prems(2) in \<open>simp_all add: CATCH_UP_MAX_WINDOW_def\<close>)
      then show ?thesis
        using apply_window_continues [OF Continued, of "drop window bs"]
        by (subst catch_up_loop.simps) (simp add: Let_def res_map_total fetched Continued list_all_iff)
    qed
  next
    case False
    let ?rest = "map store [?first + length bs + 1 ..< ?first + window]"
    have "[?first ..< ?first + window]
        = [?first ..< ?first + length bs] @ (?first + length bs) # [?first + length bs + 1 ..< ?first + window]"
      using False upt_add_eq_append [of ?first "?first + length bs" "window - length bs"]
      by (simp add: upt_conv_Cons)
    moreover have "map store [?first ..< ?first + length bs] = map Some bs"
      by (rule nth_equalityI) (use less.prems(3) in auto)
    ultimately have fetched: "?fetched = map Some bs @ None # ?rest" using less.prems(4) by simp
    show ?thesis
      by (subst catch_up_loop.simps)
        (simp add: Let_def res_map_total fetched apply_window_missing split: prod.splits)
  qed
qed

lemma serial_read_good: "serial_read apply1 parse sha bs applied s = (r, s') \<Longrightarrow> good s \<Longrightarrow> good s'"
proof (induction bs arbitrary: applied s)
  case (Cons b bs)
  show ?case
  proof (cases "parse b")
    case (Inr e)
    then show ?thesis
      using Cons apply_ok [of s e "sha b"] apply_err [of s e "sha b"]
      by (cases "apply1 s e (sha b)") (auto split: sum.splits)
  qed (use Cons.prems in auto)
qed simp

lemma serial_read_snoc:
  assumes "serial_read apply1 parse sha (bs @ [b]) applied s = (Inr n, s')" "good s"
  shows "\<exists>e u s1. serial_read apply1 parse sha bs applied s = (Inr (applied + length bs), s1) \<and> good s1
    \<and> parse b = Inr e \<and> apply1 s1 e (sha b) = (Inr u, s')"
proof -
  obtain r s1 where s1: "serial_read apply1 parse sha bs applied s = (r, s1)" by (metis surj_pair)
  have "good s1" using s1 assms(2) by (rule serial_read_good)
  then show ?thesis
    using assms(1) s1 serial_read_applied [of apply1 parse sha bs applied s _ s1]
    by (cases r) (auto simp: serial_read_append split: sum.splits prod.splits)
qed

lemma serial_read_head:
  assumes "serial_read apply1 parse sha bs applied s = (Inr n, s')" "good s"
  shows "expected_seq (head s') = expected_seq (head s) + length bs"
    and "bs \<noteq> [] \<Longrightarrow> \<exists>q ep. head s' = Some (q, sha (last bs), ep) \<and> q + 1 = expected_seq (head s) + length bs"
proof -
  show seq: "expected_seq (head s') = expected_seq (head s) + length bs"
    using assms
  proof (induction bs arbitrary: applied s)
    case (Cons b bs)
    then obtain e u s1 where s1: "apply1 s e (sha b) = (Inr u, s1)"
      "serial_read apply1 parse sha bs (applied + 1) s1 = (Inr n, s')"
      by (auto split: sum.splits prod.splits)
    note ok = apply_ok [OF Cons.prems(2) s1(1)]
    then have "expected_seq (head s1) = expected_seq (head s) + 1" by (simp add: expected_seq_def)
    then show ?case using Cons.IH [OF s1(2)] ok by simp
  qed simp
  assume "bs \<noteq> []"
  then obtain cs c where bs: "bs = cs @ [c]" by (cases bs rule: rev_cases) auto
  obtain e u s1 where "good s1" "apply1 s1 e (sha c) = (Inr u, s')"
    using serial_read_snoc [OF assms(1) [unfolded bs] assms(2)] by blast
  then have "head s' = Some (le_seq e, sha c, le_writer_epoch e)" using apply_ok by blast
  then show "\<exists>q ep. head s' = Some (q, sha (last bs), ep) \<and> q + 1 = expected_seq (head s) + length bs"
    using seq bs by (simp add: expected_seq_def)
qed

text \<open>The head commits to every entry before it.\<close>

lemma head_binds:
  assumes "good s0" "head s0 = None"
    and "serial_read apply1 parse sha bs 0 s0 = (Inr m, s)" "serial_read apply1 parse sha cs 0 s0 = (Inr n, t)"
    and "head_key (head s) = head_key (head t)"
  shows "bs = cs \<or> hash_collides sha"
  using assms(3-5)
proof (induction bs arbitrary: cs m n s t rule: rev_induct)
  case Nil
  show ?case
  proof (cases cs rule: rev_cases)
    case (snoc ds d)
    then show ?thesis
      using Nil assms(1,2) serial_read_snoc [of parse sha ds d 0 s0 n t] apply_ok by (fastforce simp: head_key_def)
  qed simp
next
  case (snoc b bs)
  obtain e u s1 where s1: "serial_read apply1 parse sha bs 0 s0 = (Inr (length bs), s1)" "good s1"
    "parse b = Inr e" "apply1 s1 e (sha b) = (Inr u, s)"
    using serial_read_snoc [OF snoc.prems(1) assms(1)] by auto
  have hs: "head s = Some (le_seq e, sha b, le_writer_epoch e)" using apply_ok [OF s1(2,4)] by simp
  show ?case
  proof (cases cs rule: rev_cases)
    case Nil
    then show ?thesis using snoc.prems(2,3) assms(2) hs by (simp add: head_key_def)
  next
    case (snoc ds d)
    note prems = \<open>serial_read apply1 parse sha cs 0 s0 = (Inr n, t)\<close> \<open>head_key (head s) = head_key (head t)\<close>
    obtain f v t1 where t1: "serial_read apply1 parse sha ds 0 s0 = (Inr (length ds), t1)" "good t1"
      "parse d = Inr f" "apply1 t1 f (sha d) = (Inr v, t)"
      using serial_read_snoc [OF prems(1) [unfolded snoc] assms(1)] by auto
    have "sha b = sha d" using prems(2) hs apply_ok [OF t1(2,4)] by (simp add: head_key_def)
    show ?thesis
    proof (cases "b = d")
      case True
      then have "head_key (head s1) = head_key (head t1)"
        using apply_ok [OF s1(2,4)] apply_ok [OF t1(2,4)] s1(3) t1(3) by (intro head_key_expected) auto
      then show ?thesis using snoc.IH [OF s1(1) t1(1)] True snoc by simp
    next
      case False
      then show ?thesis using \<open>sha b = sha d\<close> by (auto simp: hash_collides_def)
    qed
  qed
qed

end

end
