(* ===== verification/Part_Log_Spec.thy ===== *)
theory Part_Log_Spec
  imports Part_Log
begin

text \<open>
  A reference semantics of the part log without in-place mutation: an entry maps a live set to a new
  one or to an error. The journaled \<open>apply\<close> is shown equal to it, and the log's contract is proved
  on the reference in the theories that follow.
\<close>

section \<open>Reference operations\<close>

definition add_part :: "int \<Rightarrow> part_ref \<Rightarrow> live_set \<Rightarrow> live_set" where
  "add_part at p ls =
     ls\<lparr> ls_seen := bput (pt_part_id p) () (ls_seen ls), ls_live := bput (pt_part_id p) p (ls_live ls),
         ls_added_at := bput (pt_part_id p) at (ls_added_at ls) \<rparr>"

definition remove_part :: "nat \<Rightarrow> int \<Rightarrow> part_id \<Rightarrow> part_ref \<Rightarrow> live_set \<Rightarrow> live_set" where
  "remove_part seq at pid part ls =
     ls\<lparr> ls_live := bdel pid (ls_live ls), ls_removed_refs := bput pid part (ls_removed_refs ls),
         ls_removed := bput pid (seq, at) (ls_removed ls) \<rparr>"

definition spec_add :: "int \<Rightarrow> part_ref \<Rightarrow> live_set \<Rightarrow> live_set res" where
  "spec_add at p ls =
     bind_res (part_ref_validate p) (\<lambda>_.
     bind_res (ensure (sat_sub_i64 at ID_MEMORY_MS \<le> created_unix_ms (pt_part_id p))
       ''log adds part created outside the id memory window'') (\<lambda>_.
     bind_res (ensure (\<not> bhas (ls_seen ls) (pt_part_id p)) ''log adds part twice'') (\<lambda>_.
       Inr (add_part at p ls))))"

definition spec_remove :: "nat \<Rightarrow> int \<Rightarrow> part_id \<Rightarrow> live_set \<Rightarrow> live_set res" where
  "spec_remove seq at pid ls =
     bind_res (ok_or (map_of (ls_live ls) pid) ''log removes part that is not live'') (\<lambda>part.
       Inr (remove_part seq at pid part ls))"

definition spec_consume :: "log_crates \<Rightarrow> int \<Rightarrow> source_ref \<Rightarrow> live_set \<Rightarrow> live_set res" where
  "spec_consume lc at source ls =
     Inr (ls\<lparr> ls_consumed := bput (source_identity lc source) at (ls_consumed ls) \<rparr>)"

fun spec_for :: "('a \<Rightarrow> live_set \<Rightarrow> live_set res) \<Rightarrow> 'a list \<Rightarrow> live_set \<Rightarrow> live_set res" where
  "spec_for f [] ls = Inr ls"
| "spec_for f (x # xs) ls = bind_res (f x ls) (spec_for f xs)"

section \<open>Journaled operations compute the reference\<close>

definition outcome :: "'a res \<times> (live_set \<times> undo list) \<Rightarrow> live_set res" where
  "outcome r = (case fst r of Inl e \<Rightarrow> Inl e | Inr _ \<Rightarrow> Inr (fst (snd r)))"

definition computes :: "'a log_step \<Rightarrow> (live_set \<Rightarrow> live_set res) \<Rightarrow> bool" where
  "computes m f \<longleftrightarrow> (\<forall>ls u. f ls = outcome (m (ls, u)))"

lemma outcome_simps [simp]: "outcome (Inl e, s) = Inl e" "outcome (Inr x, (ls, u)) = Inr ls"
  by (simp_all add: outcome_def)

lemma computesD: "computes m f \<Longrightarrow> m (ls, u) = r \<Longrightarrow> f ls = outcome r"
  by (auto simp: computes_def)

lemma computes_bind:
  assumes "computes m f" "\<And>x. computes (k x) g"
  shows "computes (j_bind m k) (\<lambda>ls. bind_res (f ls) g)"
  unfolding computes_def
proof (intro allI)
  fix ls u
  obtain r ls1 u1 where m: "m (ls, u) = (r, (ls1, u1))" by (metis surj_pair)
  have f: "f ls = outcome (r, (ls1, u1))" by (rule computesD [OF assms(1) m])
  show "bind_res (f ls) g = outcome (j_bind m k (ls, u))"
  proof (cases r)
    case (Inr x)
    have "g ls1 = outcome (k x (ls1, u1))" by (rule computesD [OF assms(2) refl])
    then show ?thesis using Inr m f by (simp add: j_bind_def)
  qed (use m f in \<open>simp add: j_bind_def\<close>)
qed

lemma computes_guard: "(\<And>x. computes (k x) g) \<Longrightarrow> computes (j_bind (j_lift r) k) (\<lambda>ls. bind_res r (\<lambda>_. g ls))"
  by (cases r) (simp_all add: computes_def j_bind_def j_lift_def)

lemma computes_fail: "computes (j_lift (Inl e)) (\<lambda>ls. Inl e)"
  by (simp add: computes_def j_lift_def)

lemma computes_skip: "computes (j_lift (Inr x)) (\<lambda>ls. Inr ls)"
  by (simp add: computes_def j_lift_def)

lemma computes_lift: "computes (j_lift r) (\<lambda>ls. bind_res r (\<lambda>_. Inr ls))"
  by (cases r) (simp_all add: computes_def j_lift_def)

lemma computes_read: "(\<And>x. computes (k x) (g x)) \<Longrightarrow> computes (j_bind (j_read h) k) (\<lambda>ls. bind_res (h ls) (\<lambda>x. g x ls))"
  unfolding computes_def j_bind_def j_read_def by (auto split: sum.split)

lemma computes_update: "computes (j_update f) (\<lambda>ls. Inr (f ls))"
  by (simp add: computes_def j_update_def)

lemma computes_end_edge:
  "computes (j_bind (j_update f) (\<lambda>_. j_bind (j_lift r) (\<lambda>_. j_update g))) (\<lambda>ls. bind_res r (\<lambda>_. Inr (g (f ls))))"
  by (cases r) (simp_all add: computes_def j_bind_def j_lift_def j_update_def)

lemma computes_for:
  assumes "\<And>x. computes (f x) (g x)"
  shows "computes (j_for f xs) (spec_for g xs)"
proof (induction xs)
  case Nil
  then show ?case by (simp add: computes_def j_lift_def)
next
  case (Cons x xs)
  have "spec_for g (x # xs) = (\<lambda>ls. bind_res (g x ls) (spec_for g xs))" by (rule ext) simp
  then show ?case using computes_bind [OF assms Cons.IH] by simp
qed

lemma computes_add: "computes (live_add p at) (spec_add at p)"
  by (cases "part_ref_validate p")
    (auto simp: computes_def live_add_def spec_add_def add_part_def j_bind_def j_lift_def ensure_def Let_def)

lemma computes_remove: "computes (live_remove seq at pid) (spec_remove seq at pid)"
  by (auto simp: computes_def live_remove_def spec_remove_def remove_part_def split: option.split)

lemma computes_consume: "computes (live_consume lc at source) (spec_consume lc at source)"
  by (simp add: computes_def live_consume_def spec_consume_def Let_def)

section \<open>Reference semantics of an entry\<close>

definition spec_edge_point :: "string \<Rightarrow> edge_log_range option \<Rightarrow> live_set \<Rightarrow> live_set res" where
  "spec_edge_point tenant edge_log ls =
     (case edge_log of
        None \<Rightarrow> Inr ls
      | Some rng \<Rightarrow>
          bind_res (ensure (el_log rng = ''edgelog:'' @ tenant) ''edge log range names another tenant'') (\<lambda>_.
            Inr (ls\<lparr> ls_edge := Some \<lparr> ep_log = el_log rng, ep_through_seq = el_through_seq rng,
                                      ep_through_chain = el_through_chain rng \<rparr> \<rparr>)))"

definition spec_schema :: "log_crates \<Rightarrow> log_schema \<Rightarrow> live_set \<Rightarrow> live_set res" where
  "spec_schema lc schema ls =
     bind_res (log_schema_to_arrow lc schema) (\<lambda>_. Inr (ls\<lparr> ls_schema := Some schema \<rparr>))"

definition spec_supersede :: "nat \<Rightarrow> int \<Rightarrow> part_ref \<Rightarrow> part_id list \<Rightarrow> live_set \<Rightarrow> live_set res" where
  "spec_supersede seq at out supersedes ls =
     bind_res (ensure (supersedes \<noteq> []) ''merge entry supersedes nothing'') (\<lambda>_.
     bind_res (spec_for (spec_remove seq at) supersedes ls) (spec_add at out))"

definition spec_nongenesis :: "log_crates \<Rightarrow> log_entry \<Rightarrow> live_set \<Rightarrow> live_set res" where
  "spec_nongenesis lc entry ls =
     (let seq = le_seq entry; at = le_appended_at_ms entry; tenant = le_tenant_id entry in
      case le_op entry of
        Genesis _ \<Rightarrow> Inl (Bail ''genesis after seq 0'')
      | Schema schema \<Rightarrow> spec_schema lc schema ls
      | Add parts consumed edge_log \<Rightarrow>
          bind_res (ensure (\<not> (parts = [] \<or> consumed = [])) ''add entry has no parts or no sources'') (\<lambda>_.
          bind_res (add_edge_check lc tenant consumed edge_log ls) (\<lambda>_.
          bind_res (spec_edge_point tenant edge_log ls) (\<lambda>ls.
          bind_res (spec_for (\<lambda>part ls.
              bind_res (ensure (pt_level part = L0 \<and> pt_sorted part) ''add entry carries a non-L0 part'') (\<lambda>_.
                spec_add at part ls)) parts ls) (\<lambda>ls.
            spec_for (spec_consume lc at) consumed ls))))
      | Merge out supersedes \<Rightarrow> spec_supersede seq at out supersedes ls
      | Rewrite out supersedes _ \<Rightarrow> spec_supersede seq at out supersedes ls
      | EdgeFloor through_seq through_chain reason \<Rightarrow>
          bind_res (ensure (edge_text_ok through_chain reason) ''edge floor entry is malformed'') (\<lambda>_.
          bind_res (ensure (case ls_edge ls of None \<Rightarrow> True | Some point \<Rightarrow> ep_through_seq point \<le> through_seq)
            ''edge floor moves backwards'') (\<lambda>_.
          bind_res (ensure (\<not> (ls_edge ls = None \<and> ls_edge_ended ls \<noteq> None))
            ''edge floor after edge mode ended'') (\<lambda>_.
            Inr (ls\<lparr> ls_edge := Some \<lparr> ep_log = ''edgelog:'' @ tenant, ep_through_seq = through_seq,
                                      ep_through_chain = through_chain \<rparr> \<rparr>))))
      | Reject rejections \<Rightarrow>
          bind_res (ensure (\<not> (rejections = [] \<or> 1000 < length rejections))
            ''reject entry has no or too many rejections'') (\<lambda>_.
          bind_res (res_all (\<lambda>r. ensure (rejection_ok r) ''reject entry is malformed'') rejections) (\<lambda>_. Inr ls))
      | EdgeEnd through_seq through_chain reason \<Rightarrow>
          bind_res (ensure (edge_text_ok through_chain reason) ''edge end entry is malformed'') (\<lambda>_.
          bind_res (ok_or (ls_edge ls) ''edge end outside edge mode'') (\<lambda>point.
          bind_res (ensure (ep_through_seq point = through_seq \<and> ep_through_chain point = through_chain)
            ''edge end is not at the consumed point'') (\<lambda>_.
            Inr (ls\<lparr> ls_edge := None, ls_edge_ended := Some point \<rparr>))))
      | Retire parts _ _ \<Rightarrow>
          bind_res (ensure (parts \<noteq> []) ''retire entry names no part'') (\<lambda>_.
            spec_for (spec_remove seq at) parts ls)
      | Adopt parts \<Rightarrow>
          bind_res (ensure (parts \<noteq> []) ''adopt entry names no part'') (\<lambda>_.
            spec_for (\<lambda>part ls.
              bind_res (ensure (pt_level part = Hour \<or> pt_level part = Day)
                ''adopted parts must be hour or day parts'') (\<lambda>_.
              bind_res (ensure (\<not> pt_sorted part) ''adopt entry carries a sorted part'') (\<lambda>_.
                spec_add at part ls))) parts ls))"

definition spec_op :: "log_crates \<Rightarrow> log_entry \<Rightarrow> live_set \<Rightarrow> live_set res" where
  "spec_op lc entry ls =
     (if le_seq entry = 0 then
        (case le_op entry of
           Genesis schema \<Rightarrow> spec_schema lc schema ls
         | _ \<Rightarrow> Inl (Bail ''seq 0 must be genesis''))
      else spec_nongenesis lc entry ls)"

definition spec_apply :: "log_crates \<Rightarrow> live_set \<Rightarrow> log_entry \<Rightarrow> string \<Rightarrow> live_set res" where
  "spec_apply lc ls entry sha =
     bind_res (ensure (le_seq entry = expected_seq (ls_head ls) \<and> le_prev_sha256 entry = expected_prev (ls_head ls))
       ''log chain is broken'') (\<lambda>_.
     bind_res (ensure (min_epoch (ls_head ls) \<le> le_writer_epoch entry) ''log entry regresses the writer epoch'') (\<lambda>_.
     bind_res (spec_op lc entry ls) (\<lambda>next.
       Inr (prune_ids (le_appended_at_ms entry)
         (next\<lparr> ls_head := Some (le_seq entry, sha, le_writer_epoch entry) \<rparr>)))))"


section \<open>The journaled apply is the reference\<close>

lemma computes_schema: "computes (set_schema lc schema) (spec_schema lc schema)"
  unfolding set_schema_def spec_schema_def by (intro computes_guard computes_update)

lemma computes_edge_point: "computes (add_edge_point tenant edge_log) (spec_edge_point tenant edge_log)"
  unfolding add_edge_point_def spec_edge_point_def
  by (cases edge_log) (auto intro!: computes_guard computes_update computes_skip)

lemma computes_supersede: "computes (apply_supersede seq at out supersedes) (spec_supersede seq at out supersedes)"
  unfolding apply_supersede_def spec_supersede_def
  by (intro computes_guard computes_bind computes_for computes_remove computes_add)

lemma computes_nongenesis: "computes (apply_nongenesis lc entry) (spec_nongenesis lc entry)"
proof (cases "le_op entry")
  case (Add parts consumed edge_log)
  then show ?thesis
    unfolding apply_nongenesis_def spec_nongenesis_def Let_def
    by simp (intro computes_guard computes_read computes_bind computes_edge_point computes_for computes_add computes_consume)
next
  case (EdgeFloor through_seq through_chain reason)
  then show ?thesis
    unfolding apply_nongenesis_def spec_nongenesis_def Let_def
    by simp (intro computes_guard computes_read computes_update)
next
  case (EdgeEnd through_seq through_chain reason)
  then show ?thesis
    unfolding apply_nongenesis_def spec_nongenesis_def Let_def
    using computes_end_edge [where f = "\<lambda>ls. ls\<lparr> ls_edge := None \<rparr>" and g = "\<lambda>ls. ls\<lparr> ls_edge_ended := Some x \<rparr>" for x]
    by (auto intro!: computes_guard computes_read)
next
  case (Retire parts r t)
  then show ?thesis
    unfolding apply_nongenesis_def spec_nongenesis_def Let_def
    by simp (intro computes_guard computes_for computes_remove)
next
  case (Adopt parts)
  then show ?thesis
    unfolding apply_nongenesis_def spec_nongenesis_def Let_def
    by simp (intro computes_guard computes_for computes_add)
next
  case (Reject rejections)
  then show ?thesis
    unfolding apply_nongenesis_def spec_nongenesis_def Let_def
    by simp (intro computes_guard computes_lift)
qed (simp_all add: apply_nongenesis_def [abs_def] spec_nongenesis_def [abs_def] computes_fail computes_schema computes_supersede)

lemma computes_apply_op: "computes (apply_op lc entry) (spec_op lc entry)"
proof (cases "le_seq entry = 0")
  case True
  then show ?thesis
    by (cases "le_op entry") (simp_all add: apply_op_def spec_op_def [abs_def] computes_fail computes_schema)
next
  case False
  then show ?thesis using computes_nongenesis by (simp add: apply_op_def spec_op_def [abs_def])
qed

lemma apply_is_spec:
  assumes "ls_wf ls"
  shows "live_apply lc ls entry sha =
    (case spec_apply lc ls entry sha of Inl e \<Rightarrow> (Inl e, ls) | Inr ls' \<Rightarrow> (Inr (), ls'))"
proof -
  obtain r ls1 u where op: "apply_op lc entry (ls, []) = (r, (ls1, u))" by (metis surj_pair)
  then have spec: "spec_op lc entry ls = outcome (r, (ls1, u))"
    by (rule computesD [OF computes_apply_op])
  show ?thesis
  proof (cases "fst (live_apply lc ls entry sha)")
    case (Inl e)
    then have "live_apply lc ls entry sha = (Inl e, ls)"
      using apply_refused [OF assms] by (metis prod.collapse)
    moreover have "spec_apply lc ls entry sha = Inl e"
      using Inl op spec by (cases r) (auto simp: live_apply_def spec_apply_def ensure_def split: if_splits)
    ultimately show ?thesis by simp
  next
    case (Inr x)
    then show ?thesis
      using op spec by (cases r) (auto simp: live_apply_def spec_apply_def ensure_def split: if_splits)
  qed
qed

end
