(* ===== verification/Part_Log_Props.thy ===== *)
theory Part_Log_Props
  imports Part_Log_Spec
begin

text \<open>
  The contract of the part log, proved on the reference semantics: what an entry adds and removes, which
  parts are live after a log, that a part id is added once although the set forgets old ids, and that
  what it remembers stays within the id memory window.
\<close>

section \<open>What an entry adds and removes\<close>

fun op_added :: "log_op \<Rightarrow> part_ref list" where
  "op_added (Add parts _ _) = parts"
| "op_added (Adopt parts) = parts"
| "op_added (Merge out _) = [out]"
| "op_added (Rewrite out _ _) = [out]"
| "op_added _ = []"

fun op_removed :: "log_op \<Rightarrow> part_id list" where
  "op_removed (Merge _ ids) = ids"
| "op_removed (Rewrite _ ids _) = ids"
| "op_removed (Retire ids _ _) = ids"
| "op_removed _ = []"

lemma spec_for_inv:
  assumes "spec_for f xs ls = Inr ls'" "I ls"
    and "\<And>x a b. x \<in> set xs \<Longrightarrow> I a \<Longrightarrow> f x a = Inr b \<Longrightarrow> I b"
  shows "I ls'"
  using assms by (induction xs arbitrary: ls) (auto simp: res_simps)

definition add_ok :: "int \<Rightarrow> part_ref \<Rightarrow> live_set \<Rightarrow> bool" where
  "add_ok at p ls \<longleftrightarrow> part_ref_validate p = Inr () \<and> sat_sub_i64 at ID_MEMORY_MS \<le> created_unix_ms (pt_part_id p)
     \<and> \<not> bhas (ls_seen ls) (pt_part_id p)"

lemma spec_add_Inr: "spec_add at p ls = Inr ls' \<longleftrightarrow> add_ok at p ls \<and> ls' = add_part at p ls"
  by (auto simp: spec_add_def add_ok_def res_simps)

lemma spec_remove_Inr:
  "spec_remove seq at pid ls = Inr ls' \<longleftrightarrow> (\<exists>part. map_of (ls_live ls) pid = Some part \<and> ls' = remove_part seq at pid part ls)"
  by (auto simp: spec_remove_def res_simps)

text \<open>Invariants of an entry: what every elementary change keeps, the entry keeps.\<close>

lemma spec_op_inv:
  assumes run: "spec_op lc e ls = Inr ls'" and start: "I ls"
    and add: "\<And>p a. I a \<Longrightarrow> p \<in> set (op_added (le_op e)) \<Longrightarrow> add_ok (le_appended_at_ms e) p a
      \<Longrightarrow> I (add_part (le_appended_at_ms e) p a)"
    and remove: "\<And>pid part a. I a \<Longrightarrow> pid \<in> set (op_removed (le_op e)) \<Longrightarrow> map_of (ls_live a) pid = Some part
      \<Longrightarrow> I (remove_part (le_seq e) (le_appended_at_ms e) pid part a)"
    and consumed: "\<And>a sid. I a \<Longrightarrow> I (a\<lparr> ls_consumed := bput sid (le_appended_at_ms e) (ls_consumed a) \<rparr>)"
    and schema: "\<And>a x. I a \<Longrightarrow> le_op e = Genesis x \<or> le_op e = Schema x \<Longrightarrow> I (a\<lparr> ls_schema := Some x \<rparr>)"
    and edge: "\<And>a x. I a \<Longrightarrow> I (a\<lparr> ls_edge := x \<rparr>)"
    and ended: "\<And>a x. I a \<Longrightarrow> I (a\<lparr> ls_edge_ended := x \<rparr>)"
  shows "I ls'"
proof -
  have supersede: "I b" if s: "spec_supersede (le_seq e) (le_appended_at_ms e) out ids a = Inr b" "I a"
    "out \<in> set (op_added (le_op e))" "set ids \<subseteq> set (op_removed (le_op e))" for out ids a b
  proof -
    obtain c where c: "spec_for (spec_remove (le_seq e) (le_appended_at_ms e)) ids a = Inr c"
      "spec_add (le_appended_at_ms e) out c = Inr b"
      using s(1) by (auto simp: spec_supersede_def res_simps)
    have "I c" using c(1) that(2) by (rule spec_for_inv) (use that(4) remove in \<open>auto simp: spec_remove_Inr\<close>)
    then show ?thesis using c(2) that(3) add by (auto simp: spec_add_Inr)
  qed
  show ?thesis
  proof (cases "le_seq e = 0")
    case True
    then show ?thesis
      using run start schema by (auto simp: spec_op_def spec_schema_def res_simps split: log_op.splits)
  next
    case False
    then have run': "spec_nongenesis lc e ls = Inr ls'" using run by (simp add: spec_op_def)
    show ?thesis
    proof (cases "le_op e")
      case (Add parts sources rng)
      obtain a b where ab: "spec_edge_point (le_tenant_id e) rng ls = Inr a"
        "spec_for (\<lambda>part ls. bind_res (ensure (pt_level part = L0 \<and> pt_sorted part) ''add entry carries a non-L0 part'')
           (\<lambda>_. spec_add (le_appended_at_ms e) part ls)) parts a = Inr b"
        "spec_for (spec_consume lc (le_appended_at_ms e)) sources b = Inr ls'"
        using run' Add by (auto simp: spec_nongenesis_def res_simps Let_def)
      have "I a" using ab(1) start edge by (auto simp: spec_edge_point_def res_simps split: option.splits)
      with ab(2) have "I b" by (rule spec_for_inv) (use Add add in \<open>auto simp: spec_add_Inr res_simps\<close>)
      with ab(3) show ?thesis by (rule spec_for_inv) (use consumed in \<open>auto simp: spec_consume_def\<close>)
    next
      case (Adopt parts)
      show ?thesis
        using run' start unfolding spec_nongenesis_def Let_def Adopt
        by (auto simp: res_simps elim!: spec_for_inv intro!: add simp: spec_add_Inr Adopt)
    next
      case (Retire ids r t)
      show ?thesis
        using run' start unfolding spec_nongenesis_def Let_def Retire
        by (auto simp: res_simps elim!: spec_for_inv intro!: remove simp: spec_remove_Inr Retire)
    next
      case (Merge out ids)
      then show ?thesis using supersede [of out ids ls ls'] run' start by (simp add: spec_nongenesis_def)
    next
      case (Rewrite out ids r)
      then show ?thesis using supersede [of out ids ls ls'] run' start by (simp add: spec_nongenesis_def)
    next
      case (EdgeEnd s c r)
      then show ?thesis using run' ended [OF edge [OF start]] by (auto simp: spec_nongenesis_def res_simps)
    next
      case (EdgeFloor s c r)
      then show ?thesis using run' edge start by (auto simp: spec_nongenesis_def res_simps Let_def)
    qed (use run' start schema in \<open>auto simp: spec_nongenesis_def spec_schema_def res_simps\<close>)
  qed
qed


section \<open>Replaying a log\<close>

text \<open>Fold a list of entries, each with the digest of its bytes, stopping at the first refusal.\<close>

fun replay :: "log_crates \<Rightarrow> live_set \<Rightarrow> (log_entry \<times> string) list \<Rightarrow> live_set res" where
  "replay lc ls [] = Inr ls"
| "replay lc ls ((entry, sha) # rest) =
     (case live_apply lc ls entry sha of (Inl e, _) \<Rightarrow> Inl e | (Inr _, ls') \<Rightarrow> replay lc ls' rest)"

lemma apply_Inr:
  assumes "ls_wf ls"
  shows "live_apply lc ls entry sha = (Inr u, ls') \<longleftrightarrow> spec_apply lc ls entry sha = Inr ls'"
  using apply_is_spec [OF assms, of lc entry sha] by (auto split: sum.splits)

lemma spec_apply_wf: "ls_wf ls \<Longrightarrow> spec_apply lc ls entry sha = Inr ls' \<Longrightarrow> ls_wf ls'"
  using ls_wf_apply [of ls lc entry sha] apply_Inr [of ls lc entry sha "()" ls'] by simp

lemma spec_apply_Inr:
  "spec_apply lc ls entry sha = Inr ls' \<longleftrightarrow>
     le_seq entry = expected_seq (ls_head ls) \<and> le_prev_sha256 entry = expected_prev (ls_head ls)
     \<and> min_epoch (ls_head ls) \<le> le_writer_epoch entry
     \<and> (\<exists>next. spec_op lc entry ls = Inr next
          \<and> ls' = prune_ids (le_appended_at_ms entry) (next\<lparr> ls_head := Some (le_seq entry, sha, le_writer_epoch entry) \<rparr>))"
  by (auto simp: spec_apply_def res_simps)

lemma replay_Cons:
  assumes "ls_wf ls"
  shows "replay lc ls ((entry, sha) # rest) = Inr ls'' \<longleftrightarrow>
    (\<exists>ls'. spec_apply lc ls entry sha = Inr ls' \<and> replay lc ls' rest = Inr ls'')"
  by (auto simp: apply_is_spec [OF assms] split: sum.split)

lemma replay_append:
  "replay lc ls (es @ fs) = bind_res (replay lc ls es) (\<lambda>ls'. replay lc ls' fs)"
  by (induction lc ls es rule: replay.induct) (auto split: prod.splits sum.splits)

lemma replay_wf: "replay lc ls es = Inr ls' \<Longrightarrow> ls_wf ls \<Longrightarrow> ls_wf ls'"
  by (induction lc ls es rule: replay.induct) (auto simp: apply_is_spec spec_apply_wf split: sum.splits)

text \<open>Invariants of a replay, indexed by the entries applied so far.\<close>

lemma replay_induct:
  assumes "replay lc ls es = Inr ls'" "ls_wf ls" "I [] ls"
    and "\<And>pre e sha suf a b. es = pre @ (e, sha) # suf \<Longrightarrow> ls_wf a \<Longrightarrow> I pre a
      \<Longrightarrow> spec_apply lc a e sha = Inr b \<Longrightarrow> I (pre @ [(e, sha)]) b"
  shows "I es ls'"
  using assms
proof (induction es arbitrary: ls' rule: rev_induct)
  case (snoc x es)
  obtain e sha where x: "x = (e, sha)" by (cases x)
  obtain a where a: "replay lc ls es = Inr a" "replay lc a [(e, sha)] = Inr ls'"
    using snoc.prems(1) by (auto simp: replay_append x res_simps)
  have wf: "ls_wf a" using a(1) snoc.prems(2) by (rule replay_wf)
  have "I es a" by (rule snoc.IH [OF a(1) snoc.prems(2,3)]) (rule snoc.prems(4), auto)
  moreover have "spec_apply lc a e sha = Inr ls'" using a(2) by (simp add: apply_is_spec [OF wf] split: sum.splits)
  ultimately show ?case using snoc.prems(4) [of es e sha "[]" a ls'] wf by (simp add: x)
qed simp

section \<open>The live parts after an entry\<close>

abbreviation added_ids :: "log_entry \<Rightarrow> part_id set" where
  "added_ids e \<equiv> pt_part_id ` set (op_added (le_op e))"

abbreviation removed_ids :: "log_entry \<Rightarrow> part_id set" where
  "removed_ids e \<equiv> set (op_removed (le_op e))"

lemma prune_live [simp]: "ls_live (prune_ids at ls) = ls_live ls"
  by (auto simp: prune_ids_def Let_def split: list.splits)

lemma prune_fields [simp]:
  "ls_head (prune_ids at ls) = ls_head ls" "ls_schema (prune_ids at ls) = ls_schema ls"
  "ls_edge (prune_ids at ls) = ls_edge ls" "ls_edge_ended (prune_ids at ls) = ls_edge_ended ls"
  by (auto simp: prune_ids_def Let_def split: list.splits)

lemma prune_seen:
  assumes "bwf (ls_seen ls)"
  shows "bhas (ls_seen (prune_ids at ls)) pid \<Longrightarrow> bhas (ls_seen ls) pid"
    and "bhas (ls_seen ls) pid \<Longrightarrow> sat_sub_i64 at ID_MEMORY_MS \<le> created_unix_ms pid \<or> bhas (ls_live ls) pid
      \<Longrightarrow> bhas (ls_seen (prune_ids at ls)) pid"
  using assms bhas_bretain [of "ls_seen ls" "\<lambda>pid _. sat_sub_i64 at ID_MEMORY_MS \<le> created_unix_ms pid \<or> bhas (ls_live ls) pid" pid]
  by (auto simp: prune_ids_def Let_def bhas_def split: list.splits if_splits)

text \<open>The part state of a set: the other fields play no role in what an entry adds and removes.\<close>

definition core :: "live_set \<Rightarrow> live_set" where
  "core ls = ls\<lparr> ls_schema := None, ls_edge := None, ls_edge_ended := None, ls_consumed := [], ls_head := None \<rparr>"

lemma core_fields [simp]: "ls_live (core ls) = ls_live ls" "ls_seen (core ls) = ls_seen ls"
  "ls_removed (core ls) = ls_removed ls" "ls_removed_refs (core ls) = ls_removed_refs ls"
  "ls_added_at (core ls) = ls_added_at ls"
  by (simp_all add: core_def)

lemma core_update [simp]: "core (ls\<lparr> ls_schema := a \<rparr>) = core ls" "core (ls\<lparr> ls_edge := b \<rparr>) = core ls"
  "core (ls\<lparr> ls_edge_ended := c \<rparr>) = core ls" "core (ls\<lparr> ls_consumed := d \<rparr>) = core ls"
  by (simp_all add: core_def)

lemma core_add: "spec_add at p ls = Inr ls' \<Longrightarrow> spec_add at p (core ls) = Inr (core ls')"
  by (auto simp: spec_add_Inr add_ok_def add_part_def core_def)

lemma core_remove: "spec_remove seq at pid ls = Inr ls' \<Longrightarrow> spec_remove seq at pid (core ls) = Inr (core ls')"
  by (auto simp: spec_remove_Inr remove_part_def core_def)

lemma spec_for_core:
  assumes "spec_for f xs ls = Inr ls'" "\<And>x a b. f x a = Inr b \<Longrightarrow> g x (core a) = Inr (core b)"
  shows "spec_for g xs (core ls) = Inr (core ls')"
  using assms(1)
proof (induction xs arbitrary: ls)
  case (Cons x xs)
  then obtain a where "f x ls = Inr a" "spec_for f xs a = Inr ls'" by (auto simp: res_simps)
  then show ?case using Cons.IH assms(2) by fastforce
qed simp

lemma spec_consume_core: "spec_for (spec_consume lc at) sources ls = Inr ls' \<Longrightarrow> core ls' = core ls"
  by (rule spec_for_inv [where I = "\<lambda>a. core a = core ls"]) (auto simp: spec_consume_def)

lemma spec_removes_core:
  "spec_for (spec_remove seq at) ids ls = Inr ls' \<Longrightarrow> spec_for (spec_remove seq at) ids (core ls) = Inr (core ls')"
  by (erule spec_for_core) (rule core_remove)

lemma spec_op_parts:
  assumes "spec_op lc e ls = Inr ls'"
  shows "\<exists>a. spec_for (spec_remove (le_seq e) (le_appended_at_ms e)) (op_removed (le_op e)) (core ls) = Inr a
    \<and> spec_for (spec_add (le_appended_at_ms e)) (op_added (le_op e)) a = Inr (core ls')"
proof (cases "le_seq e = 0")
  case True
  then show ?thesis using assms by (auto simp: spec_op_def spec_schema_def res_simps split: log_op.splits)
next
  case False
  then have run: "spec_nongenesis lc e ls = Inr ls'" using assms by (simp add: spec_op_def)
  have supersede: "\<exists>a. spec_for (spec_remove (le_seq e) (le_appended_at_ms e)) ids (core ls) = Inr a
      \<and> spec_for (spec_add (le_appended_at_ms e)) [out] a = Inr (core ls')"
    if s: "spec_supersede (le_seq e) (le_appended_at_ms e) out ids ls = Inr ls'" for out ids
  proof -
    obtain a where a: "spec_for (spec_remove (le_seq e) (le_appended_at_ms e)) ids ls = Inr a"
      "spec_add (le_appended_at_ms e) out a = Inr ls'"
      using s by (auto simp: spec_supersede_def res_simps)
    then show ?thesis using spec_removes_core [OF a(1)] core_add [OF a(2)] by simp
  qed
  show ?thesis
  proof (cases "le_op e")
    case (Add parts sources rng)
    obtain a b where ab: "spec_edge_point (le_tenant_id e) rng ls = Inr a"
      "spec_for (\<lambda>part ls. bind_res (ensure (pt_level part = L0 \<and> pt_sorted part) ''add entry carries a non-L0 part'')
         (\<lambda>_. spec_add (le_appended_at_ms e) part ls)) parts a = Inr b"
      "spec_for (spec_consume lc (le_appended_at_ms e)) sources b = Inr ls'"
      using run Add by (auto simp: spec_nongenesis_def res_simps Let_def)
    have "core a = core ls" using ab(1) by (auto simp: spec_edge_point_def res_simps split: option.splits)
    moreover have "spec_for (spec_add (le_appended_at_ms e)) parts (core a) = Inr (core b)"
      using ab(2) by (rule spec_for_core) (auto simp: res_simps core_add)
    ultimately show ?thesis using spec_consume_core [OF ab(3)] Add by simp
  next
    case (Adopt parts)
    then have "spec_for (\<lambda>part ls.
        bind_res (ensure (pt_level part = Hour \<or> pt_level part = Day) ''adopted parts must be hour or day parts'') (\<lambda>_.
        bind_res (ensure (\<not> pt_sorted part) ''adopt entry carries a sorted part'') (\<lambda>_.
          spec_add (le_appended_at_ms e) part ls))) parts ls = Inr ls'"
      using run by (simp add: spec_nongenesis_def Let_def res_simps)
    then have "spec_for (spec_add (le_appended_at_ms e)) parts (core ls) = Inr (core ls')"
      by (rule spec_for_core) (auto simp: res_simps core_add)
    then show ?thesis using Adopt by simp
  next
    case (Retire ids r t)
    then have "spec_for (spec_remove (le_seq e) (le_appended_at_ms e)) ids ls = Inr ls'"
      using run by (simp add: spec_nongenesis_def Let_def res_simps)
    then show ?thesis using spec_removes_core Retire by simp
  qed (use run supersede in \<open>auto simp: spec_nongenesis_def spec_schema_def res_simps Let_def\<close>)
qed

lemma spec_adds_Cons:
  "spec_for (spec_add at) (p # ps) a = Inr b \<longleftrightarrow> add_ok at p a \<and> spec_for (spec_add at) ps (add_part at p a) = Inr b"
  by (auto simp: res_simps spec_add_Inr)

lemma spec_removes_Cons:
  "spec_for (spec_remove seq at) (i # ids) a = Inr b \<longleftrightarrow>
     (\<exists>part. map_of (ls_live a) i = Some part \<and> spec_for (spec_remove seq at) ids (remove_part seq at i part a) = Inr b)"
  by (auto simp: res_simps spec_remove_Inr)

lemma add_part_fields [simp]:
  "bhas (ls_seen (add_part at p a)) pid \<longleftrightarrow> pid = pt_part_id p \<or> bhas (ls_seen a) pid"
  "map_of (ls_live (add_part at p a)) = (map_of (ls_live a))(pt_part_id p := Some p)"
  by (simp_all add: add_part_def bmap_simps)

lemma remove_part_fields [simp]:
  "ls_seen (remove_part seq at i part a) = ls_seen a"
  "map_of (ls_live (remove_part seq at i part a)) = (map_of (ls_live a))(i := None)"
  by (simp_all add: remove_part_def bmap_simps)

lemma spec_adds:
  assumes "spec_for (spec_add at) ps a = Inr b"
  shows "distinct (map pt_part_id ps) \<and> (\<forall>p \<in> set ps. add_ok at p a)
    \<and> (\<forall>pid. bhas (ls_seen b) pid \<longleftrightarrow> pid \<in> pt_part_id ` set ps \<or> bhas (ls_seen a) pid)
    \<and> (\<forall>pid q. map_of (ls_live b) pid = Some q \<longleftrightarrow>
      (q \<in> set ps \<and> pt_part_id q = pid) \<or> (pid \<notin> pt_part_id ` set ps \<and> map_of (ls_live a) pid = Some q))"
  using assms
proof (induction ps arbitrary: a)
  case (Cons p ps)
  have ok: "add_ok at p a" and run: "spec_for (spec_add at) ps (add_part at p a) = Inr b"
    using Cons.prems unfolding spec_adds_Cons by blast+
  note ih = Cons.IH [OF run]
  have new: "\<forall>q \<in> set ps. add_ok at q a \<and> pt_part_id q \<noteq> pt_part_id p"
    using ih by (simp add: add_ok_def)
  show ?case
  proof (intro conjI)
    show "distinct (map pt_part_id (p # ps))" using ih new by auto
    show "\<forall>q \<in> set (p # ps). add_ok at q a" using ok new by simp
    show "\<forall>pid. bhas (ls_seen b) pid \<longleftrightarrow> pid \<in> pt_part_id ` set (p # ps) \<or> bhas (ls_seen a) pid"
      using ih by auto
    show "\<forall>pid q. map_of (ls_live b) pid = Some q \<longleftrightarrow> (q \<in> set (p # ps) \<and> pt_part_id q = pid)
        \<or> (pid \<notin> pt_part_id ` set (p # ps) \<and> map_of (ls_live a) pid = Some q)"
      using ih new by auto
  qed
qed simp

lemma spec_removes:
  assumes "spec_for (spec_remove seq at) ids a = Inr b"
  shows "distinct ids \<and> (\<forall>pid \<in> set ids. bhas (ls_live a) pid) \<and> ls_seen b = ls_seen a
    \<and> (\<forall>pid. map_of (ls_live b) pid = (if pid \<in> set ids then None else map_of (ls_live a) pid))"
  using assms
proof (induction ids arbitrary: a)
  case (Cons i ids)
  obtain part where part: "map_of (ls_live a) i = Some part"
    and run: "spec_for (spec_remove seq at) ids (remove_part seq at i part a) = Inr b"
    using Cons.prems unfolding spec_removes_Cons by blast
  note ih = Cons.IH [OF run]
  have "\<forall>pid \<in> set ids. pid \<noteq> i \<and> bhas (ls_live a) pid" using ih by (auto simp: bhas_def split: if_splits)
  then show ?case using ih part by (auto simp: bhas_def)
qed simp


lemma spec_op_wf: "spec_op lc e ls = Inr ls' \<Longrightarrow> ls_wf ls \<Longrightarrow> ls_wf ls'"
  by (erule spec_op_inv) (auto simp: ls_wf_def add_part_def remove_part_def)

lemma spec_op_seen:
  assumes "spec_op lc e a = Inr n"
  shows "bhas (ls_seen n) pid \<longleftrightarrow> pid \<in> added_ids e \<or> bhas (ls_seen a) pid"
proof -
  obtain m where m: "spec_for (spec_remove (le_seq e) (le_appended_at_ms e)) (op_removed (le_op e)) (core a) = Inr m"
    "spec_for (spec_add (le_appended_at_ms e)) (op_added (le_op e)) m = Inr (core n)"
    using spec_op_parts [OF assms] by blast
  show ?thesis using spec_removes [OF m(1)] spec_adds [OF m(2)] by simp
qed

lemma apply_effect:
  assumes "ls_wf a" "spec_apply lc a e sha = Inr b"
  shows "distinct (map pt_part_id (op_added (le_op e)))" and "distinct (op_removed (le_op e))"
    and "\<forall>pid \<in> removed_ids e. bhas (ls_live a) pid"
    and "\<forall>p \<in> set (op_added (le_op e)). add_ok (le_appended_at_ms e) p a"
    and "map_of (ls_live b) pid = Some q \<longleftrightarrow> (q \<in> set (op_added (le_op e)) \<and> pt_part_id q = pid)
      \<or> (pid \<notin> added_ids e \<and> pid \<notin> removed_ids e \<and> map_of (ls_live a) pid = Some q)"
    and "bhas (ls_seen b) pid \<Longrightarrow> pid \<in> added_ids e \<or> bhas (ls_seen a) pid"
    and "pid \<in> added_ids e \<or> bhas (ls_seen a) pid
      \<Longrightarrow> sat_sub_i64 (le_appended_at_ms e) ID_MEMORY_MS \<le> created_unix_ms pid \<or> bhas (ls_live b) pid \<Longrightarrow> bhas (ls_seen b) pid"
proof -
  obtain n where n: "spec_op lc e a = Inr n"
    "b = prune_ids (le_appended_at_ms e) (n\<lparr> ls_head := Some (le_seq e, sha, le_writer_epoch e) \<rparr>)"
    using assms(2) by (auto simp: spec_apply_Inr)
  obtain m where m: "spec_for (spec_remove (le_seq e) (le_appended_at_ms e)) (op_removed (le_op e)) (core a) = Inr m"
    "spec_for (spec_add (le_appended_at_ms e)) (op_added (le_op e)) m = Inr (core n)"
    using spec_op_parts [OF n(1)] by blast
  have r: "distinct (op_removed (le_op e))" "\<forall>pid \<in> removed_ids e. bhas (ls_live a) pid" "ls_seen m = ls_seen a"
    "map_of (ls_live m) pid = (if pid \<in> removed_ids e then None else map_of (ls_live a) pid)" for pid
    using spec_removes [OF m(1)] by simp_all
  have s: "distinct (map pt_part_id (op_added (le_op e)))"
    "\<forall>p \<in> set (op_added (le_op e)). add_ok (le_appended_at_ms e) p m"
    "map_of (ls_live n) pid = Some q \<longleftrightarrow>
      (q \<in> set (op_added (le_op e)) \<and> pt_part_id q = pid) \<or> (pid \<notin> added_ids e \<and> map_of (ls_live m) pid = Some q)" for pid q
    using spec_adds [OF m(2)] by simp_all
  have seen: "bhas (ls_seen n) pid \<longleftrightarrow> pid \<in> added_ids e \<or> bhas (ls_seen a) pid" for pid
    using n(1) by (rule spec_op_seen)
  have "ls_wf n" using n(1) assms(1) by (rule spec_op_wf)
  then have wf: "bwf (ls_seen (n\<lparr> ls_head := Some (le_seq e, sha, le_writer_epoch e) \<rparr>))" by (simp add: ls_wf_def)
  show "distinct (map pt_part_id (op_added (le_op e)))" "distinct (op_removed (le_op e))"
    "\<forall>pid \<in> removed_ids e. bhas (ls_live a) pid"
    by (rule s(1) r(1,2))+
  show "\<forall>p \<in> set (op_added (le_op e)). add_ok (le_appended_at_ms e) p a"
    using s(2) r(3) by (simp add: add_ok_def)
  show "map_of (ls_live b) pid = Some q \<longleftrightarrow> (q \<in> set (op_added (le_op e)) \<and> pt_part_id q = pid)
      \<or> (pid \<notin> added_ids e \<and> pid \<notin> removed_ids e \<and> map_of (ls_live a) pid = Some q)"
    using s(3) [of pid q] r(4) [of pid] by (simp add: n(2))
  show "pid \<in> added_ids e \<or> bhas (ls_seen a) pid" if "bhas (ls_seen b) pid"
    using prune_seen(1) [OF wf] that seen unfolding n(2) by simp
  show "bhas (ls_seen b) pid" if "pid \<in> added_ids e \<or> bhas (ls_seen a) pid"
    "sat_sub_i64 (le_appended_at_ms e) ID_MEMORY_MS \<le> created_unix_ms pid \<or> bhas (ls_live b) pid"
    using prune_seen(2) [OF wf, of pid] that seen unfolding n(2) by simp
qed

section \<open>A log adds each part once\<close>

definition log_added :: "(log_entry \<times> string) list \<Rightarrow> part_ref list" where
  "log_added es = concat (map (\<lambda>(e, _). op_added (le_op e)) es)"

definition log_removed :: "(log_entry \<times> string) list \<Rightarrow> part_id list" where
  "log_removed es = concat (map (\<lambda>(e, _). op_removed (le_op e)) es)"

definition log_times :: "(log_entry \<times> string) list \<Rightarrow> int list" where
  "log_times es = map (\<lambda>(e, _). le_appended_at_ms e) es"

lemma log_snoc [simp]:
  "log_added (es @ [(e, sha)]) = log_added es @ op_added (le_op e)"
  "log_removed (es @ [(e, sha)]) = log_removed es @ op_removed (le_op e)"
  by (simp_all add: log_added_def log_removed_def)

lemma sat_sub_mono: "x \<le> y \<Longrightarrow> sat_sub_i64 x k \<le> sat_sub_i64 y k"
  by (auto simp: sat_sub_i64_def)

text \<open>What a replay remembers of the parts added so far: an id it forgot is too old to come back.\<close>

definition log_inv :: "(log_entry \<times> string) list \<Rightarrow> live_set \<Rightarrow> bool" where
  "log_inv es ls \<longleftrightarrow>
     distinct (map pt_part_id (log_added es)) \<and> distinct (log_removed es)
     \<and> set (log_removed es) \<subseteq> pt_part_id ` set (log_added es)
     \<and> (\<forall>pid p. map_of (ls_live ls) pid = Some p \<longleftrightarrow>
          p \<in> set (log_added es) \<and> pt_part_id p = pid \<and> pid \<notin> set (log_removed es))
     \<and> (\<forall>p \<in> set (log_added es). bhas (ls_seen ls) (pt_part_id p)
          \<or> (\<exists>t \<in> set (log_times es). created_unix_ms (pt_part_id p) < sat_sub_i64 t ID_MEMORY_MS))"

lemma log_inv_step:
  assumes wf: "ls_wf a" and I: "log_inv es a" and step: "spec_apply lc a e sha = Inr b"
    and later: "\<forall>t \<in> set (log_times es). t \<le> le_appended_at_ms e"
  shows "log_inv (es @ [(e, sha)]) b"
proof -
  note eff = apply_effect [OF wf step]
  have new: "pt_part_id p \<notin> pt_part_id ` set (log_added es)" if p: "p \<in> set (op_added (le_op e))" for p
  proof
    assume "pt_part_id p \<in> pt_part_id ` set (log_added es)"
    then obtain q where q: "q \<in> set (log_added es)" "pt_part_id q = pt_part_id p" by auto
    have ok: "add_ok (le_appended_at_ms e) p a" using eff(4) p by blast
    then have "\<not> bhas (ls_seen a) (pt_part_id q)" using q(2) by (simp add: add_ok_def)
    then obtain t where t: "t \<in> set (log_times es)" "created_unix_ms (pt_part_id q) < sat_sub_i64 t ID_MEMORY_MS"
      using I q(1) by (auto simp: log_inv_def)
    then show False using ok q(2) later sat_sub_mono [of t "le_appended_at_ms e" ID_MEMORY_MS]
      by (auto simp: add_ok_def)
  qed
  have live_a: "map_of (ls_live a) pid = Some p \<longleftrightarrow>
      p \<in> set (log_added es) \<and> pt_part_id p = pid \<and> pid \<notin> set (log_removed es)" for pid p
    using I by (simp add: log_inv_def)
  have fresh: "removed_ids e \<subseteq> pt_part_id ` set (log_added es) - set (log_removed es)"
  proof
    fix pid assume "pid \<in> removed_ids e"
    then obtain p where "map_of (ls_live a) pid = Some p" using eff(3) by (auto simp: bhas_def)
    then show "pid \<in> pt_part_id ` set (log_added es) - set (log_removed es)" unfolding live_a by blast
  qed
  have sub: "set (log_removed es) \<subseteq> pt_part_id ` set (log_added es)"
    and d: "distinct (map pt_part_id (log_added es))" "distinct (log_removed es)"
    using I by (simp_all add: log_inv_def)
  have disj: "pt_part_id ` set (log_added es) \<inter> added_ids e = {}"
  proof (rule equals0I)
    fix x assume x: "x \<in> pt_part_id ` set (log_added es) \<inter> added_ids e"
    then obtain p where "p \<in> set (op_added (le_op e))" "x = pt_part_id p" by blast
    then show False using new [of p] x by simp
  qed
  have gone: "pt_part_id p \<notin> set (log_removed es)" "pt_part_id p \<notin> removed_ids e" if "p \<in> set (op_added (le_op e))" for p
    using new [OF that] sub fresh by blast+
  have kept: "pt_part_id p \<notin> added_ids e" if "p \<in> set (log_added es)" for p
    using disj that by blast
  show ?thesis
    unfolding log_inv_def log_snoc
  proof (intro conjI allI ballI)
    show "distinct (map pt_part_id (log_added es @ op_added (le_op e)))" using d(1) eff(1) disj by simp
    show "distinct (log_removed es @ op_removed (le_op e))" using d(2) eff(2) fresh by (simp; blast)
    show "set (log_removed es @ op_removed (le_op e)) \<subseteq> pt_part_id ` set (log_added es @ op_added (le_op e))"
      unfolding set_append image_Un using sub fresh by blast
    show "map_of (ls_live b) pid = Some p \<longleftrightarrow> p \<in> set (log_added es @ op_added (le_op e)) \<and> pt_part_id p = pid
        \<and> pid \<notin> set (log_removed es @ op_removed (le_op e))" for pid p
      unfolding eff(5) live_a set_append using gone kept by blast
  next
    fix p
    assume p: "p \<in> set (log_added es @ op_added (le_op e))"
    show "bhas (ls_seen b) (pt_part_id p)
        \<or> (\<exists>t \<in> set (log_times (es @ [(e, sha)])). created_unix_ms (pt_part_id p) < sat_sub_i64 t ID_MEMORY_MS)"
    proof (cases "pt_part_id p \<in> added_ids e \<or> bhas (ls_seen a) (pt_part_id p)")
      case True
      then have "bhas (ls_seen b) (pt_part_id p)
          \<or> created_unix_ms (pt_part_id p) < sat_sub_i64 (le_appended_at_ms e) ID_MEMORY_MS"
        using eff(7) [OF True] by linarith
      then show ?thesis by (auto simp: log_times_def)
    next
      case False
      then have "p \<in> set (log_added es)" using p by auto
      then have "\<exists>t \<in> set (log_times es). created_unix_ms (pt_part_id p) < sat_sub_i64 t ID_MEMORY_MS"
        using I False unfolding log_inv_def by blast
      then show ?thesis by (auto simp: log_times_def)
    qed
  qed
qed

lemma replay_log_inv:
  assumes "replay lc empty_live_set es = Inr ls" "sorted (log_times es)"
  shows "log_inv es ls"
  using assms(1) ls_wf_empty
proof (rule replay_induct)
  show "log_inv [] empty_live_set"
    by (simp add: log_inv_def log_added_def log_removed_def empty_live_set_def)
  show "log_inv (pre @ [(e, sha)]) b" if "es = pre @ (e, sha) # suf" "ls_wf a" "log_inv pre a"
    "spec_apply lc a e sha = Inr b" for pre e sha suf a b
    using that(2,3,4) by (rule log_inv_step) (use assms(2) that(1) in \<open>auto simp: log_times_def sorted_append\<close>)
qed

text \<open>A small log: genesis, an \<open>add\<close> of two parts from one source, a \<open>merge\<close> of both, and a \<open>retire\<close>.\<close>

definition demo_lc :: log_crates where
  "demo_lc = \<lparr> lc_sha_hex = demo_sha, lc_b64_decode = Some, lc_parquet_schema = Some,
     lc_schema_fingerprint = (\<lambda>_. Some ''f'') \<rparr>"

definition demo_log_schema :: log_schema where
  "demo_log_schema = \<lparr> lg_parquet_base64 = ''cA=='', lg_fingerprint = ''f'' \<rparr>"

definition demo_ref :: "part_id \<Rightarrow> level \<Rightarrow> part_ref" where
  "demo_ref pid lvl =
     \<lparr> pt_request_hours = None, pt_part_id = pid, pt_level = lvl, pt_event_hour = 497300, pt_event_day = None,
       pt_rows = 3, pt_min_time_us = 1790330400000000, pt_max_time_us = 1790330400000009,
       pt_schema_fingerprint = replicate 64 CHR ''a'', pt_provenance_sha256 = replicate 64 CHR ''a'',
       pt_merkle_root = replicate 64 CHR ''b'', pt_sorted = True, pt_data_bytes = 10, pt_row_groups = 1,
       pt_data_files = 1 \<rparr>"

definition demo_pid :: "string \<Rightarrow> part_id" where
  "demo_pid d = ''00000000000'' @ d @ ''-9f86d081884c7d65''"

definition demo_entry :: "nat \<Rightarrow> int \<Rightarrow> log_op \<Rightarrow> log_entry \<times> string" where
  "demo_entry seq at op =
     (\<lparr> le_format = LOG_FORMAT, le_tenant_id = ''t'', le_seq = seq,
        le_prev_sha256 = (if seq = 0 then GENESIS_PREV else demo_sha []), le_writer_epoch = 1,
        le_appended_at_ms = at, le_op = op \<rparr>, demo_sha [])"

definition demo_log :: "(log_entry \<times> string) list" where
  "demo_log =
     [demo_entry 0 0 (Genesis demo_log_schema),
      demo_entry 1 20 (Add [demo_ref (demo_pid ''01'') L0, demo_ref (demo_pid ''02'') L0]
        [\<lparr> sf_key = ''k'', sf_version = ''1'', sf_sha256 = replicate 64 CHR ''a'' \<rparr>] None),
      demo_entry 2 30 (Merge (demo_ref (demo_pid ''03'') Minute) [demo_pid ''01'', demo_pid ''02'']),
      demo_entry 3 40 (Retire [demo_pid ''03''] Retention ''age'')]"

definition demo_end :: live_set where
  "demo_end = (case replay demo_lc empty_live_set demo_log of Inr ls \<Rightarrow> ls | Inl _ \<Rightarrow> empty_live_set)"

lemma demo_replay: "replay demo_lc empty_live_set demo_log = Inr demo_end"
proof -
  have "is_ok (replay demo_lc empty_live_set demo_log)" by code_simp
  then show ?thesis by (auto simp: demo_end_def is_ok_iff)
qed

section \<open>Applying an entry\<close>

definition demo_genesis :: live_set where
  "demo_genesis = empty_live_set\<lparr> ls_schema := Some demo_log_schema, ls_head := Some (0, demo_sha [], 1) \<rparr>"

definition demo_double_add :: log_entry where
  "demo_double_add = fst (demo_entry 1 20 (Add [demo_ref (demo_pid ''01'') L0, demo_ref (demo_pid ''01'') L0]
     [\<lparr> sf_key = ''k'', sf_version = ''1'', sf_sha256 = replicate 64 CHR ''a'' \<rparr>] None))"

lemma demo_genesis_wf: "ls_wf demo_genesis"
  by (simp add: demo_genesis_def ls_wf_def empty_live_set_def)

text \<open>
  C3: a bad entry leaves the live set exactly as it was. However far an entry got before it was
  refused (parts added, parts removed, sources consumed, edge point moved), undoing the journal and
  restoring the saved fields gives back the set before the entry, in every field.
\<close>

theorem refused_entry_unchanged:
  assumes "ls_wf ls" "live_apply lc ls entry sha = (Inl err, ls')"
  shows "ls' = ls"
  using assms by (rule apply_refused)

theorem refused_entry_unchanged_witness:
  "live_apply demo_lc demo_genesis demo_double_add (demo_sha []) = (Inl (Bail ''log adds part twice''), demo_genesis)"
proof -
  have "fst (live_apply demo_lc demo_genesis demo_double_add (demo_sha [])) = Inl (Bail ''log adds part twice'')"
    by code_simp
  then obtain ls' where ls': "live_apply demo_lc demo_genesis demo_double_add (demo_sha []) = (Inl (Bail ''log adds part twice''), ls')"
    by (metis prod.collapse)
  show ?thesis using refused_entry_unchanged [OF demo_genesis_wf ls'] ls' by simp
qed



section \<open>The live parts of a log\<close>

text \<open>
  C1: for a log replayed from genesis whose entries have non-decreasing times, no part id is added
  twice and none is removed twice, only added parts are removed, and the live parts are exactly the
  added parts that were not removed, each with the reference it was added with. This holds although
  the live set forgets ids older than the memory window.
\<close>

theorem log_adds_once:
  assumes "replay lc empty_live_set es = Inr ls" "sorted (log_times es)"
  shows "distinct (map pt_part_id (log_added es)) \<and> distinct (log_removed es)
    \<and> set (log_removed es) \<subseteq> pt_part_id ` set (log_added es)
    \<and> (\<forall>pid p. map_of (ls_live ls) pid = Some p \<longleftrightarrow>
         p \<in> set (log_added es) \<and> pt_part_id p = pid \<and> pid \<notin> set (log_removed es))"
  using replay_log_inv [OF assms] by (simp add: log_inv_def)

theorem log_adds_once_witness:
  "distinct (map pt_part_id (log_added demo_log)) \<and> length (log_added demo_log) = 3 \<and> length (log_removed demo_log) = 3"
proof -
  have "sorted (log_times demo_log)" by code_simp
  moreover have "length (log_added demo_log) = 3 \<and> length (log_removed demo_log) = 3" by code_simp
  ultimately show ?thesis using log_adds_once [OF demo_replay] by blast
qed

section \<open>Bounded memory\<close>

lemma prune_seen_bound:
  assumes "bwf (ls_seen ls)" "\<And>k. bhas (ls_seen ls) k \<Longrightarrow> part_id_ok k" "bhas (ls_seen (prune_ids at ls)) pid"
  shows "bhas (ls_live ls) pid \<or> sat_sub_i64 at ID_MEMORY_MS \<le> created_unix_ms pid"
proof (cases "ls_seen ls")
  case Nil
  then show ?thesis using assms(3) by (simp add: prune_ids_def Let_def)
next
  case (Cons x rest)
  obtain k u where x: "x = (k, u)" by (cases x)
  have seen: "bhas (ls_seen ls) pid" using assms(1,3) by (rule prune_seen(1))
  then have "k \<le> pid" "part_id_ok k" "part_id_ok pid"
    using bwf_first_least [of k u rest] assms(1,2) Cons x by (auto simp: bhas_keys bwf_Cons)
  then have "created_unix_ms k \<le> created_unix_ms pid" by (intro created_unix_ms_mono)
  then show ?thesis
    using assms(1,3) Cons x
    by (cases "created_unix_ms k < sat_sub_i64 at ID_MEMORY_MS")
      (auto simp: prune_ids_def Let_def bhas_bretain)
qed

lemma replay_seen_added:
  assumes "replay lc empty_live_set es = Inr ls"
  shows "\<forall>pid. bhas (ls_seen ls) pid \<longrightarrow> pid \<in> pt_part_id ` set (log_added es)"
  using assms ls_wf_empty
proof (rule replay_induct)
  show "\<forall>pid. bhas (ls_seen b) pid \<longrightarrow> pid \<in> pt_part_id ` set (log_added (pre @ [(e, sha)]))"
    if "ls_wf a" "\<forall>pid. bhas (ls_seen a) pid \<longrightarrow> pid \<in> pt_part_id ` set (log_added pre)"
      "spec_apply lc a e sha = Inr b" for pre e sha a b
    using apply_effect(6) [OF that(1,3)] that(2) by auto
qed (simp_all add: empty_live_set_def)

text \<open>
  What the live set remembers is bounded by the memory window: after every accepted entry, a
  remembered id is live or was created no more than the window before that entry's time. The code
  looks only at the least remembered id to decide whether to forget anything.
\<close>

lemma id_memory_bounded:
  assumes "replay lc empty_live_set (es @ [(e, sha)]) = Inr ls"
    and "\<forall>p \<in> set (log_added (es @ [(e, sha)])). part_id_ok (pt_part_id p)"
    and "bhas (ls_seen ls) pid"
  shows "bhas (ls_live ls) pid \<or> sat_sub_i64 (le_appended_at_ms e) ID_MEMORY_MS \<le> created_unix_ms pid"
proof -
  obtain a where a: "replay lc empty_live_set es = Inr a" "replay lc a [(e, sha)] = Inr ls"
    using assms(1) by (auto simp: replay_append bind_res_Inr)
  have wf: "ls_wf a" using a(1) ls_wf_empty by (rule replay_wf)
  then have step: "spec_apply lc a e sha = Inr ls" using a(2) by (simp add: apply_is_spec split: sum.splits)
  then obtain n where n: "spec_op lc e a = Inr n"
    "ls = prune_ids (le_appended_at_ms e) (n\<lparr> ls_head := Some (le_seq e, sha, le_writer_epoch e) \<rparr>)"
    by (auto simp: spec_apply_Inr)
  let ?n = "n\<lparr> ls_head := Some (le_seq e, sha, le_writer_epoch e) \<rparr>"
  have "bwf (ls_seen ?n)" using spec_op_wf [OF n(1) wf] by (simp add: ls_wf_def)
  moreover have "part_id_ok k" if "bhas (ls_seen ?n) k" for k
    using that assms(2) replay_seen_added [OF a(1)] spec_op_seen [OF n(1), of k] by auto
  ultimately show ?thesis using prune_seen_bound [of ?n "le_appended_at_ms e" pid] assms(3) n(2) by simp
qed

end
