(* ===== verification/Log_Simulation.thy ===== *)
theory Log_Simulation
  imports Log_Chain Part_Log_Props
begin

text \<open>
  Simulations between states that fold the same log. The locale \<open>op_simulation\<close> lifts a relation kept by
  the elementary changes of the live set to whole entries; \<open>log_simulation\<close> lifts a relation kept by
  entries to whole logs. They are interpreted for the checkpoint restart, for the bounded working set
  of garbage collection, and for the schema-only view.
\<close>

section \<open>From elementary changes to entries\<close>

lemma spec_for_sim:
  assumes "spec_for f xs s = Inr s'" "Q s r"
    and "\<And>x a b a'. x \<in> set xs \<Longrightarrow> Q a b \<Longrightarrow> f x a = Inr a' \<Longrightarrow> \<exists>b'. f x b = Inr b' \<and> Q a' b'"
  shows "\<exists>r'. spec_for f xs r = Inr r' \<and> Q s' r'"
  using assms
proof (induction xs arbitrary: s r)
  case (Cons x xs)
  obtain a where a: "f x s = Inr a" "spec_for f xs a = Inr s'" using Cons.prems(1) by (auto simp: res_simps)
  obtain b where b: "f x r = Inr b" "Q a b" using Cons.prems(3) [OF _ Cons.prems(2) a(1)] by auto
  show ?case using Cons.IH [OF a(2) b(2)] Cons.prems(3) b(1) by simp
qed simp

locale op_simulation =
  fixes Q :: "live_set \<Rightarrow> live_set \<Rightarrow> bool"
    and ok :: "log_entry \<Rightarrow> bool"
  assumes edges: "Q s r \<Longrightarrow> ls_edge r = ls_edge s \<and> ls_edge_ended r = ls_edge_ended s"
    and add: "Q s r \<Longrightarrow> ok e \<Longrightarrow> p \<in> set (op_added (le_op e)) \<Longrightarrow> add_ok (le_appended_at_ms e) p s
      \<Longrightarrow> add_ok (le_appended_at_ms e) p r \<and> Q (add_part (le_appended_at_ms e) p s) (add_part (le_appended_at_ms e) p r)"
    and remove: "Q s r \<Longrightarrow> ok e \<Longrightarrow> pid \<in> set (op_removed (le_op e)) \<Longrightarrow> map_of (ls_live s) pid = Some part
      \<Longrightarrow> map_of (ls_live r) pid = Some part
        \<and> Q (remove_part (le_seq e) (le_appended_at_ms e) pid part s) (remove_part (le_seq e) (le_appended_at_ms e) pid part r)"
    and consumed: "Q s r \<Longrightarrow> Q (s\<lparr> ls_consumed := c \<rparr>) (r\<lparr> ls_consumed := d \<rparr>)"
    and fields: "Q s r \<Longrightarrow> Q (s\<lparr> ls_schema := x \<rparr>) (r\<lparr> ls_schema := x \<rparr>)"
      "Q s r \<Longrightarrow> Q (s\<lparr> ls_edge := y \<rparr>) (r\<lparr> ls_edge := y \<rparr>)"
      "Q s r \<Longrightarrow> Q (s\<lparr> ls_edge_ended := z \<rparr>) (r\<lparr> ls_edge_ended := z \<rparr>)"
begin

lemma add_sim:
  assumes "Q s r" "ok e" "p \<in> set (op_added (le_op e))" "spec_add (le_appended_at_ms e) p s = Inr s'"
  shows "\<exists>r'. spec_add (le_appended_at_ms e) p r = Inr r' \<and> Q s' r'"
  using assms add [OF assms(1-3)] by (auto simp: spec_add_Inr)

lemma remove_sim:
  assumes "Q s r" "ok e" "pid \<in> set (op_removed (le_op e))"
    and "spec_remove (le_seq e) (le_appended_at_ms e) pid s = Inr s'"
  shows "\<exists>r'. spec_remove (le_seq e) (le_appended_at_ms e) pid r = Inr r' \<and> Q s' r'"
  using assms remove [OF assms(1-3)] by (auto simp: spec_remove_Inr)

lemma removes_sim:
  assumes "Q s r" "ok e" "set ids \<subseteq> set (op_removed (le_op e))"
    and "spec_for (spec_remove (le_seq e) (le_appended_at_ms e)) ids s = Inr s'"
  shows "\<exists>r'. spec_for (spec_remove (le_seq e) (le_appended_at_ms e)) ids r = Inr r' \<and> Q s' r'"
  using assms(4,1) by (rule spec_for_sim) (use remove_sim assms(2,3) in blast)

lemma supersede_sim:
  assumes "Q s r" "ok e" "out \<in> set (op_added (le_op e))" "set ids \<subseteq> set (op_removed (le_op e))"
    and "spec_supersede (le_seq e) (le_appended_at_ms e) out ids s = Inr s'"
  shows "\<exists>r'. spec_supersede (le_seq e) (le_appended_at_ms e) out ids r = Inr r' \<and> Q s' r'"
proof -
  obtain a where a: "ids \<noteq> []" "spec_for (spec_remove (le_seq e) (le_appended_at_ms e)) ids s = Inr a"
    "spec_add (le_appended_at_ms e) out a = Inr s'"
    using assms(5) by (auto simp: spec_supersede_def res_simps)
  obtain b where b: "spec_for (spec_remove (le_seq e) (le_appended_at_ms e)) ids r = Inr b" "Q a b"
    using removes_sim [OF assms(1,2,4) a(2)] by blast
  show ?thesis using add_sim [OF b(2) assms(2,3) a(3)] a(1) b(1) by (simp add: spec_supersede_def)
qed

lemma adds_sim:
  assumes "Q s r" "ok e" "set ps \<subseteq> set (op_added (le_op e))"
    and "spec_for (\<lambda>p ls. bind_res (g p) (\<lambda>_. spec_add (le_appended_at_ms e) p ls)) ps s = Inr s'"
  shows "\<exists>r'. spec_for (\<lambda>p ls. bind_res (g p) (\<lambda>_. spec_add (le_appended_at_ms e) p ls)) ps r = Inr r' \<and> Q s' r'"
  using assms(4,1)
proof (rule spec_for_sim)
  fix x a b a'
  assume x: "x \<in> set ps" "Q a b" "bind_res (g x) (\<lambda>_. spec_add (le_appended_at_ms e) x a) = Inr a'"
  then obtain u where "g x = Inr u" "spec_add (le_appended_at_ms e) x a = Inr a'" by (auto simp: res_simps)
  then show "\<exists>b'. bind_res (g x) (\<lambda>_. spec_add (le_appended_at_ms e) x b) = Inr b' \<and> Q a' b'"
    using add_sim [OF x(2) assms(2)] x(1) assms(3) by auto
qed

lemma add_entry_sim:
  assumes "Q s r" "ok e" "le_op e = Add parts sources rng" "spec_nongenesis lc e s = Inr s'"
  shows "\<exists>r'. spec_nongenesis lc e r = Inr r' \<and> Q s' r'"
proof -
  let ?g = "\<lambda>part. ensure (pt_level part = L0 \<and> pt_sorted part) ''add entry carries a non-L0 part''"
  let ?add = "\<lambda>part ls. bind_res (?g part) (\<lambda>_. spec_add (le_appended_at_ms e) part ls)"
  obtain u a b where ab: "\<not> (parts = [] \<or> sources = [])" "add_edge_check lc (le_tenant_id e) sources rng s = Inr u"
    "spec_edge_point (le_tenant_id e) rng s = Inr a" "spec_for ?add parts a = Inr b"
    "spec_for (spec_consume lc (le_appended_at_ms e)) sources b = Inr s'"
    using assms(4) by (auto simp: assms(3) spec_nongenesis_def res_simps Let_def)
  have chk: "add_edge_check lc (le_tenant_id e) sources rng r = Inr u"
    using ab(2) unfolding add_edge_check_def conjunct1 [OF edges [OF assms(1)]] conjunct2 [OF edges [OF assms(1)]] .
  obtain a' where a': "spec_edge_point (le_tenant_id e) rng r = Inr a'" "Q a a'"
    using ab(3) assms(1) fields by (cases rng) (auto simp: spec_edge_point_def res_simps)
  obtain b' where b': "spec_for ?add parts a' = Inr b'" "Q b b'"
    using adds_sim [OF a'(2) assms(2) _ ab(4)] assms(3) by auto
  have "\<exists>r'. spec_for (spec_consume lc (le_appended_at_ms e)) sources b' = Inr r' \<and> Q s' r'"
    using ab(5) b'(2) by (rule spec_for_sim) (auto simp: spec_consume_def consumed)
  then show ?thesis using ab(1) chk a'(1) b'(1) by (auto simp: assms(3) spec_nongenesis_def Let_def)
qed

lemma schema_sim:
  "Q s r \<Longrightarrow> spec_schema lc x s = Inr s' \<Longrightarrow> \<exists>r'. spec_schema lc x r = Inr r' \<and> Q s' r'"
  using fields(1) by (auto simp: spec_schema_def res_simps)

lemma nongenesis_sim:
  assumes "Q s r" "ok e" "spec_nongenesis lc e s = Inr s'"
  shows "\<exists>r'. spec_nongenesis lc e r = Inr r' \<and> Q s' r'"
proof (cases "le_op e")
  case (Add parts sources rng)
  then show ?thesis using add_entry_sim assms by blast
next
  case (Adopt parts)
  let ?g = "\<lambda>part. bind_res (ensure (pt_level part = Hour \<or> pt_level part = Day) ''adopted parts must be hour or day parts'')
    (\<lambda>_. ensure (\<not> pt_sorted part) ''adopt entry carries a sorted part'')"
  have assoc: "bind_res (bind_res x (\<lambda>_. y)) (\<lambda>_. z) = bind_res x (\<lambda>_. bind_res y (\<lambda>_. z))"
    for x y :: "unit res" and z :: "live_set res"
    by (cases x) simp_all
  show ?thesis
    using adds_sim [OF assms(1,2), of parts ?g s'] assms(3)
    by (auto simp: Adopt spec_nongenesis_def Let_def assoc bind_res_Inr ensure_Inr)
next
  case (Retire ids reason t)
  then show ?thesis
    using removes_sim [OF assms(1,2), of ids s'] assms(3) by (auto simp: spec_nongenesis_def Let_def res_simps)
next
  case (Merge out ids)
  then show ?thesis using supersede_sim [OF assms(1,2), of out ids s'] assms(3) by (simp add: spec_nongenesis_def)
next
  case (Rewrite out ids t)
  then show ?thesis using supersede_sim [OF assms(1,2), of out ids s'] assms(3) by (simp add: spec_nongenesis_def)
next
  case (EdgeFloor q c reason)
  then show ?thesis
    using assms(1,3) edges [OF assms(1)] fields(2) by (auto simp: spec_nongenesis_def Let_def res_simps)
next
  case (EdgeEnd q c reason)
  then show ?thesis
    using assms(1,3) edges [OF assms(1)] fields(3) [OF fields(2) [OF assms(1)]]
    by (auto simp: spec_nongenesis_def Let_def res_simps)
next
  case (Schema x)
  then show ?thesis using schema_sim [OF assms(1)] assms(3) by (simp add: spec_nongenesis_def)
qed (use assms(1,3) in \<open>auto simp: spec_nongenesis_def res_simps\<close>)

lemma op_sim:
  assumes "Q s r" "ok e" "spec_op lc e s = Inr s'"
  shows "\<exists>r'. spec_op lc e r = Inr r' \<and> Q s' r'"
proof (cases "le_seq e = 0")
  case True
  then show ?thesis
    using assms(3) schema_sim [OF assms(1)] by (cases "le_op e") (auto simp: spec_op_def)
next
  case False
  then show ?thesis using nongenesis_sim [OF assms(1,2)] assms(3) by (simp add: spec_op_def)
qed

end

section \<open>From entries to logs\<close>

locale log_simulation =
  fixes apply1 :: "'a \<Rightarrow> log_entry \<Rightarrow> string \<Rightarrow> unit res \<times> 'a"
    and apply2 :: "'b \<Rightarrow> log_entry \<Rightarrow> string \<Rightarrow> unit res \<times> 'b"
    and R :: "'a \<Rightarrow> 'b \<Rightarrow> bool"
    and ok :: "log_entry \<Rightarrow> bool"
  assumes step: "R a b \<Longrightarrow> ok e \<Longrightarrow> apply1 a e h = (Inr u, a') \<Longrightarrow> \<exists>v b'. apply2 b e h = (Inr v, b') \<and> R a' b'"
begin

lemma serial_sim:
  assumes "serial_read apply1 parse sha bs k a = (Inr n, a')" "R a b"
    and "\<And>x e. x \<in> set bs \<Longrightarrow> parse x = Inr e \<Longrightarrow> ok e"
  shows "\<exists>b'. serial_read apply2 parse sha bs k b = (Inr n, b') \<and> R a' b'"
  using assms
proof (induction bs arbitrary: k a b)
  case (Cons x bs)
  obtain e u a1 where a1: "parse x = Inr e" "apply1 a e (sha x) = (Inr u, a1)"
    "serial_read apply1 parse sha bs (k + 1) a1 = (Inr n, a')"
    using Cons.prems(1) by (auto split: sum.splits prod.splits)
  obtain v b1 where b1: "apply2 b e (sha x) = (Inr v, b1)" "R a1 b1"
    using step [OF Cons.prems(2) Cons.prems(3) a1(2)] a1(1) by auto
  have "\<exists>b'. serial_read apply2 parse sha bs (k + 1) b1 = (Inr n, b') \<and> R a' b'"
    by (rule Cons.IH [OF a1(3) b1(2)]) (use Cons.prems(3) in auto)
  then show ?case using a1(1) b1(1) by simp
qed simp

end

end
