(* ===== verification/Log_Reader.thy ===== *)
theory Log_Reader
  imports Log_Simulation
begin

text \<open>
  Readers of the part log (\<open>parts/part_log.rs\<close>): the schema-only view, \<open>load_log\<close> and \<open>load_log_schema\<close>
  with their choice of checkpoint, the two catch-up loops, and the bounded working set of garbage
  collection. The object store is a pair of functions, one answer per key for the duration of a read.
\<close>

section \<open>What the readers call\<close>

text \<open>A checkpoint parsed without its live list.\<close>

record checkpoint_schema_only =
  co_format :: string
  co_tenant_id :: string
  co_seq :: nat
  co_entry_sha256 :: string
  co_writer_epoch :: nat
  co_schema :: log_schema

text \<open>The uuid crate, the log's crates, and serde_json with the canonical writer for each object kind.\<close>

record log_io =
  io_uuid :: "string \<Rightarrow> string option"
  io_crates :: log_crates
  io_entry_canon :: "log_entry \<Rightarrow> string res"
  io_entry_parse :: "string \<Rightarrow> log_entry option"
  io_checkpoint_canon :: "checkpoint \<Rightarrow> string res"
  io_checkpoint_parse :: "string \<Rightarrow> checkpoint option"
  io_schema_only_parse :: "string \<Rightarrow> checkpoint_schema_only option"

record log_store =
  st_get :: "string \<Rightarrow> string option res"
  st_list :: "string \<Rightarrow> string list res"

abbreviation io_sha :: "log_io \<Rightarrow> string \<Rightarrow> string" where
  "io_sha io \<equiv> lc_sha_hex (io_crates io)"

definition parse_entry :: "log_io \<Rightarrow> string \<Rightarrow> string \<Rightarrow> log_entry res" where
  "parse_entry io tenant_id bytes = entry_parse_bytes (io_entry_canon io) (io_entry_parse io) bytes tenant_id"

section \<open>The schema view\<close>

record log_schema_view =
  sv_head :: log_head
  sv_schema :: "log_schema option"

definition empty_view :: log_schema_view where
  "empty_view = \<lparr> sv_head = None, sv_schema = None \<rparr>"

definition view_schema :: "log_crates \<Rightarrow> log_entry \<Rightarrow> log_schema option res" where
  "view_schema lc entry =
     (case le_op entry of
        Genesis schema \<Rightarrow>
          if le_seq entry = 0 then bind_res (log_schema_to_arrow lc schema) (\<lambda>_. Inr (Some schema))
          else Inl (Bail ''genesis after seq 0'')
      | Schema schema \<Rightarrow>
          if le_seq entry = 0 then Inl (Bail ''seq 0 must be genesis'')
          else bind_res (log_schema_to_arrow lc schema) (\<lambda>_. Inr (Some schema))
      | _ \<Rightarrow> if le_seq entry = 0 then Inl (Bail ''seq 0 must be genesis'') else Inr None)"

definition view_apply :: "log_crates \<Rightarrow> log_schema_view \<Rightarrow> log_entry \<Rightarrow> string \<Rightarrow> unit res \<times> log_schema_view" where
  "view_apply lc self entry entry_sha256 =
     (if le_seq entry \<noteq> expected_seq (sv_head self) \<or> le_prev_sha256 entry \<noteq> expected_prev (sv_head self)
      then (Inl (Bail ''log chain is broken''), self)
      else if le_writer_epoch entry < min_epoch (sv_head self)
      then (Inl (Bail ''log entry regresses the writer epoch''), self)
      else
        (case view_schema lc entry of
           Inl e \<Rightarrow> (Inl e, self)
         | Inr new \<Rightarrow>
             (Inr (), \<lparr> sv_head = Some (le_seq entry, entry_sha256, le_writer_epoch entry),
                        sv_schema = (case new of None \<Rightarrow> sv_schema self | Some _ \<Rightarrow> new) \<rparr>)))"

section \<open>Loading a log\<close>

definition is_snapshot_checkpoint_key :: "string \<Rightarrow> bool" where
  "is_snapshot_checkpoint_key key \<longleftrightarrow>
     (let name = last (split_on CHR ''/'' key) in
      length name = 25 \<and> drop 20 name = ''.json'' \<and> list_all is_digit (take 20 name))"

definition catch_up :: "log_io \<Rightarrow> log_store \<Rightarrow> string \<Rightarrow> live_set \<Rightarrow> (nat res \<times> live_set) option" where
  "catch_up io store tenant_id self =
     (case log_keys_new (io_uuid io) tenant_id of
        Inl e \<Rightarrow> Some (Inl e, self)
      | Inr root \<Rightarrow>
          catch_up_loop ls_head (live_apply (io_crates io)) (parse_entry io tenant_id) (io_sha io)
            (\<lambda>seq. st_get store (log_entry_key root seq)) 1 0 self)"

definition catch_up_schema ::
  "log_io \<Rightarrow> log_store \<Rightarrow> string \<Rightarrow> log_schema_view \<Rightarrow> (nat res \<times> log_schema_view) option" where
  "catch_up_schema io store tenant_id view =
     (case log_keys_new (io_uuid io) tenant_id of
        Inl e \<Rightarrow> Some (Inl e, view)
      | Inr root \<Rightarrow>
          catch_up_loop sv_head (view_apply (io_crates io)) (parse_entry io tenant_id) (io_sha io)
            (\<lambda>seq. st_get store (log_entry_key root seq)) 1 0 view)"

text \<open>The entry a checkpoint names must exist with the recorded digest.\<close>

definition checkpoint_entry_check :: "log_io \<Rightarrow> log_store \<Rightarrow> string \<Rightarrow> nat \<Rightarrow> string \<Rightarrow> unit res" where
  "checkpoint_entry_check io store root seq entry_sha256 =
     bind_res (st_get store (log_entry_key root seq)) (\<lambda>found.
     bind_res (ok_or found ''checkpoint names a missing entry'') (\<lambda>entry_bytes.
       ensure (io_sha io entry_bytes = entry_sha256) ''checkpoint does not match its entry''))"

text \<open>The loop over the checkpoint keys, newest first; an unreadable checkpoint is skipped.\<close>

fun load_checkpoint :: "log_io \<Rightarrow> log_store \<Rightarrow> string \<Rightarrow> string \<Rightarrow> string list \<Rightarrow> live_set res" where
  "load_checkpoint io store tenant_id root [] = Inr empty_live_set"
| "load_checkpoint io store tenant_id root (key # rest) =
     (if \<not> is_snapshot_checkpoint_key key then load_checkpoint io store tenant_id root rest
      else
        bind_res (st_get store key) (\<lambda>found.
          case found of
            None \<Rightarrow> load_checkpoint io store tenant_id root rest
          | Some bytes \<Rightarrow>
              (case checkpoint_parse_bytes (io_checkpoint_parse io) bytes tenant_id of
                 Inl _ \<Rightarrow> load_checkpoint io store tenant_id root rest
               | Inr cp \<Rightarrow>
                   bind_res (checkpoint_entry_check io store root (cp_seq cp) (cp_entry_sha256 cp)) (\<lambda>_.
                     from_checkpoint cp))))"

definition schema_only_parse_bytes :: "log_io \<Rightarrow> string \<Rightarrow> string \<Rightarrow> checkpoint_schema_only res" where
  "schema_only_parse_bytes io bytes tenant_id =
     bind_res (ensure (length bytes \<le> MAX_LOG_OBJECT_BYTES) ''checkpoint exceeds its byte bound'') (\<lambda>_.
     bind_res (ok_or (io_schema_only_parse io bytes) ''checkpoint does not parse'') (\<lambda>cp.
     bind_res (ensure (co_format cp = CHECKPOINT_FORMAT \<and> co_tenant_id cp = tenant_id)
       ''checkpoint format or tenant is wrong'') (\<lambda>_.
     bind_res (log_schema_to_arrow (io_crates io) (co_schema cp)) (\<lambda>_. Inr cp))))"

fun load_checkpoint_schema :: "log_io \<Rightarrow> log_store \<Rightarrow> string \<Rightarrow> string \<Rightarrow> string list \<Rightarrow> log_schema_view res" where
  "load_checkpoint_schema io store tenant_id root [] = Inr empty_view"
| "load_checkpoint_schema io store tenant_id root (key # rest) =
     (if \<not> is_snapshot_checkpoint_key key then load_checkpoint_schema io store tenant_id root rest
      else
        bind_res (st_get store key) (\<lambda>found.
          case found of
            None \<Rightarrow> load_checkpoint_schema io store tenant_id root rest
          | Some bytes \<Rightarrow>
              (case schema_only_parse_bytes io bytes tenant_id of
                 Inl _ \<Rightarrow> load_checkpoint_schema io store tenant_id root rest
               | Inr cp \<Rightarrow>
                   bind_res (checkpoint_entry_check io store root (co_seq cp) (co_entry_sha256 cp)) (\<lambda>_.
                     Inr \<lparr> sv_head = Some (co_seq cp, co_entry_sha256 cp, co_writer_epoch cp),
                           sv_schema = Some (co_schema cp) \<rparr>))))"

definition after_catch_up :: "(nat res \<times> 's) option \<Rightarrow> 's res option" where
  "after_catch_up r = map_option (\<lambda>(n, s). bind_res n (\<lambda>_. Inr s)) r"

definition load_log :: "log_io \<Rightarrow> log_store \<Rightarrow> string \<Rightarrow> live_set res option" where
  "load_log io store tenant_id =
     (case bind_res (log_keys_new (io_uuid io) tenant_id) (\<lambda>root.
           bind_res (st_list store (checkpoints_prefix root)) (\<lambda>keys.
             load_checkpoint io store tenant_id root (rev keys))) of
        Inl e \<Rightarrow> Some (Inl e)
      | Inr self \<Rightarrow> after_catch_up (catch_up io store tenant_id self))"

definition load_log_schema :: "log_io \<Rightarrow> log_store \<Rightarrow> string \<Rightarrow> log_schema_view res option" where
  "load_log_schema io store tenant_id =
     (case bind_res (log_keys_new (io_uuid io) tenant_id) (\<lambda>root.
           bind_res (st_list store (checkpoints_prefix root)) (\<lambda>keys.
             load_checkpoint_schema io store tenant_id root (rev keys))) of
        Inl e \<Rightarrow> Some (Inl e)
      | Inr view \<Rightarrow> after_catch_up (catch_up_schema io store tenant_id view))"

section \<open>The working set of garbage collection\<close>

text \<open>Hydrate the ids an entry touches, in the order the code does.\<close>

fun touched_ids :: "log_op \<Rightarrow> part_id list" where
  "touched_ids (Add parts _ _) = map pt_part_id parts"
| "touched_ids (Adopt parts) = map pt_part_id parts"
| "touched_ids (Merge out ids) = pt_part_id out # ids"
| "touched_ids (Rewrite out ids _) = pt_part_id out # ids"
| "touched_ids (Retire ids _ _) = ids"
| "touched_ids _ = []"

fun hydrate :: "(part_id \<Rightarrow> (part_ref option \<times> bool) res) \<Rightarrow> part_id list \<Rightarrow> live_set \<Rightarrow> live_set res" where
  "hydrate load [] next = Inr next"
| "hydrate load (pid # rest) next =
     bind_res (load pid) (\<lambda>(part, seen).
       let next = (case part of None \<Rightarrow> next | Some p \<Rightarrow> next\<lparr> ls_live := bput pid p (ls_live next) \<rparr>);
           next = (if seen then next\<lparr> ls_seen := bput pid () (ls_seen next) \<rparr> else next) in
       hydrate load rest next)"

definition gc_working_set ::
  "log_crates \<Rightarrow> live_set \<Rightarrow> log_entry \<Rightarrow> string \<Rightarrow> (part_id \<Rightarrow> (part_ref option \<times> bool) res) \<Rightarrow> live_set res" where
  "gc_working_set lc self entry sha load =
     bind_res (hydrate load (touched_ids (le_op entry))
       (empty_live_set\<lparr> ls_schema := ls_schema self, ls_head := ls_head self, ls_edge := ls_edge self,
                        ls_edge_ended := ls_edge_ended self \<rparr>)) (\<lambda>next.
       case live_apply lc next entry sha of (Inl e, _) \<Rightarrow> Inl e | (Inr _, next') \<Rightarrow> Inr next')"

section \<open>The two states are chained logs\<close>

interpretation lv: chained_log ls_head "live_apply lc" ls_wf for lc
proof
  fix s e h u s'
  assume s: "ls_wf s" "live_apply lc s e h = (Inr u, s')"
  have "spec_apply lc s e h = Inr s'" using s apply_Inr by blast
  then show "le_seq e = expected_seq (ls_head s) \<and> le_prev_sha256 e = expected_prev (ls_head s)
      \<and> min_epoch (ls_head s) \<le> le_writer_epoch e
      \<and> ls_head s' = Some (le_seq e, h, le_writer_epoch e) \<and> ls_wf s'"
    using spec_apply_wf [OF s(1)] by (auto simp: spec_apply_Inr)
next
  show "s' = s" if "ls_wf s" "live_apply lc s e h = (Inl err, s')" for s e h err s'
    using that by (rule apply_refused)
qed

interpretation sv: chained_log sv_head "view_apply lc" "\<lambda>_. True" for lc
  by unfold_locales (auto simp: view_apply_def split: if_splits sum.splits)

section \<open>Restarting from a checkpoint\<close>

text \<open>A restarted set has the same parts, schema, head and edge points; what it remembers of old ids is
  less, since a checkpoint carries only live parts.\<close>

definition restart_rel :: "live_set \<Rightarrow> live_set \<Rightarrow> bool" where
  "restart_rel s r \<longleftrightarrow> ls_live r = ls_live s \<and> ls_schema r = ls_schema s \<and> ls_head r = ls_head s
     \<and> ls_edge r = ls_edge s \<and> ls_edge_ended r = ls_edge_ended s
     \<and> (\<forall>pid. bhas (ls_seen r) pid \<longrightarrow> bhas (ls_seen s) pid \<and> part_id_ok pid)"

text \<open>Part ids are parsed when an entry is read: the type \<open>PartId\<close> holds well-formed ids only.\<close>

definition ids_ok :: "log_entry \<Rightarrow> bool" where
  "ids_ok e \<longleftrightarrow> (\<forall>p \<in> set (op_added (le_op e)). part_id_ok (pt_part_id p))"

interpretation rs: op_simulation restart_rel ids_ok
  by unfold_locales
    (auto simp: restart_rel_def add_ok_def add_part_def remove_part_def ids_ok_def bmap_simps)

lemma restart_step:
  assumes wf: "ls_wf s" "ls_wf r" and rel: "restart_rel s r" and ok: "ids_ok e" and step: "spec_apply lc s e h = Inr s'"
  shows "\<exists>r'. spec_apply lc r e h = Inr r' \<and> restart_rel s' r'"
proof -
  let ?head = "Some (le_seq e, h, le_writer_epoch e)"
  obtain s1 where s1: "spec_op lc e s = Inr s1" "s' = prune_ids (le_appended_at_ms e) (s1\<lparr> ls_head := ?head \<rparr>)"
    using step by (auto simp: spec_apply_Inr)
  obtain r1 where r1: "spec_op lc e r = Inr r1" "restart_rel s1 r1" using rs.op_sim [OF rel ok s1(1)] by blast
  let ?r' = "prune_ids (le_appended_at_ms e) (r1\<lparr> ls_head := ?head \<rparr>)"
  have bwf: "bwf (ls_seen (s1\<lparr> ls_head := ?head \<rparr>))" "bwf (ls_seen (r1\<lparr> ls_head := ?head \<rparr>))"
    using spec_op_wf [OF s1(1) wf(1)] spec_op_wf [OF r1(1) wf(2)] by (simp_all add: ls_wf_def)
  have "bhas (ls_seen s') pid \<and> part_id_ok pid" if seen: "bhas (ls_seen ?r') pid" for pid
  proof -
    have "bhas (ls_seen r1) pid" using prune_seen(1) [OF bwf(2) seen] by simp
    then have old: "bhas (ls_seen s1) pid" "part_id_ok pid" using r1(2) by (auto simp: restart_rel_def)
    have "bhas (ls_live r1) pid \<or> sat_sub_i64 (le_appended_at_ms e) ID_MEMORY_MS \<le> created_unix_ms pid"
      using prune_seen_bound [OF bwf(2) _ seen] r1(2) by (simp add: restart_rel_def)
    then show ?thesis
      using prune_seen(2) [OF bwf(1), of pid] old r1(2) by (auto simp: s1(2) restart_rel_def)
  qed
  then have "restart_rel s' ?r'" using r1(2) by (simp add: restart_rel_def s1(2))
  moreover have "spec_apply lc r e h = Inr ?r'"
    using step rel r1(1) by (auto simp: spec_apply_Inr restart_rel_def)
  ultimately show ?thesis by blast
qed

interpretation rl: log_simulation "live_apply lc" "live_apply lc" "\<lambda>s r. ls_wf s \<and> ls_wf r \<and> restart_rel s r" ids_ok for lc
proof
  fix s r e h u s'
  assume rel: "ls_wf s \<and> ls_wf r \<and> restart_rel s r" and ok: "ids_ok e" and run: "live_apply lc s e h = (Inr u, s')"
  have s': "spec_apply lc s e h = Inr s'" using run rel apply_Inr by blast
  then obtain r' where r': "spec_apply lc r e h = Inr r'" "restart_rel s' r'"
    using restart_step rel ok by blast
  then show "\<exists>v r'. live_apply lc r e h = (Inr v, r') \<and> ls_wf s' \<and> ls_wf r' \<and> restart_rel s' r'"
    using rel s' apply_Inr [of r lc e h "()" r'] spec_apply_wf by blast
qed

text \<open>The live map of a folded set: keys match, references are valid, and live ids are remembered.\<close>

definition live_inv :: "live_set \<Rightarrow> bool" where
  "live_inv s \<longleftrightarrow> (\<forall>pid p. map_of (ls_live s) pid = Some p \<longrightarrow>
     pt_part_id p = pid \<and> part_ref_validate p = Inr () \<and> bhas (ls_seen s) pid \<and> part_id_ok pid)"

lemma live_inv_step:
  assumes "ls_wf s" "live_inv s" "ids_ok e" "spec_apply lc s e h = Inr s'"
  shows "live_inv s'"
  unfolding live_inv_def
proof (intro allI impI)
  fix pid p
  assume p: "map_of (ls_live s') pid = Some p"
  note eff = apply_effect [OF assms(1,4)]
  consider "p \<in> set (op_added (le_op e))" "pt_part_id p = pid" | "map_of (ls_live s) pid = Some p"
    using p eff(5) by blast
  then show "pt_part_id p = pid \<and> part_ref_validate p = Inr () \<and> bhas (ls_seen s') pid \<and> part_id_ok pid"
  proof cases
    case 1
    then show ?thesis using p eff(4) eff(7) [of pid] assms(3) by (auto simp: add_ok_def ids_ok_def bhas_def)
  next
    case 2
    then have "pt_part_id p = pid \<and> part_ref_validate p = Inr () \<and> bhas (ls_seen s) pid \<and> part_id_ok pid"
      using assms(2) by (simp add: live_inv_def)
    then show ?thesis using p eff(7) [of pid] by (auto simp: bhas_def)
  qed
qed

lemma from_checkpoint_parts_ok:
  assumes "\<forall>p \<in> set ps. part_ref_validate p = Inr () \<and> \<not> bhas (ls_live ls) (pt_part_id p)"
    and "distinct (map pt_part_id ps)" "ls_wf ls"
  shows "\<exists>ls'. from_checkpoint_parts ls ps = Inr ls' \<and> ls_wf ls'
    \<and> map_of (ls_live ls') = map_of (ls_live ls) ++ map_of (map (\<lambda>p. (pt_part_id p, p)) ps)
    \<and> (\<forall>k. bhas (ls_seen ls') k \<longleftrightarrow> k \<in> pt_part_id ` set ps \<or> bhas (ls_seen ls) k)"
  using assms
proof (induction ps arbitrary: ls)
  case (Cons p ps)
  let ?ls = "ls\<lparr> ls_live := bput (pt_part_id p) p (ls_live ls), ls_seen := bput (pt_part_id p) () (ls_seen ls),
      ls_added_at := bput (pt_part_id p) (created_unix_ms (pt_part_id p)) (ls_added_at ls) \<rparr>"
  have "ls_wf ?ls" using Cons.prems(3) by (auto simp: ls_wf_def)
  moreover have "\<forall>q \<in> set ps. part_ref_validate q = Inr () \<and> \<not> bhas (ls_live ?ls) (pt_part_id q)"
  proof
    fix q assume q: "q \<in> set ps"
    then have "pt_part_id q \<noteq> pt_part_id p" using Cons.prems(2) by (metis distinct.simps(2) image_eqI list.set_map list.simps(9))
    then show "part_ref_validate q = Inr () \<and> \<not> bhas (ls_live ?ls) (pt_part_id q)"
      using q Cons.prems(1) by (simp add: bmap_simps)
  qed
  ultimately obtain ls' where ls': "from_checkpoint_parts ?ls ps = Inr ls'" "ls_wf ls'"
    "map_of (ls_live ls') = map_of (ls_live ?ls) ++ map_of (map (\<lambda>p. (pt_part_id p, p)) ps)"
    "\<forall>k. bhas (ls_seen ls') k \<longleftrightarrow> k \<in> pt_part_id ` set ps \<or> bhas (ls_seen ?ls) k"
    using Cons.IH [of ?ls] Cons.prems(2) by auto
  have "pt_part_id p \<notin> dom (map_of (map (\<lambda>p. (pt_part_id p, p)) ps))"
    using Cons.prems(2) by (auto simp: dom_map_of_conv_image_fst)
  then have "map_of (ls_live ls') = map_of (ls_live ls) ++ map_of (map (\<lambda>p. (pt_part_id p, p)) (p # ps))"
    by (simp add: ls'(3) bmap_simps map_add_upd_left)
  moreover have "from_checkpoint_parts ls (p # ps) = Inr ls'" using ls'(1) Cons.prems(1) by simp
  moreover have "\<forall>k. bhas (ls_seen ls') k \<longleftrightarrow> k \<in> pt_part_id ` set (p # ps) \<or> bhas (ls_seen ls) k"
    using ls'(4) by (auto simp: bmap_simps)
  ultimately show ?case using ls'(2) by blast
qed simp

lemma checkpoint_restart:
  assumes wf: "ls_wf s" and I: "live_inv s" and cp: "live_checkpoint s tenant = Inr cp"
  shows "\<exists>r. from_checkpoint cp = Inr r \<and> ls_wf r \<and> restart_rel s r"
proof -
  obtain q h ep schema where hs: "ls_head s = Some (q, h, ep)" "ls_schema s = Some schema"
    "cp = \<lparr> cp_format = CHECKPOINT_FORMAT, cp_tenant_id = tenant, cp_seq = q, cp_entry_sha256 = h,
       cp_writer_epoch = ep, cp_schema = schema, cp_live = map snd (ls_live s),
       cp_edge_log = ls_edge s, cp_edge_ended = ls_edge_ended s \<rparr>"
    using cp by (auto simp: live_checkpoint_def res_simps)
  have bwf: "bwf (ls_live s)" using wf by (simp add: ls_wf_def)
  have mem: "pt_part_id p = k \<and> part_ref_validate p = Inr () \<and> bhas (ls_seen s) k \<and> part_id_ok k"
    if "(k, p) \<in> set (ls_live s)" for k p
    using that I bwf_in_map_of [OF bwf] by (auto simp: live_inv_def)
  have keys: "map (\<lambda>p. (pt_part_id p, p)) (map snd (ls_live s)) = ls_live s"
    by (rule nth_equalityI) (use mem in \<open>auto simp: in_set_conv_nth prod_eq_iff\<close>)
  then have ids: "map pt_part_id (map snd (ls_live s)) = map fst (ls_live s)"
    by (metis (no_types, lifting) fst_conv list.map_comp comp_apply map_cong)
  let ?ps = "map snd (ls_live s)"
  have pre: "\<forall>p \<in> set ?ps. part_ref_validate p = Inr () \<and> \<not> bhas (ls_live empty_live_set) (pt_part_id p)"
    using mem by (auto simp: empty_live_set_def)
  have dist: "distinct (map pt_part_id ?ps)" unfolding ids by (rule bwf_distinct [OF bwf])
  obtain r where r: "from_checkpoint_parts empty_live_set ?ps = Inr r" "ls_wf r"
    "map_of (ls_live r) = map_of (ls_live empty_live_set) ++ map_of (ls_live s)"
    "\<And>k. bhas (ls_seen r) k \<longleftrightarrow> k \<in> pt_part_id ` set ?ps \<or> bhas (ls_seen empty_live_set) k"
    using from_checkpoint_parts_ok [OF pre dist ls_wf_empty] unfolding keys by blast
  have "map_of (ls_live r) = map_of (ls_live s)" by (simp add: r(3) empty_live_set_def)
  then have live: "ls_live r = ls_live s" using r(2) bwf by (intro bmap_canonical) (auto simp: ls_wf_def)
  have "from_checkpoint cp = Inr (r\<lparr> ls_edge := ls_edge s, ls_edge_ended := ls_edge_ended s,
      ls_schema := Some schema, ls_head := Some (q, h, ep) \<rparr>)"
    by (simp add: from_checkpoint_def hs(3) r(1))
  moreover have "bhas (ls_seen s) k \<and> part_id_ok k" if "bhas (ls_seen r) k" for k
    using that mem by (auto simp: r(4) empty_live_set_def)
  ultimately show ?thesis using r(2) live hs(1,2) by (auto simp: restart_rel_def ls_wf_def)
qed


section \<open>Catching up\<close>

text \<open>The store holds exactly the entries \<open>bs\<close> of the log, from sequence number 0.\<close>

definition holds_log :: "log_store \<Rightarrow> string \<Rightarrow> string list \<Rightarrow> bool" where
  "holds_log store root bs \<longleftrightarrow>
     (\<forall>i. st_get store (log_entry_key root i) = Inr (if i < length bs then Some (bs ! i) else None))"

definition read_live :: "log_io \<Rightarrow> string \<Rightarrow> string list \<Rightarrow> live_set \<Rightarrow> nat res \<times> live_set" where
  "read_live io tenant bs s = serial_read (live_apply (io_crates io)) (parse_entry io tenant) (io_sha io) bs 0 s"

definition read_view :: "log_io \<Rightarrow> string \<Rightarrow> string list \<Rightarrow> log_schema_view \<Rightarrow> nat res \<times> log_schema_view" where
  "read_view io tenant bs v = serial_read (view_apply (io_crates io)) (parse_entry io tenant) (io_sha io) bs 0 v"

lemma holds_log_fetch:
  "holds_log store root bs \<Longrightarrow>
     (\<lambda>i. st_get store (log_entry_key root i)) = (\<lambda>i. Inr (if i < length bs then Some (bs ! i) else None))"
  by (auto simp: holds_log_def)

lemma catch_up_entries:
  assumes "log_keys_new (io_uuid io) tenant = Inr root" "holds_log store root bs" "ls_wf s"
    and "expected_seq (ls_head s) \<le> length bs"
  shows "catch_up io store tenant s = Some (read_live io tenant (drop (expected_seq (ls_head s)) bs) s)"
proof -
  have "catch_up io store tenant s = catch_up_loop ls_head (live_apply (io_crates io)) (parse_entry io tenant) (io_sha io)
      (\<lambda>i. Inr (if i < length bs then Some (bs ! i) else None)) 1 0 s"
    by (simp add: catch_up_def assms(1) holds_log_fetch [OF assms(2)])
  also have "\<dots> = Some (read_live io tenant (drop (expected_seq (ls_head s)) bs) s)"
    unfolding read_live_def by (rule lv.catch_up_serial) (use assms(3,4) in auto)
  finally show ?thesis .
qed

lemma catch_up_schema_entries:
  assumes "log_keys_new (io_uuid io) tenant = Inr root" "holds_log store root bs"
    and "expected_seq (sv_head v) \<le> length bs"
  shows "catch_up_schema io store tenant v = Some (read_view io tenant (drop (expected_seq (sv_head v)) bs) v)"
proof -
  have "catch_up_schema io store tenant v = catch_up_loop sv_head (view_apply (io_crates io)) (parse_entry io tenant) (io_sha io)
      (\<lambda>i. Inr (if i < length bs then Some (bs ! i) else None)) 1 0 v"
    by (simp add: catch_up_schema_def assms(1) holds_log_fetch [OF assms(2)])
  also have "\<dots> = Some (read_view io tenant (drop (expected_seq (sv_head v)) bs) v)"
    unfolding read_view_def by (rule sv.catch_up_serial) (use assms(3) in auto)
  finally show ?thesis .
qed

lemma read_live_split:
  assumes "read_live io tenant bs s = (Inr n, s'')" "k \<le> length bs"
  shows "\<exists>s'. read_live io tenant (take k bs) s = (Inr k, s') \<and> read_live io tenant (drop k bs) s' = (Inr (length bs - k), s'')"
proof -
  obtain r s' where s': "read_live io tenant (take k bs) s = (r, s')" by (metis surj_pair)
  have "serial_read (live_apply (io_crates io)) (parse_entry io tenant) (io_sha io) (take k bs @ drop k bs) 0 s = (Inr n, s'')"
    using assms(1) by (simp add: read_live_def)
  then obtain m where m: "r = Inr m"
    "serial_read (live_apply (io_crates io)) (parse_entry io tenant) (io_sha io) (drop k bs) m s' = (Inr n, s'')"
    using s' unfolding serial_read_append read_live_def by (cases r) auto
  show ?thesis
    using s' m assms(2) serial_read_count [OF m(2), of 0] serial_read_applied [of _ _ _ "take k bs" 0 s m s']
    by (auto simp: read_live_def)
qed

definition entries_ok :: "log_io \<Rightarrow> string \<Rightarrow> string list \<Rightarrow> bool" where
  "entries_ok io tenant bs \<longleftrightarrow> (\<forall>b \<in> set bs. \<forall>e. parse_entry io tenant b = Inr e \<longrightarrow> ids_ok e)"

lemma read_live_inv:
  assumes "read_live io tenant bs s = (r, s')" "ls_wf s" "live_inv s" "entries_ok io tenant bs"
  shows "live_inv s'"
proof -
  have "live_inv s'" if "serial_read (live_apply (io_crates io)) (parse_entry io tenant) (io_sha io) bs k s = (r, s')" for k
    using that assms(2-4)
  proof (induction bs arbitrary: k s)
    case (Cons b bs)
    show ?case
    proof (cases "parse_entry io tenant b")
      case (Inr e)
      obtain x s1 where s1: "live_apply (io_crates io) s e (io_sha io b) = (x, s1)" by (metis surj_pair)
      have "ls_wf s1" using ls_wf_apply [OF Cons.prems(2)] s1 by (metis snd_conv)
      moreover have "live_inv s1"
      proof (cases x)
        case (Inr u)
        then have "spec_apply (io_crates io) s e (io_sha io b) = Inr s1" using apply_Inr Cons.prems(2) s1 by blast
        then show ?thesis
          using live_inv_step Cons.prems(2-4) \<open>parse_entry io tenant b = Inr e\<close> by (auto simp: entries_ok_def)
      qed (use apply_refused [OF Cons.prems(2)] s1 Cons.prems(3) in blast)
      ultimately show ?thesis
        using Cons.IH [of "k + 1" s1] Cons.prems Inr s1 by (cases x) (auto simp: entries_ok_def)
    qed (use Cons.prems in auto)
  qed simp
  then show ?thesis using assms(1) by (simp add: read_live_def)
qed


section \<open>Loading a log equals replaying it from genesis\<close>

text \<open>Every readable checkpoint of the store was taken of a prefix of its log, as the writer does.\<close>

definition checkpoints_taken :: "log_io \<Rightarrow> log_store \<Rightarrow> string \<Rightarrow> string list \<Rightarrow> string list \<Rightarrow> bool" where
  "checkpoints_taken io store tenant bs keys \<longleftrightarrow>
     (\<forall>key \<in> set keys. \<exists>found. st_get store key = Inr found \<and>
        (\<forall>bytes cp. found = Some bytes \<longrightarrow> checkpoint_parse_bytes (io_checkpoint_parse io) bytes tenant = Inr cp \<longrightarrow>
           (\<exists>k s. k \<le> length bs \<and> read_live io tenant (take k bs) empty_live_set = (Inr k, s)
              \<and> live_checkpoint s tenant = Inr cp)))"

lemma live_inv_empty: "live_inv empty_live_set"
  by (simp add: live_inv_def empty_live_set_def)

lemma restart_empty: "restart_rel empty_live_set empty_live_set"
  by (simp add: restart_rel_def empty_live_set_def)

lemma checkpoint_entry_present:
  assumes "holds_log store root bs" "read_live io tenant (take k bs) empty_live_set = (Inr k, s)" "k \<le> length bs"
    and "live_checkpoint s tenant = Inr cp"
  shows "checkpoint_entry_check io store root (cp_seq cp) (cp_entry_sha256 cp) = Inr ()"
proof -
  obtain q h ep where hs: "ls_head s = Some (q, h, ep)" "cp_seq cp = q" "cp_entry_sha256 cp = h"
    using assms(4) by (auto simp: live_checkpoint_def res_simps)
  have "take k bs \<noteq> []"
  proof
    assume nil: "take k bs = []"
    have "s = empty_live_set" using assms(2) unfolding read_live_def nil by simp
    then show False using hs(1) by (simp add: empty_live_set_def)
  qed
  then obtain q' ep' where "ls_head s = Some (q', io_sha io (last (take k bs)), ep')" "q' + 1 = k"
    using lv.serial_read_head(2) [OF assms(2) [unfolded read_live_def] ls_wf_empty] assms(3)
    by (auto simp: expected_seq_def empty_live_set_def)
  then have "q + 1 = k" "h = io_sha io (bs ! q)"
    using hs(1) assms(3) \<open>take k bs \<noteq> []\<close> by (auto simp: last_conv_nth)
  then show ?thesis using assms(1,3) by (simp add: checkpoint_entry_check_def hs holds_log_def)
qed

lemma load_checkpoint_prefix:
  assumes "holds_log store root bs" "checkpoints_taken io store tenant bs keys" "entries_ok io tenant bs"
  shows "\<exists>k s r. k \<le> length bs \<and> read_live io tenant (take k bs) empty_live_set = (Inr k, s)
    \<and> load_checkpoint io store tenant root keys = Inr r \<and> ls_wf s \<and> ls_wf r \<and> restart_rel s r"
  using assms(2)
proof (induction keys)
  case Nil
  then show ?case
    by (intro exI [of _ 0] exI [of _ empty_live_set]) (simp add: read_live_def ls_wf_empty restart_empty)
next
  case (Cons key keys)
  have rest: "checkpoints_taken io store tenant bs keys" using Cons.prems by (simp add: checkpoints_taken_def)
  obtain found where found: "st_get store key = Inr found" using Cons.prems by (auto simp: checkpoints_taken_def)
  show ?case
  proof (cases "\<exists>bytes cp. is_snapshot_checkpoint_key key \<and> found = Some bytes
      \<and> checkpoint_parse_bytes (io_checkpoint_parse io) bytes tenant = Inr cp")
    case True
    then obtain bytes cp where cp: "is_snapshot_checkpoint_key key" "found = Some bytes"
      "checkpoint_parse_bytes (io_checkpoint_parse io) bytes tenant = Inr cp" by blast
    obtain k s where s: "k \<le> length bs" "read_live io tenant (take k bs) empty_live_set = (Inr k, s)"
      "live_checkpoint s tenant = Inr cp"
      using Cons.prems cp found unfolding checkpoints_taken_def by fastforce
    have wf: "ls_wf s" using lv.serial_read_good [OF s(2) [unfolded read_live_def] ls_wf_empty] .
    have "entries_ok io tenant (take k bs)" using assms(3) by (auto simp: entries_ok_def dest: in_set_takeD)
    then have "live_inv s" using read_live_inv [OF s(2) ls_wf_empty live_inv_empty] by simp
    then obtain r where r: "from_checkpoint cp = Inr r" "ls_wf r" "restart_rel s r"
      using checkpoint_restart [OF wf _ s(3)] by blast
    then show ?thesis
      using s wf cp found checkpoint_entry_present [OF assms(1) s(2,1,3)] by auto
  next
    case False
    then have "load_checkpoint io store tenant root (key # keys) = load_checkpoint io store tenant root keys"
      using found by (auto split: option.splits sum.splits)
    then show ?thesis using Cons.IH [OF rest] by simp
  qed
qed

lemma load_log_run:
  assumes log: "holds_log store root bs" "checkpoints_taken io store tenant bs keys" "entries_ok io tenant bs"
    and full: "read_live io tenant bs empty_live_set = (Inr n, s)"
  shows "\<exists>r r'. load_checkpoint io store tenant root (rev keys) = Inr r \<and> ls_wf r \<and> expected_seq (ls_head r) \<le> length bs
    \<and> read_live io tenant (drop (expected_seq (ls_head r)) bs) r = (Inr (length bs - expected_seq (ls_head r)), r')
    \<and> restart_rel s r'"
proof -
  have "checkpoints_taken io store tenant bs (rev keys)" using log(2) by (simp add: checkpoints_taken_def)
  then obtain k sk r where k: "k \<le> length bs" "read_live io tenant (take k bs) empty_live_set = (Inr k, sk)"
    "load_checkpoint io store tenant root (rev keys) = Inr r" "ls_wf sk" "ls_wf r" "restart_rel sk r"
    using load_checkpoint_prefix [OF log(1) _ log(3)] by blast
  obtain s' where s': "read_live io tenant (take k bs) empty_live_set = (Inr k, s')"
    "read_live io tenant (drop k bs) s' = (Inr (length bs - k), s)"
    using read_live_split [OF full k(1)] by blast
  then have rest: "serial_read (live_apply (io_crates io)) (parse_entry io tenant) (io_sha io) (drop k bs) 0 sk
      = (Inr (length bs - k), s)"
    using k(2) by (simp add: read_live_def)
  obtain r' where r': "serial_read (live_apply (io_crates io)) (parse_entry io tenant) (io_sha io) (drop k bs) 0 r
      = (Inr (length bs - k), r')" "restart_rel s r'"
    using rl.serial_sim [OF rest, of r] k(4-6) log(3) by (auto simp: entries_ok_def dest: in_set_dropD)
  have "expected_seq (ls_head sk) = k"
    using lv.serial_read_head(1) [OF k(2) [unfolded read_live_def] ls_wf_empty] k(1)
    by (simp add: expected_seq_def empty_live_set_def)
  then have "expected_seq (ls_head r) = k" using k(6) by (simp add: restart_rel_def)
  then show ?thesis using k(1,3,5) r' by (auto simp: read_live_def)
qed

text \<open>
  C4: loading a log from the newest readable checkpoint and catching up returns, and gives the same
  parts, schema, head and edge points as replaying every entry from genesis, whichever of the stored
  checkpoints is chosen.
\<close>

theorem load_log_correct:
  assumes "log_keys_new (io_uuid io) tenant = Inr root" "st_list store (checkpoints_prefix root) = Inr keys"
    and "holds_log store root bs" "checkpoints_taken io store tenant bs keys" "entries_ok io tenant bs"
    and "read_live io tenant bs empty_live_set = (Inr n, s)"
  shows "\<exists>r. load_log io store tenant = Some (Inr r) \<and> ls_live r = ls_live s \<and> ls_schema r = ls_schema s
    \<and> ls_head r = ls_head s \<and> ls_edge r = ls_edge s \<and> ls_edge_ended r = ls_edge_ended s"
proof -
  obtain r r' where r: "load_checkpoint io store tenant root (rev keys) = Inr r" "ls_wf r"
    "expected_seq (ls_head r) \<le> length bs"
    "read_live io tenant (drop (expected_seq (ls_head r)) bs) r = (Inr (length bs - expected_seq (ls_head r)), r')"
    "restart_rel s r'"
    using load_log_run [OF assms(3-6)] by blast
  have "load_log io store tenant = Some (Inr r')"
    using assms(1,2) r(1) catch_up_entries [OF assms(1,3) r(2,3)] r(4) by (simp add: load_log_def after_catch_up_def)
  then show ?thesis using r(5) by (simp add: restart_rel_def)
qed

section \<open>The schema view follows the live set\<close>

lemma spec_op_schema:
  assumes "spec_op lc e ls = Inr ls'"
  shows "\<exists>new. view_schema lc e = Inr new \<and> ls_schema ls' = (case new of None \<Rightarrow> ls_schema ls | Some _ \<Rightarrow> new)"
proof (cases "\<exists>x. le_op e = Genesis x \<or> le_op e = Schema x")
  case True
  then show ?thesis
    using assms
    by (auto simp: spec_op_def spec_nongenesis_def view_schema_def spec_schema_def res_simps split: if_splits)
next
  case False
  have "ls_schema ls' = ls_schema ls"
    using assms by (rule spec_op_inv) (use False in \<open>auto simp: add_part_def remove_part_def\<close>)
  moreover have "view_schema lc e = Inr None"
    using assms False by (cases "le_op e") (auto simp: view_schema_def spec_op_def split: if_splits)
  ultimately show ?thesis by simp
qed

definition view_rel :: "live_set \<Rightarrow> log_schema_view \<Rightarrow> bool" where
  "view_rel s v \<longleftrightarrow> ls_wf s \<and> sv_head v = ls_head s \<and> sv_schema v = ls_schema s"

interpretation vl: log_simulation "live_apply lc" "view_apply lc" view_rel "\<lambda>_. True" for lc
proof
  fix s v e h u s'
  assume rel: "view_rel s v" and run: "live_apply lc s e h = (Inr u, s')"
  have wf: "ls_wf s" using rel by (simp add: view_rel_def)
  have s': "spec_apply lc s e h = Inr s'" using run wf apply_Inr by blast
  then obtain n where n: "spec_op lc e s = Inr n" "ls_schema s' = ls_schema n"
    "ls_head s' = Some (le_seq e, h, le_writer_epoch e)"
    by (auto simp: spec_apply_Inr)
  obtain new where "view_schema lc e = Inr new" "ls_schema n = (case new of None \<Rightarrow> ls_schema s | Some _ \<Rightarrow> new)"
    using spec_op_schema [OF n(1)] by blast
  then show "\<exists>w v'. view_apply lc v e h = (Inr w, v') \<and> view_rel s' v'"
    using rel s' n spec_apply_wf [OF wf s'] by (cases new) (auto simp: view_apply_def view_rel_def spec_apply_Inr not_less)
qed

text \<open>serde reads both checkpoint types from the same fields, and every readable checkpoint carries a
  schema that decodes.\<close>

definition schema_only_agrees :: "log_io \<Rightarrow> bool" where
  "schema_only_agrees io \<longleftrightarrow> (\<forall>bytes. io_schema_only_parse io bytes = map_option (\<lambda>cp.
     \<lparr> co_format = cp_format cp, co_tenant_id = cp_tenant_id cp, co_seq = cp_seq cp,
       co_entry_sha256 = cp_entry_sha256 cp, co_writer_epoch = cp_writer_epoch cp, co_schema = cp_schema cp \<rparr>)
     (io_checkpoint_parse io bytes))"

lemma schema_only_parse_project:
  assumes "schema_only_agrees io" "checkpoint_parse_bytes (io_checkpoint_parse io) bytes tenant = Inr cp"
    and "log_schema_to_arrow (io_crates io) (cp_schema cp) = Inr arrow"
  shows "schema_only_parse_bytes io bytes tenant = Inr
    \<lparr> co_format = cp_format cp, co_tenant_id = cp_tenant_id cp, co_seq = cp_seq cp,
      co_entry_sha256 = cp_entry_sha256 cp, co_writer_epoch = cp_writer_epoch cp, co_schema = cp_schema cp \<rparr>"
  using assms
  by (auto simp: schema_only_agrees_def schema_only_parse_bytes_def checkpoint_parse_bytes_def res_simps)

lemma schema_only_parse_fails:
  assumes "schema_only_agrees io" "checkpoint_parse_bytes (io_checkpoint_parse io) bytes tenant = Inl e"
  shows "\<exists>e'. schema_only_parse_bytes io bytes tenant = Inl e'"
  using assms
  by (cases "io_checkpoint_parse io bytes")
    (auto simp: schema_only_agrees_def schema_only_parse_bytes_def checkpoint_parse_bytes_def ensure_def split: if_splits)

definition checkpoint_schemas_ok :: "log_io \<Rightarrow> log_store \<Rightarrow> string \<Rightarrow> string list \<Rightarrow> bool" where
  "checkpoint_schemas_ok io store tenant keys \<longleftrightarrow>
     (\<forall>key \<in> set keys. \<forall>bytes cp. st_get store key = Inr (Some bytes) \<longrightarrow>
        checkpoint_parse_bytes (io_checkpoint_parse io) bytes tenant = Inr cp \<longrightarrow>
        (\<exists>arrow. log_schema_to_arrow (io_crates io) (cp_schema cp) = Inr arrow))"

lemma load_checkpoint_schema_follows:
  assumes "load_checkpoint io store tenant root keys = Inr r" "schema_only_agrees io"
    and "checkpoint_schemas_ok io store tenant keys"
  shows "\<exists>v. load_checkpoint_schema io store tenant root keys = Inr v \<and> sv_head v = ls_head r \<and> sv_schema v = ls_schema r"
  using assms(1,3)
proof (induction keys)
  case Nil
  then show ?case by (auto simp: empty_view_def empty_live_set_def)
next
  case (Cons key keys)
  have rest: "checkpoint_schemas_ok io store tenant keys" using Cons.prems(2) by (simp add: checkpoint_schemas_ok_def)
  show ?case
  proof (cases "is_snapshot_checkpoint_key key")
    case True
    then obtain found where found: "st_get store key = Inr found" using Cons.prems(1) by (auto simp: res_simps)
    show ?thesis
    proof (cases found)
      case None
      then show ?thesis using Cons.IH [OF _ rest] Cons.prems(1) True found by simp
    next
      case (Some bytes)
      show ?thesis
      proof (cases "checkpoint_parse_bytes (io_checkpoint_parse io) bytes tenant")
        case (Inl e)
        then show ?thesis
          using schema_only_parse_fails [OF assms(2) Inl] Cons.IH [OF _ rest] Cons.prems(1) True found Some by auto
      next
        case (Inr cp)
        then obtain arrow where "log_schema_to_arrow (io_crates io) (cp_schema cp) = Inr arrow"
          using Cons.prems(2) found Some by (auto simp: checkpoint_schemas_ok_def)
        then show ?thesis
          using schema_only_parse_project [OF assms(2) Inr] Cons.prems(1) True found Some Inr
          by (auto simp: res_simps from_checkpoint_def)
      qed
    qed
  qed (use Cons.IH [OF _ rest] Cons.prems(1) in simp)
qed




text \<open>
  C18: catching up in doubling windows returns, and its outcome is that of reading the remaining
  entries one by one: the same count, the same error at the same entry, and the same set.
\<close>

theorem catch_up_is_serial:
  assumes "log_keys_new (io_uuid io) tenant = Inr root" "holds_log store root bs" "ls_wf s"
    and "expected_seq (ls_head s) \<le> length bs"
  shows "catch_up io store tenant s = Some (read_live io tenant (drop (expected_seq (ls_head s)) bs) s)"
  using assms by (rule catch_up_entries)

section \<open>The working set validates as the full set\<close>

lemma touched_added_removed:
  "p \<in> set (op_added op) \<Longrightarrow> pt_part_id p \<in> set (touched_ids op)"
  "pid \<in> set (op_removed op) \<Longrightarrow> pid \<in> set (touched_ids op)"
  by (cases op; auto)+

text \<open>The working set agrees with the full set on the ids of \<open>K\<close> and holds no others.\<close>

definition touch_rel :: "part_id set \<Rightarrow> live_set \<Rightarrow> live_set \<Rightarrow> bool" where
  "touch_rel K s w \<longleftrightarrow> ls_schema w = ls_schema s \<and> ls_head w = ls_head s \<and> ls_edge w = ls_edge s
     \<and> ls_edge_ended w = ls_edge_ended s
     \<and> (\<forall>pid \<in> K. map_of (ls_live w) pid = map_of (ls_live s) pid \<and> bhas (ls_seen w) pid = bhas (ls_seen s) pid)
     \<and> (\<forall>pid. pid \<notin> K \<longrightarrow> map_of (ls_live w) pid = None)"

abbreviation touches :: "part_id set \<Rightarrow> log_entry \<Rightarrow> bool" where
  "touches K e \<equiv> set (touched_ids (le_op e)) \<subseteq> K"

interpretation gw: op_simulation "touch_rel K" "touches K" for K
  by unfold_locales (auto simp: touch_rel_def add_ok_def add_part_def remove_part_def bmap_simps dest: touched_added_removed)

interpretation wg: op_simulation "\<lambda>w s. touch_rel K s w" "touches K" for K
  by unfold_locales (auto simp: touch_rel_def add_ok_def add_part_def remove_part_def bmap_simps dest: touched_added_removed)

lemma hydrate_ok:
  assumes "ls_wf s" "ls_wf next" "\<And>pid. load pid = Inr (map_of (ls_live s) pid, bhas (ls_seen s) pid)"
  shows "\<exists>w. hydrate load ids next = Inr w \<and> ls_wf w \<and> ls_schema w = ls_schema next \<and> ls_head w = ls_head next
    \<and> ls_edge w = ls_edge next \<and> ls_edge_ended w = ls_edge_ended next
    \<and> (\<forall>pid. map_of (ls_live w) pid =
         (if pid \<in> set ids \<and> bhas (ls_live s) pid then map_of (ls_live s) pid else map_of (ls_live next) pid))
    \<and> (\<forall>pid. bhas (ls_seen w) pid \<longleftrightarrow> (pid \<in> set ids \<and> bhas (ls_seen s) pid) \<or> bhas (ls_seen next) pid)"
  using assms(2)
proof (induction ids arbitrary: "next")
  case (Cons i ids)
  let ?live = "case map_of (ls_live s) i of None \<Rightarrow> next | Some p \<Rightarrow> next\<lparr> ls_live := bput i p (ls_live next) \<rparr>"
  let ?next = "if bhas (ls_seen s) i then ?live\<lparr> ls_seen := bput i () (ls_seen ?live) \<rparr> else ?live"
  have "ls_wf ?next" using Cons.prems by (auto simp: ls_wf_def split: option.splits)
  from Cons.IH [OF this] obtain w where w: "hydrate load ids ?next = Inr w" "ls_wf w" "ls_schema w = ls_schema ?next"
    "ls_head w = ls_head ?next" "ls_edge w = ls_edge ?next" "ls_edge_ended w = ls_edge_ended ?next"
    "\<forall>pid. map_of (ls_live w) pid =
       (if pid \<in> set ids \<and> bhas (ls_live s) pid then map_of (ls_live s) pid else map_of (ls_live ?next) pid)"
    "\<forall>pid. bhas (ls_seen w) pid \<longleftrightarrow> (pid \<in> set ids \<and> bhas (ls_seen s) pid) \<or> bhas (ls_seen ?next) pid"
    by blast
  have run: "hydrate load (i # ids) next = Inr w" using w(1) by (simp add: assms(3) Let_def)
  have fields: "ls_schema w = ls_schema next \<and> ls_head w = ls_head next \<and> ls_edge w = ls_edge next
      \<and> ls_edge_ended w = ls_edge_ended next"
    using w(3-6) by (auto split: option.splits if_splits)
  have live: "map_of (ls_live w) pid =
      (if pid \<in> set (i # ids) \<and> bhas (ls_live s) pid then map_of (ls_live s) pid else map_of (ls_live next) pid)" for pid
    using w(7) by (cases "map_of (ls_live s) i") (auto simp: bhas_def bmap_simps)
  have seen: "bhas (ls_seen w) pid \<longleftrightarrow> (pid \<in> set (i # ids) \<and> bhas (ls_seen s) pid) \<or> bhas (ls_seen next) pid" for pid
    using w(8) by (cases "map_of (ls_live s) i") (auto simp: bmap_simps)
  show ?case using run w(2) fields live seen by blast
qed simp


lemma touch_apply:
  assumes "touch_rel K s w" "touches K e"
  shows "(\<exists>s'. spec_apply lc s e h = Inr s') = (\<exists>w'. spec_apply lc w e h = Inr w')"
    and "spec_apply lc s e h = Inr s' \<Longrightarrow> spec_apply lc w e h = Inr w' \<Longrightarrow>
      ls_schema w' = ls_schema s' \<and> ls_head w' = ls_head s' \<and> ls_edge w' = ls_edge s' \<and> ls_edge_ended w' = ls_edge_ended s'
      \<and> (\<forall>pid. map_of (ls_live w') pid = (if pid \<in> K then map_of (ls_live s') pid else None))"
proof -
  have heads: "ls_head w = ls_head s" using assms(1) by (simp add: touch_rel_def)
  have ops: "\<exists>w1. spec_op lc e w = Inr w1 \<and> touch_rel K s1 w1" if "spec_op lc e s = Inr s1" for s1
    using gw.op_sim [OF assms that] .
  have ops': "\<exists>s1. spec_op lc e s = Inr s1 \<and> touch_rel K s1 w1" if "spec_op lc e w = Inr w1" for w1
    using wg.op_sim [OF assms that] .
  show "(\<exists>s'. spec_apply lc s e h = Inr s') = (\<exists>w'. spec_apply lc w e h = Inr w')"
    unfolding spec_apply_Inr heads using ops ops' by blast
  assume "spec_apply lc s e h = Inr s'" "spec_apply lc w e h = Inr w'"
  then show "ls_schema w' = ls_schema s' \<and> ls_head w' = ls_head s' \<and> ls_edge w' = ls_edge s' \<and> ls_edge_ended w' = ls_edge_ended s'
      \<and> (\<forall>pid. map_of (ls_live w') pid = (if pid \<in> K then map_of (ls_live s') pid else None))"
    using ops by (fastforce simp: spec_apply_Inr touch_rel_def)
qed

text \<open>
  C19: garbage collection validates an entry on a working set that holds only the ids the entry
  touches, and it accepts exactly what the full set accepts. On acceptance both have the same head,
  schema and edge points and the same live references for the touched ids; the full set's other parts
  are unchanged, and the working set holds no others.
\<close>

theorem gc_working_set_exact:
  assumes wf: "ls_wf s" and load: "\<And>pid. load pid = Inr (map_of (ls_live s) pid, bhas (ls_seen s) pid)"
    and same: "ls_schema self = ls_schema s" "ls_head self = ls_head s" "ls_edge self = ls_edge s"
      "ls_edge_ended self = ls_edge_ended s"
  shows "case live_apply lc s e sha of
      (Inl _, _) \<Rightarrow> \<not> is_ok (gc_working_set lc self e sha load)
    | (Inr _, s') \<Rightarrow> \<exists>w. gc_working_set lc self e sha load = Inr w
        \<and> ls_schema w = ls_schema s' \<and> ls_head w = ls_head s' \<and> ls_edge w = ls_edge s' \<and> ls_edge_ended w = ls_edge_ended s'
        \<and> (\<forall>pid. map_of (ls_live w) pid = (if pid \<in> set (touched_ids (le_op e)) then map_of (ls_live s') pid else None))
        \<and> (\<forall>pid. pid \<notin> set (touched_ids (le_op e)) \<longrightarrow> map_of (ls_live s') pid = map_of (ls_live s) pid)"
proof -
  let ?K = "set (touched_ids (le_op e))"
  let ?next = "empty_live_set\<lparr> ls_schema := ls_schema self, ls_head := ls_head self, ls_edge := ls_edge self,
      ls_edge_ended := ls_edge_ended self \<rparr>"
  have "ls_wf ?next" by (simp add: ls_wf_def empty_live_set_def)
  from hydrate_ok [OF wf this load, of "touched_ids (le_op e)"] obtain w0 where
    w0: "hydrate load (touched_ids (le_op e)) ?next = Inr w0" "ls_wf w0"
    and fields: "ls_schema w0 = ls_schema ?next" "ls_head w0 = ls_head ?next" "ls_edge w0 = ls_edge ?next"
      "ls_edge_ended w0 = ls_edge_ended ?next"
    and live: "\<forall>pid. map_of (ls_live w0) pid =
      (if pid \<in> ?K \<and> bhas (ls_live s) pid then map_of (ls_live s) pid else map_of (ls_live ?next) pid)"
    and seen: "\<forall>pid. bhas (ls_seen w0) pid \<longleftrightarrow> (pid \<in> ?K \<and> bhas (ls_seen s) pid) \<or> bhas (ls_seen ?next) pid"
    by blast
  have "map_of (ls_live w0) pid = (if pid \<in> ?K then map_of (ls_live s) pid else None)" for pid
    using live by (cases "map_of (ls_live s) pid") (simp_all add: bhas_def empty_live_set_def)
  moreover have "bhas (ls_seen w0) pid \<longleftrightarrow> pid \<in> ?K \<and> bhas (ls_seen s) pid" for pid
    using seen by (simp add: empty_live_set_def)
  ultimately have rel: "touch_rel ?K s w0" using fields by (simp add: touch_rel_def same)
  have gc: "gc_working_set lc self e sha load = spec_apply lc w0 e sha"
    by (simp add: gc_working_set_def w0(1) apply_is_spec [OF w0(2)] split: sum.split)
  show ?thesis
  proof (cases "spec_apply lc s e sha")
    case (Inl err)
    then have "\<not> is_ok (spec_apply lc w0 e sha)" using touch_apply(1) [OF rel, of e lc sha] by (auto simp: is_ok_iff)
    then show ?thesis by (simp add: gc apply_is_spec [OF wf] Inl)
  next
    case (Inr s')
    then obtain w where w: "spec_apply lc w0 e sha = Inr w" using touch_apply(1) [OF rel, of e lc sha] by auto
    have rest: "map_of (ls_live s') pid = map_of (ls_live s) pid" if "pid \<notin> ?K" for pid
    proof -
      have "pid \<notin> added_ids e" "pid \<notin> removed_ids e" using that touched_added_removed by blast+
      then have "map_of (ls_live s') pid = Some q \<longleftrightarrow> map_of (ls_live s) pid = Some q" for q
        unfolding apply_effect(5) [OF wf Inr] by blast
      then show ?thesis by (metis option.exhaust)
    qed
    show ?thesis
      using touch_apply(2) [OF rel order_refl Inr w] rest by (simp add: gc w apply_is_spec [OF wf] Inr)
  qed
qed


section \<open>A stored log\<close>

text \<open>The small log of the live set theory, stored with a checkpoint after its second entry.\<close>

definition demo_cp :: checkpoint where
  "demo_cp = \<lparr> cp_format = CHECKPOINT_FORMAT, cp_tenant_id = ''t'', cp_seq = 1, cp_entry_sha256 = demo_sha [],
     cp_writer_epoch = 1, cp_schema = demo_log_schema,
     cp_live = [demo_ref (demo_pid ''01'') L0, demo_ref (demo_pid ''02'') L0], cp_edge_log = None, cp_edge_ended = None \<rparr>"

definition demo_other :: log_entry where
  "demo_other = (fst (demo_entry 0 0 (Genesis demo_log_schema)))\<lparr> le_writer_epoch := 2 \<rparr>"

definition demo_io :: log_io where
  "demo_io = \<lparr> io_uuid = Some, io_crates = demo_lc, 
     io_entry_canon = (\<lambda>e. Inr (dec (le_seq e) @ (if le_writer_epoch e = 1 then [] else ''x''))),
     io_entry_parse = (\<lambda>b. if b = ''0x'' then Some demo_other
       else map_of (map (\<lambda>(e, _). (dec (le_seq e), e)) demo_log) b),
     io_checkpoint_canon = (\<lambda>_. Inr ''c''),
     io_checkpoint_parse = (\<lambda>b. if b = ''c'' then Some demo_cp else None),
     io_schema_only_parse = (\<lambda>b. if b = ''c'' then Some \<lparr> co_format = CHECKPOINT_FORMAT, co_tenant_id = ''t'',
       co_seq = 1, co_entry_sha256 = demo_sha [], co_writer_epoch = 1, co_schema = demo_log_schema \<rparr> else None) \<rparr>"

definition demo_root :: string where "demo_root = tenant_root ''t'' @ ''/log''"

definition demo_bytes :: "string list" where "demo_bytes = [''0'', ''1'', ''2'', ''3'']"

definition demo_store :: log_store where
  "demo_store = \<lparr> st_get = (\<lambda>key. Inr (if key = log_checkpoint_key demo_root 1 then Some ''c''
       else map_of (map (\<lambda>i. (log_entry_key demo_root i, demo_bytes ! i)) [0 ..< 4]) key)),
     st_list = (\<lambda>_. Inr [log_checkpoint_key demo_root 1]) \<rparr>"

lemma demo_keys_ok: "log_keys_new (io_uuid demo_io) ''t'' = Inr demo_root"
  by (simp add: log_keys_new_def validate_tenant_uuid_def demo_io_def demo_root_def)

lemma serial_read_replay:
  assumes "list_all2 (\<lambda>b (e, h). parse b = Inr e \<and> sha b = h) bs es" "replay lc s es = Inr s'"
  shows "serial_read (live_apply lc) parse sha bs k s = (Inr (k + length bs), s')"
  using assms
  by (induction arbitrary: k s rule: list_all2_induct) (fastforce split: prod.splits sum.splits)+

lemma demo_dec: "dec 0 = ''0''" "dec (Suc 0) = ''1''" "dec 2 = ''2''" "dec 3 = ''3''"
  by code_simp+

lemma demo_parse:
  "list_all2 (\<lambda>b (e, h). parse_entry demo_io ''t'' b = Inr e \<and> io_sha demo_io b = h) demo_bytes demo_log"
  by (simp add: demo_bytes_def demo_log_def demo_entry_def parse_entry_def entry_parse_bytes_def entry_to_bytes_def
      demo_io_def demo_lc_def demo_sha_def demo_dec MAX_LOG_OBJECT_BYTES_def)

lemma demo_read: "read_live demo_io ''t'' demo_bytes empty_live_set = (Inr 4, demo_end)"
  using serial_read_replay [OF demo_parse demo_replay, of 0]
  by (simp add: read_live_def demo_io_def demo_bytes_def)

lemma log_entry_key_inj: "log_entry_key root i = log_entry_key root j \<Longrightarrow> i = j"
  by (auto simp: log_entry_key_def dest: pad0_dec_inj)

lemma map_of_keyed:
  "(\<And>j. f i = f j \<Longrightarrow> i = j) \<Longrightarrow> map_of (map (\<lambda>i. (f i, g i)) [0 ..< n]) (f i) = (if i < n then Some (g i) else None)"
  by (induction n) (auto simp: map_of_append map_add_def less_Suc_eq split: option.splits)

lemma demo_holds: "holds_log demo_store demo_root demo_bytes"
proof -
  have "log_entry_key demo_root i \<noteq> log_checkpoint_key demo_root 1" for i
    by (simp add: log_entry_key_def log_checkpoint_key_def)
  moreover have "map_of (map (\<lambda>i. (log_entry_key demo_root i, demo_bytes ! i)) [0 ..< 4]) (log_entry_key demo_root i)
      = (if i < 4 then Some (demo_bytes ! i) else None)" for i
    by (rule map_of_keyed) (rule log_entry_key_inj)
  ultimately show ?thesis by (simp add: holds_log_def demo_store_def) (simp add: demo_bytes_def)
qed

lemma list_all2_partner: "list_all2 P xs ys \<Longrightarrow> x \<in> set xs \<Longrightarrow> \<exists>y \<in> set ys. P x y"
  by (induction rule: list_all2_induct) auto

lemma demo_entries: "entries_ok demo_io ''t'' demo_bytes"
proof -
  have ids: "list_all (\<lambda>(e, _). list_all (\<lambda>p. part_id_ok (pt_part_id p)) (op_added (le_op e))) demo_log" by code_simp
  have "ids_ok e" if be: "b \<in> set demo_bytes" "parse_entry demo_io ''t'' b = Inr e" for b e
  proof -
    obtain h where "(e, h) \<in> set demo_log" using list_all2_partner [OF demo_parse be(1)] be(2) by auto
    then show ?thesis using ids unfolding list_all_iff ids_ok_def by blast
  qed
  then show ?thesis by (simp add: entries_ok_def)
qed

definition demo_mid :: live_set where
  "demo_mid = (case replay demo_lc empty_live_set (take 2 demo_log) of Inr ls \<Rightarrow> ls | Inl _ \<Rightarrow> empty_live_set)"

lemma demo_read_mid: "read_live demo_io ''t'' (take 2 demo_bytes) empty_live_set = (Inr 2, demo_mid)"
proof -
  have "is_ok (replay demo_lc empty_live_set (take 2 demo_log))" by code_simp
  then have "replay demo_lc empty_live_set (take 2 demo_log) = Inr demo_mid" by (auto simp: demo_mid_def is_ok_iff)
  from serial_read_replay [OF list_all2_takeI [OF demo_parse] this, of 0] show ?thesis
    by (simp add: read_live_def demo_io_def demo_bytes_def)
qed

lemma demo_taken: "checkpoints_taken demo_io demo_store ''t'' demo_bytes [log_checkpoint_key demo_root 1]"
proof -
  have "live_checkpoint demo_mid ''t'' = Inr demo_cp" by code_simp
  moreover have "cp = demo_cp" if "checkpoint_parse_bytes (io_checkpoint_parse demo_io) ''c'' ''t'' = Inr cp" for cp
    using that by (auto simp: checkpoint_parse_bytes_def demo_io_def res_simps)
  moreover have "2 \<le> length demo_bytes" by (simp add: demo_bytes_def)
  ultimately show ?thesis using demo_read_mid by (auto simp: checkpoints_taken_def demo_store_def)
qed

lemma demo_list: "st_list demo_store (checkpoints_prefix demo_root) = Inr [log_checkpoint_key demo_root 1]"
  by (simp add: demo_store_def)

theorem load_log_correct_witness:
  "\<exists>r. load_log demo_io demo_store ''t'' = Some (Inr r) \<and> ls_live r = ls_live demo_end \<and> ls_schema r = ls_schema demo_end
    \<and> ls_head r = ls_head demo_end \<and> ls_edge r = ls_edge demo_end \<and> ls_edge_ended r = ls_edge_ended demo_end"
  by (rule load_log_correct [OF demo_keys_ok demo_list demo_holds demo_taken demo_entries demo_read])



theorem catch_up_is_serial_witness:
  "catch_up demo_io demo_store ''t'' empty_live_set = Some (Inr 4, demo_end)"
proof -
  have seq: "expected_seq (ls_head empty_live_set) = 0" by (simp add: expected_seq_def empty_live_set_def)
  show ?thesis
    using catch_up_is_serial [OF demo_keys_ok demo_holds ls_wf_empty] demo_read unfolding seq by simp
qed

theorem gc_working_set_exact_witness:
  "\<not> is_ok (gc_working_set demo_lc demo_genesis demo_double_add (demo_sha [])
     (\<lambda>pid. Inr (map_of (ls_live demo_genesis) pid, bhas (ls_seen demo_genesis) pid)))"
proof -
  have "\<not> is_ok (fst (live_apply demo_lc demo_genesis demo_double_add (demo_sha [])))" by code_simp
  then obtain e where "fst (live_apply demo_lc demo_genesis demo_double_add (demo_sha [])) = Inl e"
    by (cases "fst (live_apply demo_lc demo_genesis demo_double_add (demo_sha []))") auto
  then obtain s' where run: "live_apply demo_lc demo_genesis demo_double_add (demo_sha []) = (Inl e, s')"
    by (metis prod.collapse)
  show ?thesis
    using gc_working_set_exact [OF demo_genesis_wf refl refl refl refl refl, of demo_lc demo_double_add "demo_sha []"]
    unfolding run by simp
qed

end
