(* ===== verification/Object_Store.thy ===== *)
theory Object_Store
  imports Part_Log
begin

text \<open>
  The storage seam of the part model (\<open>parts/part_log.rs\<close>: trait \<open>ObjectStore\<close>) and its directory-backed
  implementation \<open>LocalObjectStore\<close> over an abstract file system: a map from relative path to bytes.
  The locale \<open>object_store\<close> holds what the log writer relies on: a conditional create that reports
  success has stored those bytes, and no operation the writer uses replaces an object.
\<close>

section \<open>Write hints\<close>

datatype writer_class = LakePart | LakePartLog

record write_hints =
  wh_class :: writer_class
  wh_event_hour :: int
  wh_min_time_ms :: int
  wh_max_time_ms :: int

type_synonym 'w put_fn = "string \<Rightarrow> string \<Rightarrow> write_hints \<Rightarrow> 'w \<Rightarrow> bool res \<times> 'w"
type_synonym 'w get_fn = "string \<Rightarrow> 'w \<Rightarrow> string option res \<times> 'w"

section \<open>The contract\<close>

locale object_store =
  fixes put :: "'w put_fn" and get :: "'w get_fn" and objs :: "'w \<Rightarrow> string \<Rightarrow> string option"
  assumes put_created: "put key bytes hints w = (Inr True, w') \<Longrightarrow> objs w' key = Some bytes"
    and put_keeps: "put key bytes hints w = (r, w') \<Longrightarrow> objs w k = Some v \<Longrightarrow> objs w' k = Some v"
    and get_found: "get key w = (Inr found, w') \<Longrightarrow> objs w' key = found"
    and get_keeps: "get key w = (x, w') \<Longrightarrow> objs w k = Some v \<Longrightarrow> objs w' k = Some v"
begin

lemma get_stored: "get key w = (Inr found, w') \<Longrightarrow> objs w key = Some v \<Longrightarrow> found = Some v"
  using get_found get_keeps by fastforce

end

section \<open>The local store\<close>

type_synonym local_store = "(string, string) bmap"

definition local_path :: "string \<Rightarrow> string res" where
  "local_path key =
     (if key = [] \<or> starts_with key ''/'' \<or> list_ex (\<lambda>s. s = [] \<or> s = ''.'' \<or> s = ''..'') (split_on CHR ''/'' key)
      then Inl (Bail ''object key is invalid'')
      else Inr key)"

definition local_get :: "local_store get_fn" where
  "local_get key w = (bind_res (local_path key) (\<lambda>path. Inr (map_of w path)), w)"

definition local_object_size :: "string \<Rightarrow> local_store \<Rightarrow> nat option res" where
  "local_object_size key w = bind_res (local_path key) (\<lambda>path. Inr (map_option length (map_of w path)))"

text \<open>\<open>hard_link\<close> of a fully written temporary file fails when the path exists.\<close>

definition local_put_if_absent :: "string \<Rightarrow> string \<Rightarrow> local_store \<Rightarrow> bool res \<times> local_store" where
  "local_put_if_absent key bytes w =
     (case local_path key of
        Inl e \<Rightarrow> (Inl e, w)
      | Inr path \<Rightarrow> if bhas w path then (Inr False, w) else (Inr True, bput path bytes w))"

definition put_file_if_absent_with ::
  "(string \<Rightarrow> string) \<Rightarrow> 'w put_fn \<Rightarrow> string \<Rightarrow> string \<Rightarrow> string \<Rightarrow> nat \<Rightarrow> write_hints \<Rightarrow> 'w \<Rightarrow> bool res \<times> 'w" where
  "put_file_if_absent_with sha put key body sha256_hex bytes hints w =
     (if length body \<noteq> bytes \<or> sha body \<noteq> sha256_hex then (Inl (Bail ''local file changed before upload''), w)
      else put key body hints w)"

definition local_put_if_absent_with :: "local_store put_fn" where
  "local_put_if_absent_with key bytes hints w = local_put_if_absent key bytes w"

text \<open>Uploading a local file whose digest and length are known; \<open>body\<close> is its content, and the source
  file is linked under the key.\<close>

definition local_put_file_if_absent_with ::
  "(string \<Rightarrow> string) \<Rightarrow> string \<Rightarrow> string \<Rightarrow> string \<Rightarrow> nat \<Rightarrow> local_store \<Rightarrow> bool res \<times> local_store" where
  "local_put_file_if_absent_with sha key body sha256_hex bytes w =
     (if length body \<noteq> bytes \<or> sha body \<noteq> sha256_hex then (Inl (Bail ''local file changed before upload''), w)
      else case local_path key of
        Inl e \<Rightarrow> (Inl e, w)
      | Inr path \<Rightarrow> if bhas w path then (Inr False, w) else (Inr True, bput path body w))"

definition local_put :: "string \<Rightarrow> string \<Rightarrow> local_store \<Rightarrow> unit res \<times> local_store" where
  "local_put key bytes w =
     (case local_path key of Inl e \<Rightarrow> (Inl e, w) | Inr path \<Rightarrow> (Inr (), bput path bytes w))"

definition local_delete :: "string \<Rightarrow> local_store \<Rightarrow> unit res \<times> local_store" where
  "local_delete key w =
     (case local_path key of Inl e \<Rightarrow> (Inl e, w) | Inr path \<Rightarrow> (Inr (), bdel path w))"

definition local_get_range :: "string \<Rightarrow> nat \<Rightarrow> nat \<Rightarrow> local_store \<Rightarrow> string option res" where
  "local_get_range key start stop w =
     bind_res (local_path key) (\<lambda>path.
       case map_of w path of
         None \<Rightarrow> Inr None
       | Some body \<Rightarrow>
           bind_res (ok_or (checked_sub_u64 stop start) ''invalid object range'') (\<lambda>bytes.
           bind_res (ensure (bytes \<le> MAX_OBJECT_BYTES) ''object range exceeds size cap'') (\<lambda>_.
           bind_res (ensure (stop \<le> length body) ''object range exceeds file'') (\<lambda>_.
             Inr (Some (take bytes (drop start body)))))))"

definition is_temp_name :: "string \<Rightarrow> bool" where
  "is_temp_name key \<longleftrightarrow> starts_with (last (split_on CHR ''/'' key)) ''.tmp-''"

definition local_list :: "string \<Rightarrow> local_store \<Rightarrow> string list" where
  "local_list prefix w = sort (filter (\<lambda>key. starts_with key prefix \<and> \<not> is_temp_name key) (map fst w))"

definition list_page :: "string list \<Rightarrow> string option \<Rightarrow> nat \<Rightarrow> string list" where
  "list_page keys start_after limit =
     take limit (sort (filter (\<lambda>key. case start_after of None \<Rightarrow> True | Some after \<Rightarrow> after < key) keys))"

interpretation ls: object_store local_put_if_absent_with local_get map_of
proof
  fix key bytes k v :: string and hints :: write_hints and w w' :: local_store and r :: "bool res"
  show "local_put_if_absent_with key bytes hints w = (Inr True, w') \<Longrightarrow> map_of w' key = Some bytes"
    by (auto simp: local_put_if_absent_with_def local_put_if_absent_def local_path_def bmap_simps split: if_splits sum.splits)
  show "local_put_if_absent_with key bytes hints w = (r, w') \<Longrightarrow> map_of w k = Some v \<Longrightarrow> map_of w' k = Some v"
    by (auto simp: local_put_if_absent_with_def local_put_if_absent_def bmap_simps bhas_def split: if_splits sum.splits)
next
  show "local_get key w = (Inr found, w') \<Longrightarrow> map_of w' key = found" for key w found w'
    by (auto simp: local_get_def local_path_def res_simps split: if_splits)
  show "local_get key w = (r, w') \<Longrightarrow> map_of w k = Some v \<Longrightarrow> map_of w' k = Some v" for key w r w' k v
    by (simp add: local_get_def)
qed

text \<open>Both uploads of a file agree on the local store.\<close>

lemma local_put_file_default:
  "local_put_file_if_absent_with sha key body digest bytes w =
   put_file_if_absent_with sha local_put_if_absent_with key body digest bytes hints w"
  by (simp add: local_put_file_if_absent_with_def put_file_if_absent_with_def local_put_if_absent_with_def
      local_put_if_absent_def)

end
