(* ===== verification/Log_Writer.thy ===== *)
theory Log_Writer
  imports Log_Reader Object_Store
begin

text \<open>
  The single appender of a tenant's log (\<open>parts/part_log.rs\<close>: \<open>PartLogWriter\<close>). Every operation threads
  the writer and the world behind the object store; what the world does between calls is up to the
  store functions, which may land a write and still report an error. Errors carry one cause.
\<close>

section \<open>The writer\<close>

record log_writer =
  lw_tenant :: string
  lw_root :: string
  lw_epoch :: nat
  lw_set :: live_set
  lw_key_held_total :: nat
  lw_receipted :: "(nat \<times> int) list option"
  lw_pending :: "log_entry option"

definition log_hints :: "int \<Rightarrow> write_hints" where
  "log_hints now_ms =
     \<lparr> wh_class = LakePartLog, wh_event_hour = event_hour_of (sat_mul_i64 now_ms 1000),
       wh_min_time_ms = now_ms, wh_max_time_ms = now_ms \<rparr>"

definition new_entry :: "log_writer \<Rightarrow> nat \<Rightarrow> string \<Rightarrow> log_op \<Rightarrow> int \<Rightarrow> log_entry" where
  "new_entry self seq prev_sha256 op now_ms =
     \<lparr> le_format = LOG_FORMAT, le_tenant_id = lw_tenant self, le_seq = seq, le_prev_sha256 = prev_sha256,
       le_writer_epoch = lw_epoch self, le_appended_at_ms = now_ms, le_op = op \<rparr>"

text \<open>Validation against a scratch copy before anything is committed.\<close>

definition validate_next :: "log_crates \<Rightarrow> live_set \<Rightarrow> log_entry \<Rightarrow> string \<Rightarrow> live_set res" where
  "validate_next lc live entry sha =
     bind_res (check_consumes lc live (le_op entry)) (\<lambda>_.
       case live_apply lc live entry sha of (Inl e, _) \<Rightarrow> Inl e | (Inr _, next) \<Rightarrow> Inr next)"

definition record_receipt :: "nat \<Rightarrow> int \<Rightarrow> log_writer \<Rightarrow> log_writer" where
  "record_receipt seq at self = self\<lparr> lw_receipted := map_option (\<lambda>l. l @ [(seq, at)]) (lw_receipted self) \<rparr>"

definition write_checkpoint :: "log_io \<Rightarrow> 'w put_fn \<Rightarrow> int \<Rightarrow> log_writer \<Rightarrow> 'w \<Rightarrow> unit res \<times> 'w" where
  "write_checkpoint io put now_ms self w =
     (case bind_res (live_checkpoint (lw_set self) (lw_tenant self)) (\<lambda>cp.
           bind_res (checkpoint_to_bytes (io_checkpoint_canon io) cp) (\<lambda>bytes. Inr (cp_seq cp, bytes))) of
        Inl e \<Rightarrow> (Inl e, w)
      | Inr (seq, None) \<Rightarrow> (Inr (), w)
      | Inr (seq, Some bytes) \<Rightarrow>
          (case put (log_checkpoint_key (lw_root self) seq) bytes ((log_hints now_ms)\<lparr> wh_class := LakePart \<rparr>) w of
             (Inl e, w') \<Rightarrow> (Inl e, w')
           | (Inr _, w') \<Rightarrow> (Inr (), w')))"

type_synonym 'w step_result = "(nat \<times> string) res \<times> log_writer \<times> 'w"

definition committed ::
  "log_io \<Rightarrow> 'w put_fn \<Rightarrow> nat \<Rightarrow> live_set \<Rightarrow> string \<Rightarrow> int \<Rightarrow> log_writer \<Rightarrow> 'w \<Rightarrow> 'w step_result" where
  "committed io put seq next sha now_ms self w =
     (let self = self\<lparr> lw_set := next \<rparr>;
          w = (if 0 < seq \<and> seq mod CHECKPOINT_EVERY = 0 then snd (write_checkpoint io put now_ms self w) else w) in
      (Inr (seq, sha), self, w))"

definition is_own_entry :: "log_entry \<Rightarrow> log_entry \<Rightarrow> bool" where
  "is_own_entry existing entry \<longleftrightarrow> le_seq existing = le_seq entry \<and> le_writer_epoch existing = le_writer_epoch entry
     \<and> le_prev_sha256 existing = le_prev_sha256 entry \<and> le_op existing = le_op entry"

definition adopt ::
  "log_io \<Rightarrow> 'w put_fn \<Rightarrow> log_entry \<Rightarrow> string \<Rightarrow> int \<Rightarrow> log_writer \<Rightarrow> 'w \<Rightarrow> 'w step_result" where
  "adopt io put entry bytes now_ms self w =
     (let seq = le_seq entry; sha = io_sha io bytes in
      case validate_next (io_crates io) (lw_set self) entry sha of
        Inl e \<Rightarrow> (Inl e, self, w)
      | Inr next \<Rightarrow>
          (case put (log_entry_key (lw_root self) seq) bytes (log_hints (le_appended_at_ms entry)) w of
             (Inr True, w') \<Rightarrow> committed io put seq next sha now_ms (record_receipt seq (le_appended_at_ms entry) self) w'
           | (_, w') \<Rightarrow> committed io put seq next sha now_ms self w'))"

definition adopt_or_fence ::
  "log_io \<Rightarrow> 'w put_fn \<Rightarrow> log_entry \<Rightarrow> string \<Rightarrow> int \<Rightarrow> log_writer \<Rightarrow> 'w \<Rightarrow> 'w step_result" where
  "adopt_or_fence io put entry existing now_ms self w =
     (case parse_entry io (lw_tenant self) existing of
        Inr decoded \<Rightarrow>
          if is_own_entry decoded entry then adopt io put decoded existing now_ms self w
          else (Inl (Fenced (le_seq entry)), self, w)
      | Inl _ \<Rightarrow> (Inl (Fenced (le_seq entry)), self, w))"

definition settle_pending ::
  "log_io \<Rightarrow> 'w put_fn \<Rightarrow> 'w get_fn \<Rightarrow> log_entry \<Rightarrow> int \<Rightarrow> log_writer \<Rightarrow> 'w \<Rightarrow> bool res \<times> log_writer \<times> 'w" where
  "settle_pending io put get pending now_ms self w =
     (case get (log_entry_key (lw_root self) (le_seq pending)) w of
        (Inl e, w') \<Rightarrow> (Inl e, self\<lparr> lw_pending := Some pending \<rparr>, w')
      | (Inr None, w') \<Rightarrow> (Inr False, self, w')
      | (Inr (Some existing), w') \<Rightarrow>
          (case adopt_or_fence io put pending existing now_ms self w' of
             (Inl e, self', w'') \<Rightarrow> (Inl e, self', w'')
           | (Inr _, self', w'') \<Rightarrow> (Inr True, self', w'')))"

text \<open>The key already holds an object: this very entry, or one to adopt or to be fenced by.\<close>

definition taken ::
  "log_io \<Rightarrow> 'w put_fn \<Rightarrow> log_entry \<Rightarrow> string \<Rightarrow> live_set \<Rightarrow> string \<Rightarrow> int \<Rightarrow> log_writer \<Rightarrow> 'w \<Rightarrow> 'w step_result" where
  "taken io put entry bytes next existing now_ms self w =
     (if existing = bytes then committed io put (le_seq entry) next (io_sha io bytes) now_ms self w
      else adopt_or_fence io put entry existing now_ms self w)"

definition create ::
  "log_io \<Rightarrow> 'w put_fn \<Rightarrow> 'w get_fn \<Rightarrow> unit res \<Rightarrow> log_entry \<Rightarrow> int \<Rightarrow> log_writer \<Rightarrow> 'w \<Rightarrow> 'w step_result" where
  "create io put get gate entry now_ms self w =
     (case bind_res (entry_to_bytes (io_entry_canon io) entry) (\<lambda>bytes.
           bind_res (validate_next (io_crates io) (lw_set self) entry (io_sha io bytes)) (\<lambda>next.
           bind_res gate (\<lambda>_. Inr (bytes, next)))) of
        Inl e \<Rightarrow> (Inl e, self, w)
      | Inr (bytes, next) \<Rightarrow>
          (let seq = le_seq entry; key = log_entry_key (lw_root self) seq; sha = io_sha io bytes;
               clear = self\<lparr> lw_pending := None \<rparr>; self = self\<lparr> lw_pending := Some entry \<rparr> in
           case put key bytes (log_hints (le_appended_at_ms entry)) w of
             (Inr True, w) \<Rightarrow> committed io put seq next sha now_ms (record_receipt seq (le_appended_at_ms entry) clear) w
           | (Inr False, w) \<Rightarrow>
               (case get key w of
                  (Inl e, w) \<Rightarrow> (Inl e, self, w)
                | (Inr None, w) \<Rightarrow> (Inl (Bail ''conflicting entry vanished''), self, w)
                | (Inr (Some existing), w) \<Rightarrow> taken io put entry bytes next existing now_ms clear w)
           | (Inl (OwnerConflict _), w) \<Rightarrow>
               (case get key w of
                  (Inr (Some existing), w) \<Rightarrow> taken io put entry bytes next existing now_ms clear w
                | (_, w) \<Rightarrow> (Inl (Fenced seq), clear, w))
           | (Inl (LogKeyHeld k), w) \<Rightarrow>
               (let held = sat_add_u64 (lw_key_held_total self) 1 in
                case get key w of
                  (Inr (Some existing), w) \<Rightarrow>
                    taken io put entry bytes next existing now_ms (clear\<lparr> lw_key_held_total := held \<rparr>) w
                | (_, w) \<Rightarrow> (Inl (LogKeyHeld k), self\<lparr> lw_key_held_total := held \<rparr>, w))
           | (Inl NativePutUnresolved, w) \<Rightarrow> (Inl NativePutUnresolved, clear, w)
           | (Inl e, w) \<Rightarrow> (Inl e, self, w)))"

lemma committed_pending: "committed io put seq next sha now self w = (r, self', w') \<Longrightarrow> lw_pending self' = lw_pending self"
  by (auto simp: committed_def Let_def)

lemma adopt_or_fence_pending:
  "adopt_or_fence io put entry existing now self w = (r, self', w') \<Longrightarrow> lw_pending self' = lw_pending self"
  by (auto simp: adopt_or_fence_def adopt_def Let_def record_receipt_def dest!: committed_pending
      split: sum.splits if_splits prod.splits bool.splits)

lemma settle_pending_cleared:
  "settle_pending io put get pending now self w = (Inr b, self', w') \<Longrightarrow> lw_pending self' = lw_pending self"
  by (auto simp: settle_pending_def dest: adopt_or_fence_pending split: sum.splits prod.splits option.splits)

text \<open>The pending entry of this slot, if any.\<close>

definition slot_pending :: "log_writer \<Rightarrow> log_entry option" where
  "slot_pending self =
     (case lw_pending self of
        Some p \<Rightarrow>
          if le_seq p = expected_seq (ls_head (lw_set self)) \<and> le_prev_sha256 p = expected_prev (ls_head (lw_set self))
          then Some p else None
      | None \<Rightarrow> None)"

text \<open>The loop of \<open>append\<close>: it goes round again only after settling a pending entry, which clears it.\<close>

function log_append ::
  "log_io \<Rightarrow> 'w put_fn \<Rightarrow> 'w get_fn \<Rightarrow> unit res \<Rightarrow> log_op \<Rightarrow> int \<Rightarrow> log_writer \<Rightarrow> 'w \<Rightarrow> 'w step_result" where
  "log_append io put get gate op now_ms self w =
     (let seq = expected_seq (ls_head (lw_set self)); prev = expected_prev (ls_head (lw_set self));
          clear = self\<lparr> lw_pending := None \<rparr> in
      case slot_pending self of
        None \<Rightarrow> create io put get gate (new_entry clear seq prev op now_ms) now_ms clear w
      | Some pending \<Rightarrow>
          if le_op pending = op then create io put get gate pending now_ms clear w
          else
            (case settle_pending io put get pending now_ms clear w of
               (Inl e, self', w') \<Rightarrow> (Inl e, self', w')
             | (Inr True, self', w') \<Rightarrow> log_append io put get gate op now_ms self' w'
             | (Inr False, self', w') \<Rightarrow>
                 create io put get gate (new_entry self' seq prev op now_ms) now_ms self' w'))"
  by pat_completeness auto
termination
proof (relation "measure (\<lambda>(_, _, _, _, _, _, self, _). if lw_pending self = None then 0 else 1)", goal_cases)
  case (2 io put get gate op now_ms self w seq prev clear pending r n b self' w')
  then have "settle_pending io put get pending now_ms clear w = (Inr True, self', w')" by simp
  then have "lw_pending self' = None" using settle_pending_cleared 2(3) by fastforce
  moreover have "lw_pending self \<noteq> None" using 2(4) by (auto simp: slot_pending_def split: option.splits)
  ultimately show ?case by simp
qed simp

declare log_append.simps [simp del]

text \<open>Opening a log and re-reading it; \<open>snap\<close> is what a read of the store sees, \<open>initial\<close> the schema a new
  log starts with.\<close>

definition writer_open ::
  "log_io \<Rightarrow> ('w \<Rightarrow> log_store) \<Rightarrow> 'w put_fn \<Rightarrow> 'w get_fn \<Rightarrow> string \<Rightarrow> nat \<Rightarrow> log_schema res \<Rightarrow> int \<Rightarrow> 'w
   \<Rightarrow> (log_writer res \<times> 'w) option" where
  "writer_open io snap put get tenant_id writer_epoch initial now_ms w =
     (case load_log io (snap w) tenant_id of
        None \<Rightarrow> None
      | Some (Inl e) \<Rightarrow> Some (Inl e, w)
      | Some (Inr live) \<Rightarrow> Some
          (if writer_epoch < min_epoch (ls_head live) then (Inl (Bail ''writer epoch is older than the log's''), w)
           else
             (case log_keys_new (io_uuid io) tenant_id of
                Inl e \<Rightarrow> (Inl e, w)
              | Inr root \<Rightarrow>
                  (let writer = \<lparr> lw_tenant = tenant_id, lw_root = root, lw_epoch = writer_epoch, lw_set = live,
                     lw_key_held_total = 0, lw_receipted = None, lw_pending = None \<rparr> in
                   if ls_head live \<noteq> None then (Inr writer, w)
                   else
                     (case initial of
                        Inl e \<Rightarrow> (Inl e, w)
                      | Inr schema \<Rightarrow>
                          (case log_append io put get (Inr ()) (Genesis schema) now_ms writer w of
                             (Inl e, _, w') \<Rightarrow> (Inl e, w')
                           | (Inr _, writer', w') \<Rightarrow> (Inr writer', w')))))))"

definition reload :: "log_io \<Rightarrow> log_store \<Rightarrow> log_writer \<Rightarrow> (unit res \<times> log_writer) option" where
  "reload io store self =
     (let self = self\<lparr> lw_pending := None \<rparr> in
      case load_log io store (lw_tenant self) of
        None \<Rightarrow> None
      | Some (Inl e) \<Rightarrow> Some (Inl e, self)
      | Some (Inr live) \<Rightarrow> Some (Inr (), self\<lparr> lw_set := live \<rparr>))"

section \<open>What the writer guarantees\<close>

text \<open>serde reads back what the canonical writer wrote.\<close>

definition entry_roundtrip :: "log_io \<Rightarrow> bool" where
  "entry_roundtrip io \<longleftrightarrow> (\<forall>e bytes. io_entry_canon io e = Inr bytes \<longrightarrow> io_entry_parse io bytes = Some e)"

definition own_format :: "log_writer \<Rightarrow> log_entry \<Rightarrow> bool" where
  "own_format self e \<longleftrightarrow> le_format e = LOG_FORMAT \<and> le_tenant_id e = lw_tenant self \<and> le_writer_epoch e = lw_epoch self"

text \<open>Everything in the writer's set beyond the loaded set \<open>r0\<close> is stored, in order: a reader that starts
  from \<open>r0\<close> arrives at the writer's set.\<close>

definition backed :: "log_io \<Rightarrow> ('w \<Rightarrow> string \<Rightarrow> string option) \<Rightarrow> live_set \<Rightarrow> log_writer \<Rightarrow> 'w \<Rightarrow> bool" where
  "backed io objs r0 self w \<longleftrightarrow>
     (\<exists>bs. (\<forall>i < length bs. objs w (log_entry_key (lw_root self) (expected_seq (ls_head r0) + i)) = Some (bs ! i))
        \<and> read_live io (lw_tenant self) bs r0 = (Inr (length bs), lw_set self))"

definition writer_inv :: "log_io \<Rightarrow> ('w \<Rightarrow> string \<Rightarrow> string option) \<Rightarrow> live_set \<Rightarrow> log_writer \<Rightarrow> 'w \<Rightarrow> bool" where
  "writer_inv io objs r0 self w \<longleftrightarrow> ls_wf r0 \<and> backed io objs r0 self w
     \<and> (\<forall>p. lw_pending self = Some p \<longrightarrow> own_format self p)"

definition stored_at :: "log_io \<Rightarrow> ('w \<Rightarrow> string \<Rightarrow> string option) \<Rightarrow> log_writer \<Rightarrow> 'w \<Rightarrow> string \<Rightarrow> log_entry \<Rightarrow> bool" where
  "stored_at io objs self w bytes e \<longleftrightarrow>
     objs w (log_entry_key (lw_root self) (le_seq e)) = Some bytes \<and> parse_entry io (lw_tenant self) bytes = Inr e"

text \<open>One step of the writer for the operation \<open>op\<close>: objects are kept, the invariant holds after it, and a
  committed answer names a stored entry that carries the operation and is the new head.\<close>

definition step_ok ::
  "log_io \<Rightarrow> ('w \<Rightarrow> string \<Rightarrow> string option) \<Rightarrow> live_set \<Rightarrow> log_op \<Rightarrow> log_writer \<Rightarrow> 'w \<Rightarrow> 'w step_result \<Rightarrow> bool" where
  "step_ok io objs r0 op self w res \<longleftrightarrow> (case res of (r, self', w') \<Rightarrow>
     lw_root self' = lw_root self \<and> lw_tenant self' = lw_tenant self \<and> lw_epoch self' = lw_epoch self
     \<and> writer_inv io objs r0 self' w' \<and> (\<forall>k v. objs w k = Some v \<longrightarrow> objs w' k = Some v)
     \<and> (\<forall>seq sha. r = Inr (seq, sha) \<longrightarrow>
          (\<exists>bytes e. stored_at io objs self' w' bytes e \<and> sha = io_sha io bytes \<and> le_seq e = seq \<and> le_op e = op
             \<and> le_writer_epoch e = lw_epoch self \<and> ls_head (lw_set self') = Some (seq, sha, lw_epoch self))))"

lemma parse_to_bytes:
  assumes "entry_roundtrip io" "entry_to_bytes (io_entry_canon io) e = Inr bytes" "own_format self e"
  shows "parse_entry io (lw_tenant self) bytes = Inr e"
  using assms
  by (auto simp: entry_roundtrip_def entry_to_bytes_def parse_entry_def entry_parse_bytes_def own_format_def res_simps)

lemma backed_wf: "writer_inv io objs r0 self w \<Longrightarrow> ls_wf (lw_set self)"
  using lv.serial_read_good by (fastforce simp: writer_inv_def backed_def read_live_def)

lemma validate_next_Inr:
  assumes "validate_next lc live e sha = Inr next"
  shows "live_apply lc live e sha = (Inr (), next)"
  using assms by (auto simp: validate_next_def res_simps split: sum.splits prod.splits)

lemma writer_inv_fields:
  "writer_inv io objs r0 (self\<lparr> lw_key_held_total := n \<rparr>) w = writer_inv io objs r0 self w"
  "writer_inv io objs r0 (record_receipt seq at self) w = writer_inv io objs r0 self w"
  "writer_inv io objs r0 self w \<Longrightarrow> writer_inv io objs r0 (self\<lparr> lw_pending := None \<rparr>) w"
  "writer_inv io objs r0 self w \<Longrightarrow> own_format self p \<Longrightarrow> writer_inv io objs r0 (self\<lparr> lw_pending := Some p \<rparr>) w"
  by (auto simp: writer_inv_def backed_def record_receipt_def own_format_def)

lemma writer_inv_keeps:
  assumes "writer_inv io objs r0 self w" "\<And>k v. objs w k = Some v \<Longrightarrow> objs w' k = Some v"
  shows "writer_inv io objs r0 self w'"
proof -
  obtain bs where bs: "\<forall>i < length bs. objs w (log_entry_key (lw_root self) (expected_seq (ls_head r0) + i)) = Some (bs ! i)"
    "read_live io (lw_tenant self) bs r0 = (Inr (length bs), lw_set self)"
    using assms(1) by (auto simp: writer_inv_def backed_def)
  then have "backed io objs r0 self w'" unfolding backed_def using assms(2) by blast
  then show ?thesis using assms(1) by (simp add: writer_inv_def)
qed

lemma writer_inv_extend:
  assumes inv: "writer_inv io objs r0 self w" and st: "stored_at io objs self w bytes e"
    and nx: "validate_next (io_crates io) (lw_set self) e (io_sha io bytes) = Inr next"
  shows "writer_inv io objs r0 (self\<lparr> lw_set := next \<rparr>) w"
    and "ls_head next = Some (le_seq e, io_sha io bytes, le_writer_epoch e)"
proof -
  obtain bs where bs: "\<forall>i < length bs. objs w (log_entry_key (lw_root self) (expected_seq (ls_head r0) + i)) = Some (bs ! i)"
    "read_live io (lw_tenant self) bs r0 = (Inr (length bs), lw_set self)" and r0: "ls_wf r0"
    using inv by (auto simp: writer_inv_def backed_def)
  note ap = validate_next_Inr [OF nx]
  note ok = lv.apply_ok [OF backed_wf [OF inv] ap]
  have "expected_seq (ls_head (lw_set self)) = expected_seq (ls_head r0) + length bs"
    using lv.serial_read_head(1) [OF bs(2) [unfolded read_live_def] r0] .
  then have seq: "le_seq e = expected_seq (ls_head r0) + length bs" using ok by simp
  have "read_live io (lw_tenant self) (bs @ [bytes]) r0 = (Inr (length (bs @ [bytes])), next)"
    using bs(2) st ap by (simp add: read_live_def serial_read_append stored_at_def)
  moreover have "\<forall>i < length (bs @ [bytes]). objs w (log_entry_key (lw_root self) (expected_seq (ls_head r0) + i)) = Some ((bs @ [bytes]) ! i)"
    using bs(1) st seq by (auto simp: nth_append less_Suc_eq stored_at_def)
  ultimately have "backed io objs r0 (self\<lparr> lw_set := next \<rparr>) w" unfolding backed_def
    by (intro exI [of _ "bs @ [bytes]"]) simp
  then show "writer_inv io objs r0 (self\<lparr> lw_set := next \<rparr>) w"
    using inv by (auto simp: writer_inv_def own_format_def)
  show "ls_head next = Some (le_seq e, io_sha io bytes, le_writer_epoch e)" using ok by simp
qed

lemma step_ok_err:
  assumes "writer_inv io objs r0 self' w'" "\<And>k v. objs w k = Some v \<Longrightarrow> objs w' k = Some v"
    and "lw_root self' = lw_root self" "lw_tenant self' = lw_tenant self" "lw_epoch self' = lw_epoch self"
  shows "step_ok io objs r0 op self w (Inl err, self', w')"
  using assms by (simp add: step_ok_def)

lemma step_ok_from:
  assumes "step_ok io objs r0 op self1 w1 res" "\<And>k v. objs w k = Some v \<Longrightarrow> objs w1 k = Some v"
    and "lw_root self1 = lw_root self" "lw_tenant self1 = lw_tenant self" "lw_epoch self1 = lw_epoch self"
  shows "step_ok io objs r0 op self w res"
  using assms by (auto simp: step_ok_def split: prod.splits)

context object_store
begin

lemma write_checkpoint_keeps:
  "objs w k = Some v \<Longrightarrow> objs (snd (write_checkpoint io put now self w)) k = Some v"
  using put_keeps unfolding write_checkpoint_def
  by (auto split: sum.splits prod.splits option.splits)

lemma committed_ok:
  assumes inv: "writer_inv io objs r0 self w" and st: "stored_at io objs self w bytes e"
    and nx: "validate_next (io_crates io) (lw_set self) e (io_sha io bytes) = Inr next"
    and e: "le_op e = op" "le_writer_epoch e = lw_epoch self"
  shows "step_ok io objs r0 op self w (committed io put (le_seq e) next (io_sha io bytes) now self w)"
proof -
  let ?self = "self\<lparr> lw_set := next \<rparr>"
  let ?w = "if 0 < le_seq e \<and> le_seq e mod CHECKPOINT_EVERY = 0 then snd (write_checkpoint io put now ?self w) else w"
  have keeps: "objs ?w k = Some v" if "objs w k = Some v" for k v
    using that write_checkpoint_keeps [of w k v] by simp
  have "writer_inv io objs r0 ?self ?w" using writer_inv_keeps [OF writer_inv_extend(1) [OF inv st nx] keeps] .
  moreover have "stored_at io objs ?self ?w bytes e" using st keeps by (simp add: stored_at_def)
  moreover have "committed io put (le_seq e) next (io_sha io bytes) now self w = (Inr (le_seq e, io_sha io bytes), ?self, ?w)"
    by (simp add: committed_def Let_def)
  ultimately show ?thesis
    using writer_inv_extend(2) [OF inv st nx] keeps e unfolding step_ok_def
    by (simp only: prod.case) (auto intro!: exI [of _ bytes] exI [of _ e])
qed

lemma adopt_ok:
  assumes inv: "writer_inv io objs r0 self w" and st: "stored_at io objs self w bytes e"
    and e: "le_op e = op" "le_writer_epoch e = lw_epoch self"
  shows "step_ok io objs r0 op self w (adopt io put e bytes now self w)"
proof (cases "validate_next (io_crates io) (lw_set self) e (io_sha io bytes)")
  case (Inl err)
  then show ?thesis using inv by (simp add: adopt_def Let_def step_ok_err)
next
  case (Inr after)
  obtain r w1 where p: "put (log_entry_key (lw_root self) (le_seq e)) bytes (log_hints (le_appended_at_ms e)) w = (r, w1)"
    by (metis surj_pair)
  have keeps: "objs w1 k = Some v" if "objs w k = Some v" for k v using put_keeps [OF p that] .
  have go: "step_ok io objs r0 op self w (committed io put (le_seq e) after (io_sha io bytes) now self1 w1)"
    if "self1 = self \<or> self1 = record_receipt (le_seq e) (le_appended_at_ms e) self" for self1
  proof (rule step_ok_from [OF committed_ok keeps])
    show "writer_inv io objs r0 self1 w1" using that writer_inv_keeps [OF inv keeps] by (auto simp: writer_inv_fields)
    show "stored_at io objs self1 w1 bytes e" using that st keeps by (auto simp: stored_at_def record_receipt_def)
  qed (use that Inr e in \<open>auto simp: record_receipt_def\<close>)
  then show ?thesis using Inr p by (cases r) (auto simp: adopt_def Let_def split: bool.splits)
qed

lemma adopt_or_fence_ok:
  assumes inv: "writer_inv io objs r0 self w"
    and at: "objs w (log_entry_key (lw_root self) (le_seq entry)) = Some existing"
    and entry: "le_op entry = op" "le_writer_epoch entry = lw_epoch self"
  shows "step_ok io objs r0 op self w (adopt_or_fence io put entry existing now self w)"
proof (cases "\<exists>d. parse_entry io (lw_tenant self) existing = Inr d \<and> is_own_entry d entry")
  case True
  then obtain d where d: "parse_entry io (lw_tenant self) existing = Inr d" "is_own_entry d entry" by blast
  have "step_ok io objs r0 op self w (adopt io put d existing now self w)"
    using inv by (rule adopt_ok) (use at entry d in \<open>auto simp: stored_at_def is_own_entry_def\<close>)
  then show ?thesis using d by (simp add: adopt_or_fence_def)
next
  case False
  then have "adopt_or_fence io put entry existing now self w = (Inl (Fenced (le_seq entry)), self, w)"
    by (auto simp: adopt_or_fence_def split: sum.splits)
  then show ?thesis using inv by (simp add: step_ok_err)
qed

lemma taken_ok:
  assumes inv: "writer_inv io objs r0 self w"
    and at: "objs w (log_entry_key (lw_root self) (le_seq entry)) = Some existing"
    and entry: "le_op entry = op" "le_writer_epoch entry = lw_epoch self"
    and bytes: "parse_entry io (lw_tenant self) bytes = Inr entry"
    and nx: "validate_next (io_crates io) (lw_set self) entry (io_sha io bytes) = Inr next"
  shows "step_ok io objs r0 op self w (taken io put entry bytes next existing now self w)"
proof (cases "existing = bytes")
  case True
  then have "stored_at io objs self w bytes entry" using at bytes by (simp add: stored_at_def)
  then show ?thesis using committed_ok [OF inv _ nx entry] True by (simp add: taken_def)
next
  case False
  then show ?thesis using adopt_or_fence_ok [OF inv at entry] by (simp add: taken_def)
qed

lemma create_ok:
  assumes rt: "entry_roundtrip io" and inv: "writer_inv io objs r0 self w" and own: "own_format self entry"
    and op: "le_op entry = op"
  shows "step_ok io objs r0 op self w (create io put get gate entry now self w)"
proof (cases "bind_res (entry_to_bytes (io_entry_canon io) entry) (\<lambda>bytes.
    bind_res (validate_next (io_crates io) (lw_set self) entry (io_sha io bytes)) (\<lambda>next. bind_res gate (\<lambda>_. Inr (bytes, next))))")
  case (Inl err)
  then show ?thesis using inv by (simp add: create_def step_ok_err)
next
  case (Inr bn)
  obtain bytes after where bn: "bn = (bytes, after)" by (cases bn)
  have to: "entry_to_bytes (io_entry_canon io) entry = Inr bytes"
    and nx: "validate_next (io_crates io) (lw_set self) entry (io_sha io bytes) = Inr after"
    using Inr bn by (auto simp: res_simps)
  note parse = parse_to_bytes [OF rt to own]
  have ep: "le_writer_epoch entry = lw_epoch self" using own by (simp add: own_format_def)
  let ?key = "log_entry_key (lw_root self) (le_seq entry)"
  let ?clear = "self\<lparr> lw_pending := None \<rparr>" and ?pend = "self\<lparr> lw_pending := Some entry \<rparr>"
  obtain r w1 where p: "put ?key bytes (log_hints (le_appended_at_ms entry)) w = (r, w1)" by (metis surj_pair)
  obtain g w2 where g: "get ?key w1 = (g, w2)" by (metis surj_pair)
  have k1: "objs w1 k = Some v" if "objs w k = Some v" for k v using put_keeps [OF p that] .
  have k2: "objs w2 k = Some v" if "objs w k = Some v" for k v using get_keeps [OF g k1 [OF that]] .
  have inv1: "writer_inv io objs r0 ?clear w1" "writer_inv io objs r0 ?pend w1"
    using writer_inv_fields(3,4) [OF writer_inv_keeps [OF inv k1]] own by simp_all
  have inv2: "writer_inv io objs r0 ?clear w2" "writer_inv io objs r0 ?pend w2"
    using writer_inv_fields(3,4) [OF writer_inv_keeps [OF inv k2]] own by simp_all
  have tk: "step_ok io objs r0 op self w (taken io put entry bytes after existing now (?clear\<lparr> lw_key_held_total := n \<rparr>) w2)"
    if f: "g = Inr (Some existing)" for existing n
  proof (rule step_ok_from [OF taken_ok k2])
    show "writer_inv io objs r0 (?clear\<lparr> lw_key_held_total := n \<rparr>) w2" using inv2(1) by (simp only: writer_inv_fields(1))
    show "objs w2 (log_entry_key (lw_root (?clear\<lparr> lw_key_held_total := n \<rparr>)) (le_seq entry)) = Some existing"
      using get_found [OF g [unfolded f]] by simp
  qed (use op ep parse nx in simp_all)
  have tk': "step_ok io objs r0 op self w (taken io put entry bytes after existing now ?clear w2)"
    if "g = Inr (Some existing)" for existing
    using tk [OF that, of "lw_key_held_total self"] by simp
  have cm: "step_ok io objs r0 op self w
      (committed io put (le_seq entry) after (io_sha io bytes) now (record_receipt (le_seq entry) (le_appended_at_ms entry) ?clear) w1)"
    if t: "r = Inr True"
  proof (rule step_ok_from [OF committed_ok k1])
    show "writer_inv io objs r0 (record_receipt (le_seq entry) (le_appended_at_ms entry) ?clear) w1"
      using inv1(1) by (simp only: writer_inv_fields(2))
    show "stored_at io objs (record_receipt (le_seq entry) (le_appended_at_ms entry) ?clear) w1 bytes entry"
      using put_created [OF p [unfolded t]] parse by (simp add: stored_at_def record_receipt_def)
  qed (use nx op ep in \<open>simp_all add: record_receipt_def\<close>)
  have er: "step_ok io objs r0 op self w (Inl err, ?clear, w1)" "step_ok io objs r0 op self w (Inl err, ?pend, w1)"
    "step_ok io objs r0 op self w (Inl err, ?clear, w2)" "step_ok io objs r0 op self w (Inl err, ?pend, w2)"
    "step_ok io objs r0 op self w (Inl err, ?pend\<lparr> lw_key_held_total := n \<rparr>, w2)" for err n
    using inv1 inv2 k1 k2 by (auto intro!: step_ok_err simp: writer_inv_fields(1))
  consider "r = Inr True" | "r = Inr False" | err where "r = Inl err" by (cases r) auto
  then show ?thesis
  proof cases
    case 1
    then show ?thesis using cm by (simp add: create_def Inr bn Let_def p)
  next
    case 2
    then show ?thesis using tk' er(4) by (cases g) (auto simp: create_def Inr bn Let_def p g split: option.split)
  next
    case (3 err)
    then show ?thesis
      using tk tk' er by (cases err; cases g) (auto simp: create_def Inr bn Let_def p g split: option.split)
  qed
qed

lemma settle_pending_ok:
  assumes inv: "writer_inv io objs r0 self w" and own: "own_format self pending"
    and run: "settle_pending io put get pending now self w = (b, self', w')"
  shows "writer_inv io objs r0 self' w' \<and> (\<forall>k v. objs w k = Some v \<longrightarrow> objs w' k = Some v)
    \<and> lw_root self' = lw_root self \<and> lw_tenant self' = lw_tenant self \<and> lw_epoch self' = lw_epoch self"
proof -
  let ?key = "log_entry_key (lw_root self) (le_seq pending)"
  obtain g w1 where g: "get ?key w = (g, w1)" by (metis surj_pair)
  have k1: "objs w1 k = Some v" if "objs w k = Some v" for k v using get_keeps [OF g that] .
  have inv1: "writer_inv io objs r0 self w1" "writer_inv io objs r0 (self\<lparr> lw_pending := Some pending \<rparr>) w1"
    using writer_inv_keeps [OF inv k1] writer_inv_fields(4) [OF writer_inv_keeps [OF inv k1] own] by blast+
  show ?thesis
  proof (cases "\<exists>existing. g = Inr (Some existing)")
    case True
    then obtain existing where ex: "g = Inr (Some existing)" by blast
    have "step_ok io objs r0 (le_op pending) self w1 (adopt_or_fence io put pending existing now self w1)"
      using inv1(1) get_found [OF g [unfolded ex]] refl own [unfolded own_format_def, THEN conjunct2, THEN conjunct2]
      by (rule adopt_or_fence_ok)
    then show ?thesis
      using run g ex k1 by (auto simp: settle_pending_def step_ok_def split: prod.splits sum.splits)
  next
    case False
    then show ?thesis using run g inv1 k1 by (auto simp: settle_pending_def split: sum.splits option.splits)
  qed
qed

lemma log_append_ok:
  assumes rt: "entry_roundtrip io" and "writer_inv io objs r0 self w"
  shows "step_ok io objs r0 op self w (log_append io put get gate op now self w)"
  using assms(2)
proof (induction "if lw_pending self = None then 0 else 1 :: nat" arbitrary: self w rule: less_induct)
  case less
  let ?seq = "expected_seq (ls_head (lw_set self))" and ?prev = "expected_prev (ls_head (lw_set self))"
  let ?clear = "self\<lparr> lw_pending := None \<rparr>"
  have inv: "writer_inv io objs r0 ?clear w" using less.prems by (rule writer_inv_fields(3))
  have new: "own_format self1 (new_entry self1 seq prev op now)" for self1 seq prev
    by (simp add: own_format_def new_entry_def)
  have created: "step_ok io objs r0 op self w (create io put get gate entry now self1 w1)"
    if "writer_inv io objs r0 self1 w1" "own_format self1 entry" "le_op entry = op"
      "\<And>k v. objs w k = Some v \<Longrightarrow> objs w1 k = Some v"
      "lw_root self1 = lw_root self" "lw_tenant self1 = lw_tenant self" "lw_epoch self1 = lw_epoch self" for entry self1 w1
    by (rule step_ok_from [OF create_ok [OF rt that(1-3)] that(4-7)])
  show ?case
  proof (cases "slot_pending self")
    case None
    then show ?thesis
      using created [OF inv new] by (simp add: log_append.simps [of _ _ _ _ _ _ self] Let_def new_entry_def)
  next
    case (Some pending)
    then have pend: "lw_pending self = Some pending" by (auto simp: slot_pending_def split: option.splits if_splits)
    then have own: "own_format ?clear pending" using less.prems by (auto simp: writer_inv_def own_format_def)
    show ?thesis
    proof (cases "le_op pending = op")
      case True
      then show ?thesis
        using created [OF inv own True] Some by (simp add: log_append.simps [of _ _ _ _ _ _ self] Let_def)
    next
      case False
      obtain b self1 w1 where settle: "settle_pending io put get pending now ?clear w = (b, self1, w1)" by (metis surj_pair)
      note st = settle_pending_ok [OF inv own settle]
      have eq: "log_append io put get gate op now self w =
          (case b of Inl e \<Rightarrow> (Inl e, self1, w1)
           | Inr True \<Rightarrow> log_append io put get gate op now self1 w1
           | Inr False \<Rightarrow> create io put get gate (new_entry self1 ?seq ?prev op now) now self1 w1)"
        using Some False by (subst log_append.simps) (simp add: Let_def settle split: sum.split bool.split)
      consider e where "b = Inl e" | "b = Inr True" | "b = Inr False" by (cases b) auto
      then show ?thesis
      proof cases
        case (1 e)
        then show ?thesis using eq st by (simp add: step_ok_err)
      next
        case 2
        then have "lw_pending self1 = None" using settle_pending_cleared settle by fastforce
        then have "step_ok io objs r0 op self1 w1 (log_append io put get gate op now self1 w1)"
          using less.hyps [of self1 w1] pend st by simp
        then show ?thesis using eq 2 st by (auto intro!: step_ok_from [of io objs r0 op self1 w1])
      next
        case 3
        have "le_op (new_entry self1 ?seq ?prev op now) = op" by (simp add: new_entry_def)
        from created [OF _ new this] show ?thesis using eq 3 st by simp
      qed
    qed
  qed
qed

lemma taken_answer:
  assumes at: "objs w (log_entry_key (lw_root self) (le_seq entry)) = Some existing"
    and bytes: "entry_to_bytes (io_entry_canon io) entry = Inr bytes"
    and nx: "validate_next (io_crates io) (lw_set self) entry (io_sha io bytes) = Inr next"
    and own: "\<And>d. parse_entry io (lw_tenant self) existing = Inr d \<Longrightarrow> is_own_entry d entry
      \<Longrightarrow> is_ok (validate_next (io_crates io) (lw_set self) d (io_sha io existing))"
    and put: "put (log_entry_key (lw_root self) (le_seq entry)) bytes (log_hints (le_appended_at_ms entry)) w = (r, w1)"
      "r = Inr False \<or> (\<exists>k. r = Inl (OwnerConflict k) \<or> r = Inl (LogKeyHeld k))"
    and get: "get (log_entry_key (lw_root self) (le_seq entry)) w1 = (Inr found, w2)"
  shows "fst (create io put get (Inr ()) entry now self w) =
    (if existing = bytes \<or> (\<exists>d. parse_entry io (lw_tenant self) existing = Inr d \<and> is_own_entry d entry)
     then Inr (le_seq entry, io_sha io existing) else Inl (Fenced (le_seq entry)))"
proof -
  have found: "found = Some existing" using get_stored [OF get put_keeps [OF put(1) at]] .
  have adopted: "fst (adopt_or_fence io put entry existing now self1 w2) =
      (if \<exists>d. parse_entry io (lw_tenant self) existing = Inr d \<and> is_own_entry d entry
       then Inr (le_seq entry, io_sha io existing) else Inl (Fenced (le_seq entry)))"
    if "lw_tenant self1 = lw_tenant self" "lw_set self1 = lw_set self" for self1
    using own that
    by (auto simp: adopt_or_fence_def adopt_def committed_def is_own_entry_def Let_def is_ok_def
        split: sum.splits prod.splits bool.splits)
  have tk: "fst (taken io put entry bytes next existing now self1 w2) =
      (if existing = bytes \<or> (\<exists>d. parse_entry io (lw_tenant self) existing = Inr d \<and> is_own_entry d entry)
       then Inr (le_seq entry, io_sha io existing) else Inl (Fenced (le_seq entry)))"
    if "lw_tenant self1 = lw_tenant self" "lw_set self1 = lw_set self" for self1
    using adopted [OF that] by (simp add: taken_def committed_def Let_def)
  show ?thesis
    using put(2) by (elim disjE exE) (simp_all add: create_def bytes nx Let_def put(1) get found tk)
qed

end

section \<open>Properties\<close>

text \<open>
  C5: appending keeps the writer and the store in step. Whatever the store answers (a write that landed
  although it reported an error included), no object is replaced, and afterwards a reader that starts
  from the set the writer loaded arrives at exactly the writer's set. A committed answer names an entry
  that is in the store under its sequence number, carries the requested operation and the writer's
  epoch, and is the new head.
\<close>

theorem append_durable:
  assumes "object_store put get objs" "entry_roundtrip io" "writer_inv io objs r0 self w"
    and "log_append io put get gate op now self w = (r, self', w')"
  shows "writer_inv io objs r0 self' w' \<and> (\<forall>k v. objs w k = Some v \<longrightarrow> objs w' k = Some v)
    \<and> (\<forall>seq sha. r = Inr (seq, sha) \<longrightarrow>
         (\<exists>bytes e. objs w' (log_entry_key (lw_root self) seq) = Some bytes \<and> parse_entry io (lw_tenant self) bytes = Inr e
            \<and> sha = io_sha io bytes \<and> le_seq e = seq \<and> le_op e = op \<and> le_writer_epoch e = lw_epoch self
            \<and> ls_head (lw_set self') = Some (seq, sha, lw_epoch self)))"
proof -
  have step: "step_ok io objs r0 op self w (r, self', w')"
    using object_store.log_append_ok [OF assms(1-3), of op gate now] assms(4) by simp
  show ?thesis
  proof (intro conjI allI impI)
    fix seq sha
    assume "r = Inr (seq, sha)"
    with step obtain bytes e where "stored_at io objs self' w' bytes e" "sha = io_sha io bytes" "le_seq e = seq"
      "le_op e = op" "le_writer_epoch e = lw_epoch self" "ls_head (lw_set self') = Some (seq, sha, lw_epoch self)"
      unfolding step_ok_def by auto
    moreover have "lw_root self' = lw_root self" "lw_tenant self' = lw_tenant self" using step by (simp_all add: step_ok_def)
    ultimately show "\<exists>bytes e. objs w' (log_entry_key (lw_root self) seq) = Some bytes
        \<and> parse_entry io (lw_tenant self) bytes = Inr e \<and> sha = io_sha io bytes \<and> le_seq e = seq \<and> le_op e = op
        \<and> le_writer_epoch e = lw_epoch self \<and> ls_head (lw_set self') = Some (seq, sha, lw_epoch self)"
      unfolding stored_at_def by (intro exI [of _ bytes] exI [of _ e]) simp
  qed (use step in \<open>auto simp: step_ok_def\<close>)
qed


section \<open>A writer on the local store\<close>

definition demo_first :: "int \<Rightarrow> log_entry" where
  "demo_first at = fst (demo_entry 0 at (Genesis demo_log_schema))"

text \<open>Two attempts of the genesis append, one millisecond apart.\<close>

definition demo_wio :: log_io where
  "demo_wio = demo_io\<lparr> io_entry_canon := (\<lambda>e. if e = demo_first 0 then Inr ''a'' else if e = demo_first 1 then Inr ''b''
       else Inl (Bail ''not canonical'')),
     io_entry_parse := (\<lambda>b. if b = ''a'' then Some (demo_first 0) else if b = ''b'' then Some (demo_first 1) else None) \<rparr>"

definition demo_writer :: log_writer where
  "demo_writer = \<lparr> lw_tenant = ''t'', lw_root = ''r'', lw_epoch = 1, lw_set = empty_live_set, lw_key_held_total = 0,
     lw_receipted = None, lw_pending = None \<rparr>"

lemma demo_writer_inv: "writer_inv demo_wio map_of empty_live_set demo_writer []"
  unfolding writer_inv_def backed_def
  by (auto simp: ls_wf_empty demo_writer_def read_live_def intro!: exI [of _ "[]"])

theorem append_durable_witness:
  "case log_append demo_wio local_put_if_absent_with local_get (Inr ()) (Genesis demo_log_schema) 0 demo_writer [] of
     (r, self', w') \<Rightarrow> writer_inv demo_wio map_of empty_live_set self' w'"
proof -
  have "entry_roundtrip demo_wio" by (auto simp: entry_roundtrip_def demo_wio_def split: if_splits)
  from append_durable [OF ls.object_store_axioms this demo_writer_inv] show ?thesis by (auto split: prod.split)
qed


end
