(* ===== verification/Ledger_File.thy ===== *)
theory Ledger_File
  imports Ordered_Map
begin

text \<open>
  The durable JSON file both attempt ledgers of ingest keep in the work directory
  (\<open>part_ingest/merge_attempts.rs\<close> and \<open>part_ingest/admission_attempts.rs\<close>: \<open>open\<close> and \<open>persist\<close>): written to a
  temporary file, synced, renamed, and the directory synced. serde reads back what it wrote, so the
  file is its decoded content; a write may fail before or after the rename.
\<close>

datatype 'a ledger_file = NoFile | Unreadable | Holds 'a

datatype write_outcome = Synced | NotRenamed error | NotSynced error

definition replace_file :: "write_outcome \<Rightarrow> 'a \<Rightarrow> 'a ledger_file \<Rightarrow> unit res \<times> 'a ledger_file" where
  "replace_file out stored file =
     (case out of
        Synced \<Rightarrow> (Inr (), Holds stored)
      | NotRenamed e \<Rightarrow> (Inl e, file)
      | NotSynced e \<Rightarrow> (Inl e, Holds stored))"

lemma replace_file_ok: "replace_file out stored file = (Inr u, file') \<Longrightarrow> out = Synced \<and> file' = Holds stored"
  by (cases out) (auto simp: replace_file_def)

lemma replace_file_synced [simp]: "replace_file Synced stored file = (Inr (), Holds stored)"
  by (simp add: replace_file_def)

text \<open>Updating one entry of a map, starting from \<open>d\<close> when it is absent (\<open>entry(id).or_default()\<close>).\<close>

definition bentry :: "'v \<Rightarrow> 'k \<Rightarrow> ('k, 'v) bmap \<Rightarrow> 'v" where
  "bentry d k m = (case map_of m k of Some v \<Rightarrow> v | None \<Rightarrow> d)"

lemma bentry_bput [simp]: "bentry d k (bput j v m) = (if k = j then v else bentry d k m)"
  by (simp add: bentry_def bmap_simps)

end
