(* ===== verification/Merge_Attempts.thy ===== *)
theory Merge_Attempts
  imports Ledger_File Merge_Levels
begin

text \<open>
  The durable ledger of merge attempts (\<open>part_ingest/merge_attempts.rs\<close>): a merge that runs out of memory,
  or during which ingest dies, runs smaller the next time, is then split, parked once and finally left
  unmerged. Every operation returns its result, the ledger and the file behind it; \<open>out\<close> is how the write
  of the file goes. The choice of the first shape (\<open>part_ingest/merge.rs\<close>: \<open>initial_shape\<close>) and the planning
  pass that records it (\<open>part_ingest/ingest.rs\<close>: \<open>converge_memory_bound_merges\<close>) take the floating-point
  memory estimate of a merge as a parameter.
\<close>

section \<open>The ledger\<close>

definition MAX_SHIFT :: nat where "MAX_SHIFT = 3"
definition PARK_BASE_MS :: int where "PARK_BASE_MS = 15 * 60000"
definition PARK_MAX_MS :: int where "PARK_MAX_MS = 4 * 3600000"
definition MIN_SPLIT_INPUTS :: nat where "MIN_SPLIT_INPUTS = 2"
definition MAX_MIN_FAILURES :: nat where "MAX_MIN_FAILURES = 2"

record merge_entry =
  me_shift :: nat
  me_failures :: nat
  me_parks :: nat
  me_parked_until_ms :: int
  me_in_flight :: bool
  me_begun_inputs :: nat
  me_max_inputs :: "nat option"
  me_left_unmerged_at_limit :: "nat option"

definition default_merge_entry :: merge_entry where
  "default_merge_entry =
     \<lparr> me_shift = 0, me_failures = 0, me_parks = 0, me_parked_until_ms = 0, me_in_flight = False, me_begun_inputs = 0,
       me_max_inputs = None, me_left_unmerged_at_limit = None \<rparr>"

record merge_stored =
  ms_merges :: "(string, merge_entry) bmap"
  ms_forgive_admission :: bool

definition default_merge_stored :: merge_stored where
  "default_merge_stored = \<lparr> ms_merges = [], ms_forgive_admission = False \<rparr>"

datatype shrunk = Shift nat | Split nat | Parked int | LeftUnmerged

record merge_attempts =
  ma_stored :: merge_stored
  ma_readable :: bool

type_synonym merge_file = "merge_stored ledger_file"

definition merge_id :: "string \<Rightarrow> int \<Rightarrow> string" where
  "merge_id level hour = level @ '':'' @ (if hour < 0 then CHR ''-'' # dec (nat (- hour)) else dec (nat hour))"

definition merge_persist :: "write_outcome \<Rightarrow> merge_attempts \<Rightarrow> merge_file \<Rightarrow> unit res \<times> merge_file" where
  "merge_persist out self file =
     (if ma_readable self then replace_file out (ma_stored self) file
      else (Inl (Bail ''merge attempt ledger unreadable; compaction deferred''), file))"

definition merge_entry_of :: "merge_attempts \<Rightarrow> string \<Rightarrow> merge_entry option" where
  "merge_entry_of self mid = map_of (ms_merges (ma_stored self)) mid"

definition set_merges :: "(string, merge_entry) bmap \<Rightarrow> merge_attempts \<Rightarrow> merge_attempts" where
  "set_merges m self = self\<lparr> ma_stored := (ma_stored self)\<lparr> ms_merges := m \<rparr> \<rparr>"

definition put_entry :: "string \<Rightarrow> merge_entry \<Rightarrow> merge_attempts \<Rightarrow> merge_attempts" where
  "put_entry mid e self = set_merges (bput mid e (ms_merges (ma_stored self))) self"

section \<open>Failures\<close>

text \<open>One failed attempt of a merge, on its entry.\<close>

definition fail_entry :: "int \<Rightarrow> nat option \<Rightarrow> nat option \<Rightarrow> merge_entry \<Rightarrow> shrunk \<times> merge_entry" where
  "fail_entry now_ms given limit e0 =
     (let e = e0\<lparr> me_in_flight := False, me_failures := sat_add_u32 (me_failures e0) 1 \<rparr> in
      if me_shift e < MAX_SHIFT then (Shift (me_shift e + 1), e\<lparr> me_shift := me_shift e + 1 \<rparr>)
      else
        (let inputs = (case given of None \<Rightarrow> me_begun_inputs e | Some n \<Rightarrow> to_u32 n) in
         if MIN_SPLIT_INPUTS < inputs then
           (let chunk = max (inputs div 2) MIN_SPLIT_INPUTS in
            (Split chunk, e\<lparr> me_max_inputs := Some chunk, me_parks := 0, me_parked_until_ms := 0 \<rparr>))
         else
           (let e = e\<lparr> me_parks := sat_add_u32 (me_parks e) 1 \<rparr> in
            if MAX_MIN_FAILURES \<le> me_parks e then
              (LeftUnmerged,
               e\<lparr> me_left_unmerged_at_limit := Some (case limit of Some l \<Rightarrow> l | None \<Rightarrow> 0), me_parked_until_ms := 0 \<rparr>)
            else
              (let backoff = min (sat_mul_i64 PARK_BASE_MS (2 ^ min (me_parks e - 1) 16)) PARK_MAX_MS;
                   until = sat_add_i64 now_ms backoff in
               (Parked until, e\<lparr> me_parked_until_ms := until \<rparr>)))))"

definition apply_failure ::
  "string \<Rightarrow> int \<Rightarrow> nat option \<Rightarrow> nat option \<Rightarrow> merge_attempts \<Rightarrow> shrunk \<times> merge_attempts" where
  "apply_failure mid now_ms given limit self =
     (case fail_entry now_ms given limit (bentry default_merge_entry mid (ms_merges (ma_stored self))) of
        (outcome, e) \<Rightarrow> (outcome, put_entry mid e self))"

definition merge_shrink ::
  "write_outcome \<Rightarrow> string \<Rightarrow> int \<Rightarrow> nat \<Rightarrow> nat option \<Rightarrow> merge_attempts \<Rightarrow> merge_file
   \<Rightarrow> shrunk res \<times> merge_attempts \<times> merge_file" where
  "merge_shrink out mid now_ms inputs limit self file =
     (case apply_failure mid now_ms (Some inputs) limit self of
        (outcome, self') \<Rightarrow>
          (case merge_persist out self' file of
             (Inl e, file') \<Rightarrow> (Inl e, self', file')
           | (Inr _, file') \<Rightarrow> (Inr outcome, self', file')))"

section \<open>Opening the ledger\<close>

definition read_merge_file :: "merge_file \<Rightarrow> merge_stored \<times> bool" where
  "read_merge_file file =
     (case file of
        NoFile \<Rightarrow> (default_merge_stored, True)
      | Unreadable \<Rightarrow> (default_merge_stored, False)
      | Holds stored \<Rightarrow> (stored, True))"

definition merge_open :: "write_outcome \<Rightarrow> int \<Rightarrow> nat option \<Rightarrow> merge_file \<Rightarrow> merge_attempts \<times> merge_file" where
  "merge_open out now_ms limit file =
     (case read_merge_file file of
        (stored, readable) \<Rightarrow>
          (let ledger = \<lparr> ma_stored = stored, ma_readable = readable \<rparr>;
               died = map fst (filter (\<lambda>(_, e). me_in_flight e) (ms_merges stored));
               ledger = fold (\<lambda>mid l. snd (apply_failure mid now_ms None limit l)) died ledger in
           if died = [] then (ledger, file)
           else
             (let ledger = ledger\<lparr> ma_stored := (ma_stored ledger)\<lparr> ms_forgive_admission := True \<rparr> \<rparr> in
              (ledger, snd (merge_persist out ledger file)))))"

definition died_during_merge :: "merge_attempts \<Rightarrow> bool" where
  "died_during_merge self = ms_forgive_admission (ma_stored self)"

definition admission_forgiven ::
  "write_outcome \<Rightarrow> merge_attempts \<Rightarrow> merge_file \<Rightarrow> unit res \<times> merge_attempts \<times> merge_file" where
  "admission_forgiven out self file =
     (let self = self\<lparr> ma_stored := (ma_stored self)\<lparr> ms_forgive_admission := False \<rparr> \<rparr> in
      case merge_persist out self file of (r, file') \<Rightarrow> (r, self, file'))"

section \<open>Queries\<close>

definition merge_shift :: "merge_attempts \<Rightarrow> string \<Rightarrow> nat" where
  "merge_shift self mid = (case merge_entry_of self mid of None \<Rightarrow> 0 | Some e \<Rightarrow> me_shift e)"

definition parked_until :: "merge_attempts \<Rightarrow> string \<Rightarrow> int \<Rightarrow> int option" where
  "parked_until self mid now_ms =
     (case merge_entry_of self mid of
        None \<Rightarrow> None
      | Some e \<Rightarrow> if now_ms < me_parked_until_ms e then Some (me_parked_until_ms e) else None)"

definition max_inputs :: "merge_attempts \<Rightarrow> string \<Rightarrow> nat option" where
  "max_inputs self mid = (case merge_entry_of self mid of None \<Rightarrow> None | Some e \<Rightarrow> me_max_inputs e)"

definition left_unmerged :: "merge_attempts \<Rightarrow> string \<Rightarrow> bool" where
  "left_unmerged self mid \<longleftrightarrow>
     (case merge_entry_of self mid of None \<Rightarrow> False | Some e \<Rightarrow> me_left_unmerged_at_limit e \<noteq> None)"

definition left_unmerged_count :: "merge_attempts \<Rightarrow> nat" where
  "left_unmerged_count self =
     length (filter (\<lambda>(_, e). me_left_unmerged_at_limit e \<noteq> None) (ms_merges (ma_stored self)))"

section \<open>Changing the ledger\<close>

definition limit_grew :: "nat \<Rightarrow> merge_entry \<Rightarrow> bool" where
  "limit_grew limit e \<longleftrightarrow> (case me_left_unmerged_at_limit e of None \<Rightarrow> False | Some at \<Rightarrow> 0 < at \<and> at < limit)"

definition rearm_if_limit_grew ::
  "write_outcome \<Rightarrow> nat option \<Rightarrow> merge_attempts \<Rightarrow> merge_file \<Rightarrow> nat res \<times> merge_attempts \<times> merge_file" where
  "rearm_if_limit_grew out limit self file =
     (case limit of
        None \<Rightarrow> (Inr 0, self, file)
      | Some limit \<Rightarrow>
          (let m = ms_merges (ma_stored self);
               rearmed = length (filter (\<lambda>(_, e). limit_grew limit e) m);
               self = set_merges (bmodify (\<lambda>_ e. if limit_grew limit e
                        then e\<lparr> me_left_unmerged_at_limit := None, me_parks := 0, me_parked_until_ms := 0 \<rparr> else e) m) self in
           if rearmed = 0 then (Inr 0, self, file)
           else
             (case merge_persist out self file of
                (Inl e, file') \<Rightarrow> (Inl e, self, file')
              | (Inr _, file') \<Rightarrow> (Inr rearmed, self, file'))))"

definition keeps_entry :: "int set \<Rightarrow> string \<Rightarrow> merge_entry \<Rightarrow> bool" where
  "keeps_entry live mid e \<longleftrightarrow>
     me_in_flight e \<or>
     (case split_once CHR '':'' mid of
        None \<Rightarrow> True
      | Some (level, hour) \<Rightarrow>
          (case parse_i32 hour of
             None \<Rightarrow> True
           | Some h \<Rightarrow>
               if level = ''d'' then \<exists>x \<in> live. h \<le> x \<and> x \<le> min (h + 23) i32_max else h \<in> live))"

definition retain_live_hours ::
  "write_outcome \<Rightarrow> int set \<Rightarrow> merge_attempts \<Rightarrow> merge_file \<Rightarrow> unit res \<times> merge_attempts \<times> merge_file" where
  "retain_live_hours out live self file =
     (let m = ms_merges (ma_stored self); m' = bretain (keeps_entry live) m; self' = set_merges m' self in
      if length m' = length m then (Inr (), self', file)
      else case merge_persist out self' file of (r, file') \<Rightarrow> (r, self', file'))"

definition plan_at_least ::
  "write_outcome \<Rightarrow> string \<Rightarrow> nat \<Rightarrow> nat option \<Rightarrow> merge_attempts \<Rightarrow> merge_file \<Rightarrow> unit res \<times> merge_attempts \<times> merge_file" where
  "plan_at_least out mid shift cap self file =
     (if \<not> ma_readable self then (Inl (Bail ''merge attempt ledger unreadable; compaction deferred''), self, file)
      else if left_unmerged self mid then (Inl (Bail ''merge left unmerged until memory.max grows''), self, file)
      else
        (let previous = merge_entry_of self mid;
             before = (case previous of Some e \<Rightarrow> e | None \<Rightarrow> default_merge_entry) in
         if previous \<noteq> None \<and> me_in_flight before then (Inr (), self, file)
         else
           (let planned = before\<lparr> me_shift := max (me_shift before) (min shift MAX_SHIFT) \<rparr>;
                planned = (case cap of
                    None \<Rightarrow> planned
                  | Some n \<Rightarrow>
                      (let c = max (to_u32 n) MIN_SPLIT_INPUTS in
                       planned\<lparr> me_max_inputs := Some (case me_max_inputs planned of None \<Rightarrow> c | Some old \<Rightarrow> min old c) \<rparr>)) in
            if planned = before then (Inr (), self, file)
            else
              (case merge_persist out (put_entry mid planned self) file of
                 (Inr _, file') \<Rightarrow> (Inr (), put_entry mid planned self, file')
               | (Inl e, file') \<Rightarrow> (Inl e, self, file')))))"

definition begin_at_least ::
  "write_outcome \<Rightarrow> string \<Rightarrow> nat \<Rightarrow> nat \<Rightarrow> merge_attempts \<Rightarrow> merge_file \<Rightarrow> nat res \<times> merge_attempts \<times> merge_file" where
  "begin_at_least out mid inputs shift self file =
     (if \<not> ma_readable self then (Inl (Bail ''merge attempt ledger unreadable; compaction deferred''), self, file)
      else if left_unmerged self mid then (Inl (Bail ''merge left unmerged until memory.max grows''), self, file)
      else
        (let e = bentry default_merge_entry mid (ms_merges (ma_stored self));
             e = e\<lparr> me_shift := max (me_shift e) (min shift MAX_SHIFT), me_in_flight := True,
                    me_begun_inputs := to_u32 inputs \<rparr>;
             self = put_entry mid e self in
         case merge_persist out self file of
           (Inl err, file') \<Rightarrow> (Inl err, self, file')
         | (Inr _, file') \<Rightarrow> (Inr (me_shift e), self, file')))"

definition merge_begin ::
  "write_outcome \<Rightarrow> string \<Rightarrow> nat \<Rightarrow> merge_attempts \<Rightarrow> merge_file \<Rightarrow> nat res \<times> merge_attempts \<times> merge_file" where
  "merge_begin out mid inputs self file = begin_at_least out mid inputs 0 self file"

definition merge_committed ::
  "write_outcome \<Rightarrow> string \<Rightarrow> merge_attempts \<Rightarrow> merge_file \<Rightarrow> unit res \<times> merge_attempts \<times> merge_file" where
  "merge_committed out mid self file =
     (case merge_entry_of self mid of
        None \<Rightarrow> (Inr (), self, file)
      | Some e \<Rightarrow>
          (let self = (if me_max_inputs e \<noteq> None
                 then put_entry mid (e\<lparr> me_in_flight := False, me_parks := 0, me_parked_until_ms := 0 \<rparr>) self
                 else set_merges (bdel mid (ms_merges (ma_stored self))) self) in
           case merge_persist out self file of (r, file') \<Rightarrow> (r, self, file')))"

definition merge_ended ::
  "write_outcome \<Rightarrow> string \<Rightarrow> merge_attempts \<Rightarrow> merge_file \<Rightarrow> unit res \<times> merge_attempts \<times> merge_file" where
  "merge_ended out mid self file =
     (case merge_entry_of self mid of
        None \<Rightarrow> (Inr (), self, file)
      | Some e \<Rightarrow>
          (let self = (if me_shift e = 0 \<and> me_parks e = 0 \<and> me_failures e = 0
                 then set_merges (bdel mid (ms_merges (ma_stored self))) self
                 else put_entry mid (e\<lparr> me_in_flight := False \<rparr>) self) in
           case merge_persist out self file of (r, file') \<Rightarrow> (r, self, file')))"

section \<open>The first shape of an hour merge\<close>

text \<open>\<open>estimate\<close> is the memory estimate of merging some inputs at a shape step.\<close>

function split_cap :: "(part_ref list \<Rightarrow> nat \<Rightarrow> nat) \<Rightarrow> nat \<Rightarrow> planned_merge \<Rightarrow> nat \<Rightarrow> nat" where
  "split_cap estimate room m cap =
     (if cap \<le> 2 \<or> list_all (\<lambda>c. estimate (pm_inputs c) MAX_SHIFT \<le> room) (split_merge m cap) then cap
      else split_cap estimate room m (max (cap div 2) 2))"
  by pat_completeness auto
termination by (relation "measure (\<lambda>(_, _, _, cap). cap)") auto

declare split_cap.simps [simp del]

definition initial_shape ::
  "(part_ref list \<Rightarrow> nat \<Rightarrow> nat) \<Rightarrow> planned_merge \<Rightarrow> nat option \<Rightarrow> nat \<Rightarrow> nat \<Rightarrow> nat \<times> nat option" where
  "initial_shape estimate m headroom reserved minimum_shift =
     (case headroom of
        None \<Rightarrow> (0, None)
      | Some h \<Rightarrow>
          if pm_output_level m \<noteq> Hour then (0, None)
          else
            (let room = h - reserved in
             case find (\<lambda>shift. estimate (pm_inputs m) shift \<le> room) [min minimum_shift MAX_SHIFT..<Suc MAX_SHIFT] of
               Some shift \<Rightarrow> (shift, None)
             | None \<Rightarrow>
                 (let splittable = length (filter is_unmerged (pm_inputs m)) in
                  if splittable \<le> 2 then (MAX_SHIFT, None)
                  else (MAX_SHIFT, Some (split_cap estimate room m (max (splittable div 2) 2))))))"

definition candidate_merges :: "planned_merge \<Rightarrow> nat option \<Rightarrow> planned_merge list" where
  "candidate_merges m cap = (case cap of None \<Rightarrow> [m] | Some c \<Rightarrow> split_merge m c)"

definition join_choice :: "nat \<times> nat option \<Rightarrow> nat \<times> nat option \<Rightarrow> nat \<times> nat option" where
  "join_choice choice sc =
     (case (choice, sc) of
        ((shift', smaller), (shift, cap)) \<Rightarrow>
          (max shift shift',
           case smaller of None \<Rightarrow> cap | Some c \<Rightarrow> Some (case cap of None \<Rightarrow> c | Some old \<Rightarrow> min old c)))"

definition shape_step ::
  "(planned_merge \<Rightarrow> nat \<Rightarrow> nat \<times> nat option) \<Rightarrow> planned_merge \<Rightarrow> nat \<times> nat option \<Rightarrow> nat \<times> nat option" where
  "shape_step shape m sc =
     fold (\<lambda>candidate sc. join_choice (shape candidate (fst sc)) sc) (candidate_merges m (snd sc)) sc"

text \<open>The planning loop: repeat until the chunks of the chosen cap ask for nothing smaller.\<close>

partial_function (option) shape_loop ::
  "(planned_merge \<Rightarrow> nat \<Rightarrow> nat \<times> nat option) \<Rightarrow> planned_merge \<Rightarrow> nat \<times> nat option \<Rightarrow> (nat \<times> nat option) option" where
  "shape_loop shape m sc =
     (let sc' = shape_step shape m sc in if sc' = sc then Some sc else shape_loop shape m sc')"

declare shape_loop.simps [code]

section \<open>The planning loop ends with chunks that fit\<close>

lemma split_cap_le: "2 \<le> cap \<Longrightarrow> 2 \<le> split_cap estimate room m cap \<and> split_cap estimate room m cap \<le> cap"
proof (induction estimate room m cap rule: split_cap.induct)
  case (1 estimate room m cap)
  show ?case
  proof (cases "cap \<le> 2 \<or> list_all (\<lambda>c. estimate (pm_inputs c) MAX_SHIFT \<le> room) (split_merge m cap)")
    case True
    then show ?thesis using "1.prems" by (simp add: split_cap.simps)
  next
    case False
    have "split_cap estimate room m cap = split_cap estimate room m (max (cap div 2) 2)"
      by (subst split_cap.simps) (use False in simp)
    then show ?thesis using "1.IH" [OF False] False by simp linarith
  qed
qed

lemma find_upt_Some: "find P [i..<j] = Some k \<Longrightarrow> i \<le> k \<and> k < j \<and> P k"
  by (auto simp: find_Some_iff)

lemma initial_shape_cases:
  assumes "initial_shape estimate c (Some h) reserved s = (s', k)" "pm_output_level c = Hour" "s \<le> MAX_SHIFT"
  shows "s \<le> s'" "s' \<le> MAX_SHIFT"
    and "k = None \<Longrightarrow> estimate (pm_inputs c) s' \<le> h - reserved
      \<or> (s' = MAX_SHIFT \<and> length (filter is_unmerged (pm_inputs c)) \<le> 2)"
    and "k = Some q \<Longrightarrow> s' = MAX_SHIFT \<and> 2 < length (filter is_unmerged (pm_inputs c))
      \<and> q < length (filter is_unmerged (pm_inputs c))"
proof -
  let ?f = "find (\<lambda>shift. estimate (pm_inputs c) shift \<le> h - reserved) [min s MAX_SHIFT..<Suc MAX_SHIFT]"
  let ?n = "length (filter is_unmerged (pm_inputs c))"
  have cap: "split_cap estimate (h - reserved) c (max (?n div 2) 2) < ?n" if "2 < ?n"
  proof -
    have "?n div 2 < ?n" using that by (intro div_less_dividend) auto
    then have "max (?n div 2) 2 < ?n" using that by simp
    with split_cap_le [of "max (?n div 2) 2" estimate "h - reserved" c] show ?thesis
      by (meson le_less_trans max.cobounded2)
  qed
  have "s \<le> s' \<and> s' \<le> MAX_SHIFT
    \<and> (k = None \<longrightarrow> estimate (pm_inputs c) s' \<le> h - reserved \<or> s' = MAX_SHIFT \<and> ?n \<le> 2)
    \<and> (\<forall>q. k = Some q \<longrightarrow> s' = MAX_SHIFT \<and> 2 < ?n \<and> q < ?n)"
  proof (cases ?f)
    case None
    then show ?thesis using assms cap by (auto simp: initial_shape_def Let_def split: if_splits)
  next
    case (Some t)
    then show ?thesis using assms find_upt_Some [OF Some] by (auto simp: initial_shape_def Let_def)
  qed
  then show "s \<le> s'" "s' \<le> MAX_SHIFT"
    and "k = None \<Longrightarrow> estimate (pm_inputs c) s' \<le> h - reserved \<or> (s' = MAX_SHIFT \<and> ?n \<le> 2)"
    and "k = Some q \<Longrightarrow> s' = MAX_SHIFT \<and> 2 < ?n \<and> q < ?n" by auto
qed

text \<open>What is still left to give up: shape steps and chunk size; \<open>n\<close> bounds every cap.\<close>

definition shape_room :: "nat \<Rightarrow> nat \<times> nat option \<Rightarrow> nat" where
  "shape_room n sc = (MAX_SHIFT - fst sc) + (case snd sc of None \<Rightarrow> Suc n | Some c \<Rightarrow> c)"

definition shape_ok :: "nat \<Rightarrow> nat \<times> nat option \<Rightarrow> bool" where
  "shape_ok n sc \<longleftrightarrow> fst sc \<le> MAX_SHIFT \<and> (\<forall>c. snd sc = Some c \<longrightarrow> c \<le> n)"

lemma join_choice_room:
  assumes "shape_ok n sc" "fst choice \<le> MAX_SHIFT" "\<And>q. snd choice = Some q \<Longrightarrow> q \<le> n"
  shows "shape_ok n (join_choice choice sc)" "shape_room n (join_choice choice sc) \<le> shape_room n sc"
    and "shape_room n (join_choice choice sc) = shape_room n sc \<Longrightarrow> join_choice choice sc = sc"
  using assms by (cases choice; cases sc;
      auto simp: shape_ok_def shape_room_def join_choice_def min_def max_def split: option.splits if_splits)+

lemma fold_join_room:
  assumes "shape_ok n sc"
    and "\<And>c t. c \<in> set cs \<Longrightarrow> t \<le> MAX_SHIFT \<Longrightarrow> fst (shape c t) \<le> MAX_SHIFT \<and> (\<forall>q. snd (shape c t) = Some q \<longrightarrow> q \<le> n)"
  defines "f \<equiv> \<lambda>c sc. join_choice (shape c (fst sc)) sc"
  shows "shape_ok n (fold f cs sc)" "shape_room n (fold f cs sc) \<le> shape_room n sc"
    and "shape_room n (fold f cs sc) = shape_room n sc \<Longrightarrow> \<forall>c \<in> set cs. join_choice (shape c (fst sc)) sc = sc"
    and "shape_room n (fold f cs sc) = shape_room n sc \<Longrightarrow> fold f cs sc = sc"
proof -
  have "shape_ok n (fold f cs sc) \<and> shape_room n (fold f cs sc) \<le> shape_room n sc
    \<and> (shape_room n (fold f cs sc) = shape_room n sc
       \<longrightarrow> (\<forall>c \<in> set cs. join_choice (shape c (fst sc)) sc = sc) \<and> fold f cs sc = sc)"
    using assms(1,2)
  proof (induction cs arbitrary: sc)
    case (Cons c cs)
    let ?sc = "f c sc"
    have t: "fst sc \<le> MAX_SHIFT" using Cons.prems(1) by (simp add: shape_ok_def)
    note step = join_choice_room [OF Cons.prems(1), of "shape c (fst sc)", folded f_def]
    have sc: "shape_ok n ?sc" "shape_room n ?sc \<le> shape_room n sc" "shape_room n ?sc = shape_room n sc \<Longrightarrow> ?sc = sc"
      using step Cons.prems(2) [OF _ t, of c] by (auto simp: f_def)
    have IH: "shape_ok n (fold f cs ?sc) \<and> shape_room n (fold f cs ?sc) \<le> shape_room n ?sc
      \<and> (shape_room n (fold f cs ?sc) = shape_room n ?sc
         \<longrightarrow> (\<forall>c \<in> set cs. join_choice (shape c (fst ?sc)) ?sc = ?sc) \<and> fold f cs ?sc = ?sc)"
      by (rule Cons.IH [OF sc(1)]) (use Cons.prems(2) in auto)
    show ?case
    proof (cases "shape_room n (fold f cs ?sc) = shape_room n sc")
      case True
      then have "shape_room n ?sc = shape_room n sc" using IH sc(2) by linarith
      then have "?sc = sc" by (rule sc(3))
      then show ?thesis using IH by (auto simp: f_def)
    qed (use IH sc in auto)
  qed simp
  then show "shape_ok n (fold f cs sc)" "shape_room n (fold f cs sc) \<le> shape_room n sc"
    and "shape_room n (fold f cs sc) = shape_room n sc \<Longrightarrow> \<forall>c \<in> set cs. join_choice (shape c (fst sc)) sc = sc"
    and "shape_room n (fold f cs sc) = shape_room n sc \<Longrightarrow> fold f cs sc = sc" by auto
qed

lemma chunks_shorter: "c \<in> set (chunks n xs) \<Longrightarrow> length c \<le> length xs"
proof (induction n xs rule: chunks.induct)
  case (1 n xs)
  then show ?case
    by (cases "n = 0 \<or> xs = []") (auto simp: chunks.simps [of n xs])
qed

lemma candidate_merges_hour:
  assumes "pm_output_level m = Hour" "c \<in> set (candidate_merges m cap)"
  shows "pm_output_level c = Hour" "length (filter is_unmerged (pm_inputs c)) \<le> length (pm_inputs m)"
    and "cap = Some k \<Longrightarrow> length (filter is_unmerged (pm_inputs c)) \<le> max k 2"
proof -
  show "pm_output_level c = Hour" "length (filter is_unmerged (pm_inputs c)) \<le> length (pm_inputs m)"
    using assms
    by (auto simp: candidate_merges_def split_merge_def Let_def split: option.splits
        intro!: order.trans [OF length_filter_le] dest!: chunks_shorter intro: order.trans [OF _ length_filter_le])
  show "cap = Some k \<Longrightarrow> length (filter is_unmerged (pm_inputs c)) \<le> max k 2"
    using assms
    by (auto simp: candidate_merges_def split_merge_def Let_def
        intro!: order.trans [OF length_filter_le] dest!: chunks_length)
qed

lemma hour_shape_bounds:
  assumes "pm_output_level m = Hour" "c \<in> set (candidate_merges m cap)" "t \<le> MAX_SHIFT" "length (pm_inputs m) \<le> n"
  shows "fst (initial_shape estimate c (Some h) reserved t) \<le> MAX_SHIFT
    \<and> (\<forall>q. snd (initial_shape estimate c (Some h) reserved t) = Some q \<longrightarrow> q \<le> n)"
proof -
  obtain s' k where c: "initial_shape estimate c (Some h) reserved t = (s', k)" by fastforce
  note cs = initial_shape_cases [OF c candidate_merges_hour(1) [OF assms(1,2)] assms(3)]
  show ?thesis using cs(2,4) candidate_merges_hour(2) [OF assms(1,2)] assms(4) by (fastforce simp: c)
qed

text \<open>At a fixed point every candidate fits at the chosen shape, or it is as small as merges get.\<close>

lemma shape_fixpoint_fits:
  assumes "pm_output_level m = Hour" "fst sc \<le> MAX_SHIFT" "c \<in> set (candidate_merges m (snd sc))"
    and "join_choice (initial_shape estimate c (Some h) reserved (fst sc)) sc = sc"
  shows "estimate (pm_inputs c) (fst sc) \<le> h - reserved
    \<or> (fst sc = MAX_SHIFT \<and> length (filter is_unmerged (pm_inputs c)) \<le> 2)"
proof -
  obtain s' k where c: "initial_shape estimate c (Some h) reserved (fst sc) = (s', k)" by fastforce
  note cs = initial_shape_cases [OF c candidate_merges_hour(1) [OF assms(1,3)] assms(2)]
  obtain shift cap where sc: "sc = (shift, cap)" by fastforce
  have fp: "join_choice (s', k) (shift, cap) = (shift, cap)" using assms(4) c by (simp add: sc)
  then have "s' = shift" using cs(1) by (simp add: join_choice_def sc max_def split: if_splits)
  moreover have "k = None"
  proof (rule ccontr)
    assume "k \<noteq> None"
    then obtain q where k: "k = Some q" by blast
    from fp obtain old where "cap = Some old" "old \<le> q"
      by (auto simp: join_choice_def k min_def split: option.splits if_splits)
    then show False using cs(4) [OF k] candidate_merges_hour(3) [OF assms(1,3), of old] by (simp add: sc max_def split: if_splits)
  qed
  ultimately show ?thesis using cs(3) by (simp add: sc)
qed

lemma shape_loop_ends:
  assumes "pm_output_level m = Hour" "shape_ok n sc" "length (pm_inputs m) \<le> n"
    and shape_def: "shape = (\<lambda>c. initial_shape estimate c (Some h) reserved)"
  shows "\<exists>sc'. shape_loop shape m sc = Some sc' \<and> fst sc' \<le> MAX_SHIFT
    \<and> (\<forall>c \<in> set (candidate_merges m (snd sc')). join_choice (shape c (fst sc')) sc' = sc')"
  using assms(2)
proof (induction "shape_room n sc" arbitrary: sc rule: less_induct)
  case less
  let ?sc = "shape_step shape m sc"
  note fold = fold_join_room [OF less.prems, of "candidate_merges m (snd sc)" shape,
      folded shape_step_def [of shape m sc]]
  have bounds: "fst (shape c t) \<le> MAX_SHIFT \<and> (\<forall>q. snd (shape c t) = Some q \<longrightarrow> q \<le> n)"
    if "c \<in> set (candidate_merges m (snd sc))" "t \<le> MAX_SHIFT" for c t
    unfolding shape_def by (rule hour_shape_bounds [OF assms(1) that assms(3)])
  note fold = fold [OF bounds]
  show ?case
  proof (cases "shape_room n ?sc = shape_room n sc")
    case True
    then have "?sc = sc" "\<forall>c \<in> set (candidate_merges m (snd sc)). join_choice (shape c (fst sc)) sc = sc"
      using fold(3,4) by auto
    then show ?thesis using less.prems by (subst shape_loop.simps) (simp add: Let_def shape_ok_def)
  next
    case False
    then have "shape_room n ?sc < shape_room n sc" "?sc \<noteq> sc" using fold(2) by auto
    then show ?thesis using less.hyps [of ?sc] fold(1) by (subst shape_loop.simps) (simp add: Let_def)
  qed
qed

section \<open>An hour that keeps failing\<close>

text \<open>Lookups of single entries.\<close>

lemma merges_put_entry [simp]: "ms_merges (ma_stored (put_entry mid e self)) = bput mid e (ms_merges (ma_stored self))"
  and readable_put_entry [simp]: "ma_readable (put_entry mid e self) = ma_readable self"
  by (simp_all add: put_entry_def set_merges_def)

lemma apply_failure_readable [simp]: "ma_readable (snd (apply_failure mid now given limit self)) = ma_readable self"
  by (simp add: apply_failure_def split: prod.split)

lemma apply_failure_merges:
  "ms_merges (ma_stored (snd (apply_failure mid now given limit self))) =
   bput mid (snd (fail_entry now given limit (bentry default_merge_entry mid (ms_merges (ma_stored self)))))
     (ms_merges (ma_stored self))"
  by (simp add: apply_failure_def split: prod.split)

lemma fold_failures:
  assumes "distinct ids"
    and after_def: "after = fold (\<lambda>mid l. snd (apply_failure mid now None limit l)) ids self"
  shows "ma_readable after = ma_readable self"
    and "bwf (ms_merges (ma_stored self)) \<Longrightarrow> bwf (ms_merges (ma_stored after))"
    and "map_of (ms_merges (ma_stored after)) mid =
      (if mid \<in> set ids then Some (snd (fail_entry now None limit (bentry default_merge_entry mid (ms_merges (ma_stored self)))))
       else map_of (ms_merges (ma_stored self)) mid)"
proof -
  have "ma_readable after = ma_readable self
    \<and> (bwf (ms_merges (ma_stored self)) \<longrightarrow> bwf (ms_merges (ma_stored after)))
    \<and> map_of (ms_merges (ma_stored after)) mid =
      (if mid \<in> set ids then Some (snd (fail_entry now None limit (bentry default_merge_entry mid (ms_merges (ma_stored self)))))
       else map_of (ms_merges (ma_stored self)) mid)"
    using assms(1) unfolding after_def
    by (induction ids arbitrary: self) (auto simp: apply_failure_merges bmap_simps bwf_bput bentry_def)
  then show "ma_readable after = ma_readable self"
    and "bwf (ms_merges (ma_stored self)) \<Longrightarrow> bwf (ms_merges (ma_stored after))"
    and "map_of (ms_merges (ma_stored after)) mid =
      (if mid \<in> set ids then Some (snd (fail_entry now None limit (bentry default_merge_entry mid (ms_merges (ma_stored self)))))
       else map_of (ms_merges (ma_stored self)) mid)" by auto
qed

text \<open>Reopening after a death: every merge in flight has failed once, nothing else changed.\<close>

lemma merge_open_entry:
  assumes "bwf (ms_merges stored)" "merge_open out now limit (Holds stored) = (self, file)"
  shows "bwf (ms_merges (ma_stored self))" "ma_readable self"
    and "merge_entry_of self mid = map_option (\<lambda>e. if me_in_flight e then snd (fail_entry now None limit e) else e)
      (map_of (ms_merges stored) mid)"
    and "\<exists>e. map_of (ms_merges stored) mid = Some e \<and> me_in_flight e \<Longrightarrow> died_during_merge self"
proof -
  let ?led = "\<lparr> ma_stored = stored, ma_readable = True \<rparr>"
  let ?died = "map fst (filter (\<lambda>(_, e). me_in_flight e) (ms_merges stored))"
  have d: "distinct ?died" using bwf_distinct [OF assms(1)] by (simp add: distinct_map_filter)
  have mem: "mid \<in> set ?died \<longleftrightarrow> (\<exists>e. map_of (ms_merges stored) mid = Some e \<and> me_in_flight e)"
    using bwf_in_map_of [OF assms(1)] by force
  define after where "after = fold (\<lambda>mid l. snd (apply_failure mid now None limit l)) ?died ?led"
  have self: "self = (if ?died = [] then after else after\<lparr> ma_stored := (ma_stored after)\<lparr> ms_forgive_admission := True \<rparr> \<rparr>)"
    using assms(2) by (simp add: merge_open_def read_merge_file_def Let_def after_def split: if_splits)
  then have same: "ms_merges (ma_stored self) = ms_merges (ma_stored after)" "ma_readable self = ma_readable after" by simp_all
  note ff = fold_failures [OF d after_def]
  show "bwf (ms_merges (ma_stored self))" "ma_readable self" using assms(1) ff(1,2) by (simp_all add: same)
  show "merge_entry_of self mid = map_option (\<lambda>e. if me_in_flight e then snd (fail_entry now None limit e) else e)
      (map_of (ms_merges stored) mid)"
    unfolding merge_entry_of_def same ff(3) [of mid] mem by (auto simp: bentry_def split: option.splits)
  show "died_during_merge self" if "\<exists>e. map_of (ms_merges stored) mid = Some e \<and> me_in_flight e"
  proof -
    have "?died \<noteq> []" using that mem by (metis list.set(1) empty_iff)
    then show ?thesis by (subst self) (simp add: died_during_merge_def)
  qed
qed

text \<open>A run of failing attempts of one merge. Each attempt takes at most the inputs the ledger allows, begins
  at some shape floor, and ends by the memory guard or by the death of the process.\<close>

datatype failure_cause = Stopped | Killed

record attempt =
  at_inputs :: nat
  at_shift :: nat
  at_cause :: failure_cause
  at_now_ms :: int

fun failing_run ::
  "string \<Rightarrow> nat option \<Rightarrow> attempt list \<Rightarrow> merge_attempts \<Rightarrow> merge_file \<Rightarrow> (merge_attempts \<times> merge_file) res" where
  "failing_run mid limit [] self file = Inr (self, file)"
| "failing_run mid limit (a # as) self file =
     (if (case max_inputs self mid of None \<Rightarrow> False | Some c \<Rightarrow> c < at_inputs a) then Inl (Bail ''attempt over its cap'')
      else case begin_at_least Synced mid (at_inputs a) (at_shift a) self file of
        (Inl e, _, _) \<Rightarrow> Inl e
      | (Inr _, self, file) \<Rightarrow>
          (case at_cause a of
             Stopped \<Rightarrow>
               (case merge_shrink Synced mid (at_now_ms a) (at_inputs a) limit self file of
                  (Inl e, _, _) \<Rightarrow> Inl e
                | (Inr _, self, file) \<Rightarrow> failing_run mid limit as self file)
           | Killed \<Rightarrow>
               (case merge_open Synced (at_now_ms a) limit file of (self, file) \<Rightarrow> failing_run mid limit as self file)))"

text \<open>The entry an attempt leaves behind, whichever way it ended.\<close>

definition attempt_entry :: "nat option \<Rightarrow> attempt \<Rightarrow> merge_entry \<Rightarrow> merge_entry" where
  "attempt_entry limit a e =
     snd (fail_entry (at_now_ms a) None limit
       (e\<lparr> me_shift := max (me_shift e) (min (at_shift a) MAX_SHIFT), me_in_flight := True,
          me_begun_inputs := to_u32 (at_inputs a) \<rparr>))"

definition entry_now :: "merge_attempts \<Rightarrow> string \<Rightarrow> merge_entry" where
  "entry_now self mid = bentry default_merge_entry mid (ms_merges (ma_stored self))"

definition ledger_ok :: "merge_attempts \<Rightarrow> bool" where
  "ledger_ok self \<longleftrightarrow> ma_readable self \<and> bwf (ms_merges (ma_stored self))"

lemma entry_now_simps:
  "max_inputs self mid = me_max_inputs (entry_now self mid)"
  "left_unmerged self mid \<longleftrightarrow> me_left_unmerged_at_limit (entry_now self mid) \<noteq> None"
  by (simp_all add: max_inputs_def left_unmerged_def entry_now_def bentry_def merge_entry_of_def default_merge_entry_def
      split: option.splits)

lemma fail_entry_given:
  "fail_entry now (Some n) limit (e\<lparr> me_begun_inputs := to_u32 n \<rparr>) =
   fail_entry now None limit (e\<lparr> me_begun_inputs := to_u32 n \<rparr>)"
  by (simp add: fail_entry_def Let_def)

lemma begin_synced:
  assumes "ledger_ok self" "begin_at_least Synced mid n shift self file = (r, self', file')"
  shows "me_left_unmerged_at_limit (entry_now self mid) \<noteq> None \<Longrightarrow> \<exists>e. r = Inl e"
    and "r = Inr s \<Longrightarrow> ledger_ok self' \<and> file' = Holds (ma_stored self')
      \<and> map_of (ms_merges (ma_stored self')) mid = Some ((entry_now self mid)\<lparr>
          me_shift := max (me_shift (entry_now self mid)) (min shift MAX_SHIFT), me_in_flight := True,
          me_begun_inputs := to_u32 n \<rparr>)"
  using assms
  by (auto simp: begin_at_least_def ledger_ok_def entry_now_simps merge_persist_def Let_def bmap_simps bwf_bput
      entry_now_def [symmetric] split: if_splits)

lemma failing_step:
  assumes "ledger_ok self" "failing_run mid limit (a # as) self file = Inr res"
  shows "me_left_unmerged_at_limit (entry_now self mid) = None"
    and "\<And>c. me_max_inputs (entry_now self mid) = Some c \<Longrightarrow> at_inputs a \<le> c"
    and "\<exists>self' file'. ledger_ok self' \<and> entry_now self' mid = attempt_entry limit a (entry_now self mid)
      \<and> failing_run mid limit as self' file' = Inr res"
proof -
  obtain r self1 file1 where b: "begin_at_least Synced mid (at_inputs a) (at_shift a) self file = (r, self1, file1)"
    by (metis surj_pair)
  note bs = begin_synced [OF assms(1) b]
  show "\<And>c. me_max_inputs (entry_now self mid) = Some c \<Longrightarrow> at_inputs a \<le> c"
    using assms(2) by (auto simp: entry_now_simps split: if_splits)
  obtain s where r: "r = Inr s" using assms(2) b by (cases r) (auto split: if_splits)
  then show "me_left_unmerged_at_limit (entry_now self mid) = None"
    using bs(1) by (cases "me_left_unmerged_at_limit (entry_now self mid)") auto
  define e1 where "e1 = (entry_now self mid)\<lparr> me_shift := max (me_shift (entry_now self mid)) (min (at_shift a) MAX_SHIFT),
    me_in_flight := True, me_begun_inputs := to_u32 (at_inputs a) \<rparr>"
  have l1: "ledger_ok self1" "file1 = Holds (ma_stored self1)" "map_of (ms_merges (ma_stored self1)) mid = Some e1"
    using bs(2) [OF r] by (simp_all add: e1_def)
  have e1: "attempt_entry limit a (entry_now self mid) = snd (fail_entry (at_now_ms a) None limit e1)"
    by (simp add: attempt_entry_def e1_def)
  show "\<exists>self' file'. ledger_ok self' \<and> entry_now self' mid = attempt_entry limit a (entry_now self mid)
      \<and> failing_run mid limit as self' file' = Inr res"
  proof (cases "at_cause a")
    case Stopped
    define self2 where "self2 = snd (apply_failure mid (at_now_ms a) (Some (at_inputs a)) limit self1)"
    have "merge_shrink Synced mid (at_now_ms a) (at_inputs a) limit self1 file1 =
        (Inr (fst (apply_failure mid (at_now_ms a) (Some (at_inputs a)) limit self1)), self2, Holds (ma_stored self2))"
      using l1(1) by (auto simp: merge_shrink_def merge_persist_def self2_def ledger_ok_def apply_failure_def
          split: prod.split)
    then have "failing_run mid limit as self2 (Holds (ma_stored self2)) = Inr res"
      using assms(2) b r Stopped by (simp split: if_splits)
    moreover have "ledger_ok self2" using l1(1) by (simp add: ledger_ok_def self2_def apply_failure_merges bwf_bput)
    moreover have "entry_now self2 mid = snd (fail_entry (at_now_ms a) (Some (at_inputs a)) limit e1)"
      using l1(3) by (simp add: entry_now_def self2_def apply_failure_merges bentry_def bmap_simps)
    moreover have "\<dots> = snd (fail_entry (at_now_ms a) None limit e1)"
      unfolding e1_def fail_entry_given ..
    ultimately show ?thesis using e1 by auto
  next
    case Killed
    obtain self2 file2 where o: "merge_open Synced (at_now_ms a) limit file1 = (self2, file2)" by fastforce
    note mo = merge_open_entry [OF _ o [unfolded l1(2)]]
    have "bwf (ms_merges (ma_stored self1))" using l1(1) by (simp add: ledger_ok_def)
    note mo = mo [OF this]
    have "me_in_flight e1" by (simp add: e1_def)
    then have "entry_now self2 mid = snd (fail_entry (at_now_ms a) None limit e1)"
      using mo(3) [of mid] l1(3) by (simp add: entry_now_def bentry_def merge_entry_of_def)
    moreover have "failing_run mid limit as self2 file2 = Inr res"
      using assms(2) b r Killed o by (simp split: if_splits)
    ultimately show ?thesis using mo(1,2) e1 by (auto simp: ledger_ok_def)
  qed
qed

text \<open>The attempts still possible: shape steps, halvings of at most \<open>2 ^ Suc k\<close> inputs, and two failures of
  a minimum chunk; a halving starts the last count again.\<close>

definition attempts_left :: "nat \<Rightarrow> merge_entry \<Rightarrow> nat" where
  "attempts_left k e = (MAX_SHIFT - me_shift e) + 2 * k + (MAX_MIN_FAILURES - me_parks e)"

definition entry_ok :: "nat \<Rightarrow> nat \<Rightarrow> merge_entry \<Rightarrow> bool" where
  "entry_ok bound k e \<longleftrightarrow> me_shift e \<le> MAX_SHIFT \<and> me_parks e < MAX_MIN_FAILURES
     \<and> (bound \<le> 2 ^ Suc k \<or> (\<exists>c. me_max_inputs e = Some c \<and> c \<le> 2 ^ Suc k))"

lemma halved_inputs:
  assumes "2 < (n :: nat)" "n \<le> 2 ^ Suc k"
  shows "\<exists>j. k = Suc j \<and> max (n div 2) 2 \<le> 2 ^ Suc j"
proof (cases k)
  case (Suc j)
  have "n div 2 \<le> 2 ^ Suc j" using assms(2) Suc div_le_mono [of n "2 ^ Suc k" 2] by simp
  then show ?thesis using Suc by simp
qed (use assms in simp)

lemma attempt_entry_decreases:
  assumes ok: "entry_ok bound k e" and left: "me_left_unmerged_at_limit e = None"
    and n: "at_inputs a \<le> bound" "\<And>c. me_max_inputs e = Some c \<Longrightarrow> at_inputs a \<le> c"
    and e'_def: "e' = attempt_entry limit a e"
  shows "me_left_unmerged_at_limit e' \<noteq> None \<or> (\<exists>j. entry_ok bound j e' \<and> attempts_left j e' < attempts_left k e)"
proof -
  have le: "to_u32 (at_inputs a) \<le> 2 ^ Suc k"
    using ok n by (fastforce simp: entry_ok_def to_u32_def u32_max_def)
  let ?s = "max (me_shift e) (min (at_shift a) MAX_SHIFT)"
  have s: "me_shift e \<le> ?s" "?s \<le> MAX_SHIFT" using ok by (auto simp: entry_ok_def)
  consider (shift) "?s < MAX_SHIFT"
    | (split) "?s = MAX_SHIFT" "2 < to_u32 (at_inputs a)"
    | (park) "?s = MAX_SHIFT" "to_u32 (at_inputs a) \<le> 2" using s(2) by linarith
  then show ?thesis
  proof cases
    case shift
    then have "me_shift e' = Suc ?s" "me_parks e' = me_parks e" "me_max_inputs e' = me_max_inputs e"
      by (simp_all add: e'_def attempt_entry_def fail_entry_def Let_def)
    then have "entry_ok bound k e' \<and> attempts_left k e' < attempts_left k e"
      using ok s shift unfolding entry_ok_def attempts_left_def by (auto simp: diff_less_mono2)
    then show ?thesis by blast
  next
    case split
    then obtain j where "k = Suc j" "max (to_u32 (at_inputs a) div 2) 2 \<le> 2 ^ Suc j"
      using halved_inputs le by blast
    moreover have "me_shift e' = MAX_SHIFT" "me_parks e' = 0" "me_max_inputs e' = Some (max (to_u32 (at_inputs a) div 2) 2)"
      using split by (simp_all add: e'_def attempt_entry_def fail_entry_def Let_def MIN_SPLIT_INPUTS_def)
    ultimately have "entry_ok bound j e' \<and> attempts_left j e' < attempts_left k e"
      using ok unfolding entry_ok_def attempts_left_def MAX_MIN_FAILURES_def by auto
    then show ?thesis by blast
  next
    case park
    show ?thesis
    proof (cases "me_parks e = 0")
      case True
      then have "entry_ok bound k e' \<and> attempts_left k e' < attempts_left k e"
        using ok park
        by (simp add: e'_def attempt_entry_def fail_entry_def entry_ok_def attempts_left_def Let_def MIN_SPLIT_INPUTS_def
            MAX_MIN_FAILURES_def sat_add_u32_def u32_max_def)
      then show ?thesis by blast
    next
      case False
      then have "me_left_unmerged_at_limit e' \<noteq> None"
        using ok park
        by (simp add: e'_def attempt_entry_def fail_entry_def entry_ok_def Let_def MIN_SPLIT_INPUTS_def
            MAX_MIN_FAILURES_def sat_add_u32_def u32_max_def)
      then show ?thesis ..
    qed
  qed
qed

lemma failing_run_bound:
  assumes "ledger_ok self" "failing_run mid limit as self fl = Inr res" "\<forall>a \<in> set as. at_inputs a \<le> bound"
    and "me_left_unmerged_at_limit (entry_now self mid) \<noteq> None \<or> entry_ok bound k (entry_now self mid)"
  shows "length as \<le> attempts_left k (entry_now self mid)
    \<or> (me_left_unmerged_at_limit (entry_now self mid) \<noteq> None \<and> as = [])"
  using assms
proof (induction as arbitrary: self fl k)
  case (Cons a as)
  note st = failing_step [OF Cons.prems(1,2)]
  have ok: "entry_ok bound k (entry_now self mid)" using Cons.prems(4) st(1) by simp
  obtain self' file' where next': "ledger_ok self'" "failing_run mid limit as self' file' = Inr res"
    and e': "entry_now self' mid = attempt_entry limit a (entry_now self mid)" using st(3) by blast
  have "at_inputs a \<le> bound" using Cons.prems(3) by simp
  from attempt_entry_decreases [OF ok st(1) this st(2) refl] show ?case
  proof
    assume l: "me_left_unmerged_at_limit (attempt_entry limit a (entry_now self mid)) \<noteq> None"
    have "as = []" using next' l failing_step(1) [OF next'(1)] e' by (cases as) fastforce+
    moreover have "0 < attempts_left k (entry_now self mid)"
      using ok by (simp add: entry_ok_def attempts_left_def)
    ultimately show ?thesis by simp
  next
    assume "\<exists>j. entry_ok bound j (attempt_entry limit a (entry_now self mid))
      \<and> attempts_left j (attempt_entry limit a (entry_now self mid)) < attempts_left k (entry_now self mid)"
    then obtain j where j: "entry_ok bound j (entry_now self' mid)"
      "attempts_left j (entry_now self' mid) < attempts_left k (entry_now self mid)" using e' by auto
    have "length as \<le> attempts_left j (entry_now self' mid)
      \<or> (me_left_unmerged_at_limit (entry_now self' mid) \<noteq> None \<and> as = [])"
      by (rule Cons.IH [OF next']) (use Cons.prems(3) j(1) in auto)
    then show ?thesis using j(2) by auto
  qed
qed simp

section \<open>Properties\<close>


text \<open>
  C16: a process that dies during a merge cannot make the next one start the same merge again: once \<open>begin\<close>
  has recorded the attempt, reopening the ledger shows the death and the merge's entry has a smaller
  shape, or a strictly smaller chunk size than the attempt had, or a wait, or is left unmerged.
\<close>

theorem killed_merge_runs_smaller:
  assumes "ma_readable self" "bwf (ms_merges (ma_stored self))" "inputs \<le> u32_max" "0 \<le> now" "now < i64_max - PARK_MAX_MS"
    and "begin_at_least out mid inputs shift self file = (Inr s, self1, file1)"
    and "merge_open out' now limit file1 = (self2, file2)"
  shows "died_during_merge self2
    \<and> (merge_shift self2 mid = Suc s
       \<or> (\<exists>c. max_inputs self2 mid = Some c \<and> c < inputs)
       \<or> parked_until self2 mid now \<noteq> None \<or> left_unmerged self2 mid)"
proof -
  have out: "out = Synced"
    using assms(1,6) by (cases out) (auto simp: begin_at_least_def merge_persist_def replace_file_def Let_def split: if_splits)
  define e1 where "e1 = (entry_now self mid)\<lparr> me_shift := max (me_shift (entry_now self mid)) (min shift MAX_SHIFT),
    me_in_flight := True, me_begun_inputs := to_u32 inputs \<rparr>"
  have "ledger_ok self" using assms(1,2) by (simp add: ledger_ok_def)
  from begin_synced(2) [OF this assms(6) [unfolded out] refl]
  have l1: "ledger_ok self1" "file1 = Holds (ma_stored self1)" "map_of (ms_merges (ma_stored self1)) mid = Some e1"
    by (simp_all add: e1_def)
  have s: "s = me_shift e1"
    using assms(6) by (auto simp: begin_at_least_def e1_def entry_now_def Let_def split: if_splits sum.splits prod.splits)
  have wf: "bwf (ms_merges (ma_stored self1))" using l1(1) by (simp add: ledger_ok_def)
  note mo = merge_open_entry [OF wf assms(7) [unfolded l1(2)]]
  have "merge_entry_of self2 mid = Some (snd (fail_entry now None limit e1))"
    using mo(3) [of mid] l1(3) by (simp add: e1_def)
  moreover have "died_during_merge self2" by (rule mo(4)) (use l1(3) in \<open>auto simp: e1_def\<close>)
  moreover have "inputs div 2 < inputs" if "2 < inputs" using that by simp
  ultimately show ?thesis
    using assms(3-5) s
    by (auto simp: fail_entry_def Let_def merge_shift_def max_inputs_def parked_until_def left_unmerged_def MIN_SPLIT_INPUTS_def
        to_u32_def e1_def PARK_MAX_MS_def PARK_BASE_MS_def int_simps int_bounds MAX_MIN_FAILURES_def min_def max_def)
qed

text \<open>
  C30: planning an hour merge always ends, and every chunk it leaves to run fits the memory room at the
  chosen shape, or it is a merge of two parts at the smallest shape.
\<close>

theorem planned_chunks_fit:
  assumes "pm_output_level m = Hour" "shift \<le> MAX_SHIFT"
  shows "\<exists>shift' cap'. shape_loop (\<lambda>c. initial_shape estimate c (Some h) reserved) m (shift, cap) = Some (shift', cap')
    \<and> (\<forall>c \<in> set (candidate_merges m cap'). estimate (pm_inputs c) shift' \<le> h - reserved
         \<or> (shift' = MAX_SHIFT \<and> length (filter is_unmerged (pm_inputs c)) \<le> 2))"
proof -
  define n where "n = length (pm_inputs m) + (case cap of None \<Rightarrow> 0 | Some c \<Rightarrow> c)"
  have "shape_ok n (shift, cap)" using assms(2) by (auto simp: shape_ok_def n_def split: option.splits)
  from shape_loop_ends [OF assms(1) this _ refl, of estimate h reserved]
  obtain sc where sc: "shape_loop (\<lambda>c. initial_shape estimate c (Some h) reserved) m (shift, cap) = Some sc"
    "fst sc \<le> MAX_SHIFT"
    "\<forall>c \<in> set (candidate_merges m (snd sc)). join_choice (initial_shape estimate c (Some h) reserved (fst sc)) sc = sc"
    by (auto simp: n_def)
  then show ?thesis
    using shape_fixpoint_fits [OF assms(1) sc(2)] by (intro exI [of _ "fst sc"] exI [of _ "snd sc"]) auto
qed

section \<open>A killed hour\<close>

definition demo_ledger :: merge_attempts where
  "demo_ledger = \<lparr> ma_stored = default_merge_stored, ma_readable = True \<rparr>"

definition demo_attempts :: "attempt list" where
  "demo_attempts = [\<lparr> at_inputs = 4, at_shift = 3, at_cause = Killed, at_now_ms = 0 \<rparr>,
     \<lparr> at_inputs = 2, at_shift = 0, at_cause = Stopped, at_now_ms = 1 \<rparr>]"

lemmas demo_simps = demo_ledger_def demo_attempts_def default_merge_stored_def default_merge_entry_def begin_at_least_def
  merge_open_def read_merge_file_def merge_shrink_def apply_failure_def fail_entry_def merge_persist_def put_entry_def
  set_merges_def left_unmerged_def max_inputs_def merge_entry_of_def bentry_def to_u32_def sat_add_u32_def u32_max_def
  MAX_SHIFT_def MIN_SPLIT_INPUTS_def MAX_MIN_FAILURES_def


theorem killed_merge_runs_smaller_witness:
  "(case begin_at_least Synced ''h:7'' 4 3 demo_ledger NoFile of
      (_, _, file1) \<Rightarrow> (case merge_open Synced 0 None file1 of (self2, _) \<Rightarrow> max_inputs self2 ''h:7'' = Some 2))"
proof -
  obtain self1 file1 where b: "begin_at_least Synced ''h:7'' 4 3 demo_ledger NoFile = (Inr 3, self1, file1)"
    by (simp add: demo_simps Let_def)
  obtain self2 file2 where o: "merge_open Synced 0 None file1 = (self2, file2)" by fastforce
  have "merge_shift self2 ''h:7'' = Suc 3
       \<or> (\<exists>c. max_inputs self2 ''h:7'' = Some c \<and> c < 4)
       \<or> parked_until self2 ''h:7'' 0 \<noteq> None \<or> left_unmerged self2 ''h:7''"
    using killed_merge_runs_smaller [OF _ _ _ _ _ b o] by (simp add: demo_simps int_bounds PARK_MAX_MS_def)
  moreover have "file1 = Holds (ma_stored self1)" "ms_merges (ma_stored self1) = [(''h:7'', default_merge_entry\<lparr> me_shift := 3,
      me_in_flight := True, me_begun_inputs := 4 \<rparr>)]"
    using b by (auto simp: demo_simps Let_def)
  ultimately show ?thesis
    using o by (auto simp: b merge_shift_def parked_until_def demo_simps Let_def)
qed

definition demo_hour :: planned_merge where
  "demo_hour = \<lparr> pm_output_level = Hour, pm_event_hour = 0, pm_inputs = map demo_l0 [''a'', ''b'', ''c'', ''d''] \<rparr>"

lemma demo_hour_plan:
  "shape_loop (\<lambda>c. initial_shape (\<lambda>ps _. 10 * length ps) c (Some 27) 5) demo_hour (0, None) = Some (3, Some 2)
   \<and> length (candidate_merges demo_hour (Some 2)) = 2"
  by code_simp

theorem planned_chunks_fit_witness:
  "\<exists>shift cap. shape_loop (\<lambda>c. initial_shape (\<lambda>ps _. 10 * length ps) c (Some 27) 5) demo_hour (0, None) = Some (shift, cap)
     \<and> (\<forall>c \<in> set (candidate_merges demo_hour cap). 10 * length (pm_inputs c) \<le> 22
          \<or> (shift = MAX_SHIFT \<and> length (filter is_unmerged (pm_inputs c)) \<le> 2))
     \<and> length (candidate_merges demo_hour cap) = 2"
  using planned_chunks_fit [of demo_hour 0 "\<lambda>ps _. 10 * length ps" 27 5 None] demo_hour_plan
  by (auto simp: demo_hour_def)

end
