(* ===== verification/Admission_Attempts.thy ===== *)
theory Admission_Attempts
  imports Ledger_File
begin

text \<open>
  The durable ledger of admissions (\<open>part_ingest/admission_attempts.rs\<close>): every source object is recorded
  before it is admitted, so that a process that died with objects in flight leaves suspects behind. A
  suspect admitted alone is charged; recovery admits suspects in groups that halve with every death.
\<close>

section \<open>The ledger\<close>

definition MAX_ADMISSION_CRASHES :: nat where "MAX_ADMISSION_CRASHES = 3"
definition MAX_ENTRIES :: nat where "MAX_ENTRIES = 4096"

type_synonym id_set = "(string, unit) bmap"

record admission_stored =
  sd_attempts :: "(string, nat) bmap"
  sd_reserve_refused :: id_set
  sd_isolate :: "nat option"
  sd_charged :: id_set

definition default_admission_stored :: admission_stored where
  "default_admission_stored = \<lparr> sd_attempts = [], sd_reserve_refused = [], sd_isolate = None, sd_charged = [] \<rparr>"

record admission_attempts =
  aa_stored :: admission_stored
  aa_suspects :: "(string, nat) bmap"
  aa_isolating :: id_set
  aa_last_charged :: id_set
  aa_group_limit :: nat

type_synonym admission_file = "admission_stored ledger_file"
type_synonym 'a admission_result = "'a res \<times> admission_attempts \<times> admission_file"

definition object_id :: "string \<Rightarrow> string \<Rightarrow> string" where
  "object_id key version = key @ [CHR 0x0A] @ version"

definition admission_persist ::
  "write_outcome \<Rightarrow> 'a \<Rightarrow> admission_attempts \<Rightarrow> admission_file \<Rightarrow> 'a admission_result" where
  "admission_persist out value self file =
     (case replace_file out (aa_stored self) file of
        (Inl e, file') \<Rightarrow> (Inl e, self, file')
      | (Inr _, file') \<Rightarrow> (Inr value, self, file'))"

definition admission_open :: "admission_file \<Rightarrow> admission_attempts" where
  "admission_open file =
     (let stored = (case file of Holds s \<Rightarrow> s | _ \<Rightarrow> default_admission_stored) in
      \<lparr> aa_stored = stored\<lparr> sd_charged := [] \<rparr>, aa_suspects = sd_attempts stored, aa_isolating = [],
        aa_last_charged = sd_charged stored,
        aa_group_limit = max (case sd_isolate stored of
            Some g \<Rightarrow> div_ceil g 2 | None \<Rightarrow> div_ceil (length (sd_attempts stored)) 2) 1 \<rparr>)"

definition suspect :: "admission_attempts \<Rightarrow> string \<Rightarrow> nat option" where
  "suspect self oid = map_of (aa_suspects self) oid"

definition reserve_refused :: "admission_attempts \<Rightarrow> string \<Rightarrow> bool" where
  "reserve_refused self oid = bhas (sd_reserve_refused (aa_stored self)) oid"

definition has_suspects :: "admission_attempts \<Rightarrow> bool" where
  "has_suspects self \<longleftrightarrow> aa_suspects self \<noteq> []"

definition isolating :: "admission_attempts \<Rightarrow> string \<Rightarrow> bool" where
  "isolating self oid = bhas (aa_isolating self) oid"

definition has_isolating :: "admission_attempts \<Rightarrow> bool" where
  "has_isolating self \<longleftrightarrow> aa_isolating self \<noteq> []"

definition admission_is_empty :: "admission_attempts \<Rightarrow> bool" where
  "admission_is_empty self \<longleftrightarrow> sd_attempts (aa_stored self) = []"

section \<open>Operations\<close>

definition set_stored :: "(admission_stored \<Rightarrow> admission_stored) \<Rightarrow> admission_attempts \<Rightarrow> admission_attempts" where
  "set_stored f self = self\<lparr> aa_stored := f (aa_stored self) \<rparr>"

definition mark_reserve_refused ::
  "write_outcome \<Rightarrow> string \<Rightarrow> admission_attempts \<Rightarrow> admission_file \<Rightarrow> unit admission_result" where
  "mark_reserve_refused out oid self file =
     (if bhas (sd_attempts (aa_stored self)) oid \<and> \<not> reserve_refused self oid
      then admission_persist out () (set_stored (\<lambda>s. s\<lparr> sd_reserve_refused := bput oid () (sd_reserve_refused s) \<rparr>) self) file
      else (Inr (), self, file))"

definition clear_recovered :: "admission_attempts \<Rightarrow> bool \<times> admission_attempts" where
  "clear_recovered self =
     (if aa_suspects self = [] \<and> aa_isolating self = [] \<and> sd_isolate (aa_stored self) \<noteq> None
      then (True, set_stored (\<lambda>s. s\<lparr> sd_isolate := None \<rparr>) self)
      else (False, self))"

definition retain_pending ::
  "write_outcome \<Rightarrow> string set \<Rightarrow> admission_attempts \<Rightarrow> admission_file \<Rightarrow> unit admission_result" where
  "retain_pending out pending self file =
     (if sd_attempts (aa_stored self) = [] then (Inr (), self, file)
      else
        (let before = length (sd_attempts (aa_stored self));
             kept = self\<lparr>
               aa_stored := (aa_stored self)\<lparr>
                 sd_attempts := bretain (\<lambda>oid _. oid \<in> pending) (sd_attempts (aa_stored self)),
                 sd_reserve_refused := bretain (\<lambda>oid _. oid \<in> pending) (sd_reserve_refused (aa_stored self)),
                 sd_charged := bretain (\<lambda>oid _. oid \<in> pending) (sd_charged (aa_stored self)) \<rparr>,
               aa_suspects := bretain (\<lambda>oid _. oid \<in> pending) (aa_suspects self),
               aa_isolating := bretain (\<lambda>oid _. oid \<in> pending) (aa_isolating self) \<rparr> in
         case clear_recovered kept of
           (recovered, self') \<Rightarrow>
             if length (sd_attempts (aa_stored self')) \<noteq> before \<or> recovered then admission_persist out () self' file
             else (Inr (), self', file)))"

text \<open>One object of an admission: a suspect becomes isolated, a full ledger drops its oldest entry, and an
  admission alone is counted once per process.\<close>

definition isolate_suspect :: "nat \<Rightarrow> string \<Rightarrow> admission_attempts \<Rightarrow> admission_attempts" where
  "isolate_suspect g oid self =
     (if bhas (aa_suspects self) oid then
        self\<lparr> aa_suspects := bdel oid (aa_suspects self), aa_isolating := bput oid () (aa_isolating self),
          aa_stored := (aa_stored self)\<lparr> sd_isolate := Some (to_u32 (max g 1)) \<rparr> \<rparr>
      else self)"

definition drop_oldest :: "string \<Rightarrow> admission_stored \<Rightarrow> admission_stored" where
  "drop_oldest oid st =
     (if MAX_ENTRIES \<le> length (sd_attempts st) \<and> \<not> bhas (sd_attempts st) oid then
        (case sd_attempts st of
           [] \<Rightarrow> st
         | (oldest, _) # rest \<Rightarrow> st\<lparr> sd_attempts := rest, sd_reserve_refused := bdel oldest (sd_reserve_refused st) \<rparr>)
      else st)"

definition add_charge :: "string \<Rightarrow> nat \<Rightarrow> admission_stored \<Rightarrow> admission_stored" where
  "add_charge oid attempts st =
     st\<lparr> sd_attempts := bput oid ((attempts + 1) mod 2 ^ 32) (sd_attempts st), sd_charged := bput oid () (sd_charged st) \<rparr>"

definition count_admission :: "bool \<Rightarrow> string \<Rightarrow> admission_stored \<Rightarrow> admission_stored" where
  "count_admission alone oid st =
     (let attempts = bentry 0 oid (sd_attempts st) in
      if alone \<and> \<not> bhas (sd_charged st) oid then add_charge oid attempts st
      else st\<lparr> sd_attempts := bput oid attempts (sd_attempts st) \<rparr>)"

definition begin_one :: "bool \<Rightarrow> nat \<Rightarrow> string \<Rightarrow> admission_attempts \<Rightarrow> admission_attempts" where
  "begin_one alone g oid self =
     set_stored (\<lambda>st. count_admission alone oid (drop_oldest oid st)) (isolate_suspect g oid self)"

definition begin_group ::
  "write_outcome \<Rightarrow> string list \<Rightarrow> bool \<Rightarrow> nat \<Rightarrow> admission_attempts \<Rightarrow> admission_file \<Rightarrow> unit admission_result" where
  "begin_group out ids alone g self file =
     admission_persist out () (fold (begin_one alone g) ids self) file"

definition admission_begin ::
  "write_outcome \<Rightarrow> string list \<Rightarrow> bool \<Rightarrow> admission_attempts \<Rightarrow> admission_file \<Rightarrow> unit admission_result" where
  "admission_begin out ids alone self file = begin_group out ids alone (length ids) self file"

definition charge :: "write_outcome \<Rightarrow> string \<Rightarrow> admission_attempts \<Rightarrow> admission_file \<Rightarrow> unit admission_result" where
  "charge out oid self file =
     (if bhas (sd_charged (aa_stored self)) oid then (Inr (), self, file)
      else case map_of (sd_attempts (aa_stored self)) oid of
        None \<Rightarrow> (Inr (), self, file)
      | Some attempts \<Rightarrow>
          admission_persist out () (set_stored (add_charge oid attempts) self) file)"

definition charge_suspect ::
  "write_outcome \<Rightarrow> string \<Rightarrow> admission_attempts \<Rightarrow> admission_file \<Rightarrow> unit admission_result" where
  "charge_suspect out oid self file =
     (if \<not> bhas (aa_suspects self) oid \<or> bhas (sd_charged (aa_stored self)) oid then (Inr (), self, file)
      else admission_persist out () (set_stored (\<lambda>s. add_charge oid (bentry 0 oid (sd_attempts s)) s) self) file)"

text \<open>Taking one charge back; the flag says whether there was one.\<close>

definition uncharge_one :: "string \<Rightarrow> (string, nat) bmap \<Rightarrow> bool \<times> (string, nat) bmap" where
  "uncharge_one oid m =
     (case map_of m oid of
        Some attempts \<Rightarrow> if 0 < attempts then (True, bput oid (attempts - 1) m) else (False, m)
      | None \<Rightarrow> (False, m))"

fun uncharge_all :: "string list \<Rightarrow> (string, nat) bmap \<Rightarrow> nat \<times> (string, nat) bmap" where
  "uncharge_all [] m = (0, m)"
| "uncharge_all (oid # ids) m =
     (case uncharge_one oid m of (one, m') \<Rightarrow>
        case uncharge_all ids m' of (n, m'') \<Rightarrow> ((if one then 1 else 0) + n, m''))"

definition uncharge_this_process :: "write_outcome \<Rightarrow> admission_attempts \<Rightarrow> admission_file \<Rightarrow> nat admission_result" where
  "uncharge_this_process out self file =
     (case uncharge_all (map fst (sd_charged (aa_stored self))) (sd_attempts (aa_stored self)) of
        (undone, m) \<Rightarrow>
          (let self = set_stored (\<lambda>s. s\<lparr> sd_charged := [], sd_attempts := m \<rparr>) self in
           if 0 < undone then admission_persist out undone self file else (Inr undone, self, file)))"

fun forgive_all :: "string list \<Rightarrow> (string, nat) bmap \<Rightarrow> (string, nat) bmap \<Rightarrow> nat \<times> (string, nat) bmap \<times> (string, nat) bmap" where
  "forgive_all [] m suspects = (0, m, suspects)"
| "forgive_all (oid # ids) m suspects =
     (case uncharge_one oid m of
        (False, _) \<Rightarrow> forgive_all ids m suspects
      | (True, m') \<Rightarrow>
          (let suspects' = (if bhas suspects oid then bput oid (bentry 0 oid m') suspects else suspects) in
           case forgive_all ids m' suspects' of (n, m'', suspects'') \<Rightarrow> (1 + n, m'', suspects'')))"

definition forgive_last_process :: "write_outcome \<Rightarrow> admission_attempts \<Rightarrow> admission_file \<Rightarrow> nat admission_result" where
  "forgive_last_process out self file =
     (case forgive_all (map fst (aa_last_charged self)) (sd_attempts (aa_stored self)) (aa_suspects self) of
        (undone, m, suspects) \<Rightarrow>
          (let self = (set_stored (\<lambda>s. s\<lparr> sd_attempts := m \<rparr>) self)\<lparr> aa_last_charged := [], aa_suspects := suspects \<rparr> in
           if 0 < undone then admission_persist out undone self file else (Inr undone, self, file)))"

definition forget :: "write_outcome \<Rightarrow> string \<Rightarrow> admission_attempts \<Rightarrow> admission_file \<Rightarrow> unit admission_result" where
  "forget out oid self file =
     (let marked = reserve_refused self oid; known = bhas (sd_attempts (aa_stored self)) oid;
          suspects = bdel oid (aa_suspects self);
          self = self\<lparr> aa_suspects := suspects, aa_isolating := bdel oid (aa_isolating self),
            aa_stored := (aa_stored self)\<lparr> sd_charged := bdel oid (sd_charged (aa_stored self)),
              sd_reserve_refused := bdel oid (sd_reserve_refused (aa_stored self)) \<rparr>,
            aa_group_limit := max (length suspects) 1 \<rparr> in
      case clear_recovered self of
        (recovered, self) \<Rightarrow>
          (let self = set_stored (\<lambda>s. s\<lparr> sd_attempts := bdel oid (sd_attempts s) \<rparr>) self in
           if known \<or> marked \<or> recovered then admission_persist out () self file else (Inr (), self, file)))"

section \<open>Processes and their deaths\<close>

text \<open>A process changes the ledger by any of the operations above, with any outcome of the write.\<close>

inductive admission_step ::
  "admission_attempts \<times> admission_file \<Rightarrow> admission_attempts \<times> admission_file \<Rightarrow> bool" where
  step_mark: "admission_step (s, f) (snd (mark_reserve_refused out oid s f))"
| step_retain: "admission_step (s, f) (snd (retain_pending out pending s f))"
| step_begin: "admission_step (s, f) (snd (begin_group out ids alone g s f))"
| step_charge: "admission_step (s, f) (snd (charge out oid s f))"
| step_charge_suspect: "admission_step (s, f) (snd (charge_suspect out oid s f))"
| step_uncharge: "admission_step (s, f) (snd (uncharge_this_process out s f))"
| step_forgive: "admission_step (s, f) (snd (forgive_last_process out s f))"
| step_forget: "admission_step (s, f) (snd (forget out oid s f))"

definition charged_in :: "admission_file \<Rightarrow> string \<Rightarrow> bool" where
  "charged_in f oid = (case f of Holds st \<Rightarrow> bhas (sd_charged st) oid | _ \<Rightarrow> False)"

text \<open>A history of processes on one work directory; \<open>past oid\<close> counts the deaths at which the file said that
  the process had charged the object.\<close>

inductive admission_history :: "(string \<Rightarrow> nat) \<Rightarrow> admission_attempts \<Rightarrow> admission_file \<Rightarrow> bool" where
  first_process: "admission_history (\<lambda>_. 0) (admission_open NoFile) NoFile"
| process_step: "admission_history past s f \<Longrightarrow> admission_step (s, f) (s', f') \<Longrightarrow> admission_history past s' f'"
| process_death: "admission_history past s f
    \<Longrightarrow> admission_history (\<lambda>oid. past oid + (if charged_in f oid then 1 else 0)) (admission_open f) f"

text \<open>The count of an object never exceeds the deaths it was charged at, plus the charge of the running process.\<close>

definition count_ok :: "(string \<Rightarrow> nat) \<Rightarrow> admission_stored \<Rightarrow> bool" where
  "count_ok past st \<longleftrightarrow> bwf (sd_attempts st) \<and> bwf (sd_charged st)
     \<and> (\<forall>oid. bentry 0 oid (sd_attempts st) \<le> past oid + (if bhas (sd_charged st) oid then 1 else 0))"

definition admission_inv :: "(string \<Rightarrow> nat) \<Rightarrow> admission_attempts \<Rightarrow> bool" where
  "admission_inv past s \<longleftrightarrow> count_ok past (aa_stored s) \<and> bwf (aa_suspects s) \<and> bwf (aa_last_charged s)
     \<and> (\<forall>oid c. map_of (aa_suspects s) oid = Some c \<longrightarrow> c \<le> past oid)"

definition file_inv :: "(string \<Rightarrow> nat) \<Rightarrow> admission_file \<Rightarrow> bool" where
  "file_inv past f \<longleftrightarrow> (case f of Holds st \<Rightarrow> count_ok past st | _ \<Rightarrow> True)"

definition pair_inv :: "(string \<Rightarrow> nat) \<Rightarrow> admission_attempts \<times> admission_file \<Rightarrow> bool" where
  "pair_inv past sf \<longleftrightarrow> admission_inv past (fst sf) \<and> file_inv past (snd sf)"

lemma persist_pair_inv [intro!]:
  "admission_inv past s \<Longrightarrow> file_inv past f \<Longrightarrow> pair_inv past (snd (admission_persist out v s f))"
  by (cases out) (auto simp: admission_persist_def replace_file_def pair_inv_def file_inv_def admission_inv_def)

lemma pair_invI [intro!]: "admission_inv past s \<Longrightarrow> file_inv past f \<Longrightarrow> pair_inv past (s, f)"
  by (simp add: pair_inv_def)

lemma admission_inv_stored [intro!]:
  "admission_inv past s \<Longrightarrow> count_ok past (f (aa_stored s)) \<Longrightarrow> admission_inv past (set_stored f s)"
  by (simp add: admission_inv_def set_stored_def)

lemma admission_inv_count: "admission_inv past s \<Longrightarrow> count_ok past (aa_stored s)"
  by (simp add: admission_inv_def)

lemma count_okD: "count_ok past st \<Longrightarrow> bentry 0 oid (sd_attempts st) \<le> past oid + (if bhas (sd_charged st) oid then 1 else 0)"
  by (simp add: count_ok_def)

lemma bentry_bretain_le: "bwf m \<Longrightarrow> bentry 0 k (bretain P m) = (if \<exists>v. map_of m k = Some v \<and> P k v then bentry 0 k m else (0 :: nat))"
  by (auto simp: bentry_def map_of_bretain split: option.splits)

lemma bentry_bdel [simp]: "bentry d k (bdel j m) = (if k = j then d else bentry d k m)"
  by (simp add: bentry_def bmap_simps)

lemma bentry_tail: "bwf ((j, v) # m) \<Longrightarrow> bentry (0 :: nat) k m \<le> bentry 0 k ((j, v) # m)"
  by (fastforce simp: bentry_def bwf_Cons split: option.splits dest: map_of_SomeD)

lemma count_ok_shrinks:
  assumes "count_ok past st" "bwf (sd_attempts st')" "bwf (sd_charged st')"
    and "\<And>oid. bentry 0 oid (sd_attempts st') \<le> bentry 0 oid (sd_attempts st)"
    and "\<And>oid. bhas (sd_charged st) oid \<Longrightarrow> bentry 0 oid (sd_attempts st') \<noteq> 0 \<Longrightarrow> bhas (sd_charged st') oid"
  shows "count_ok past st'"
  unfolding count_ok_def
proof (intro conjI allI)
  fix oid
  show "bentry 0 oid (sd_attempts st') \<le> past oid + (if bhas (sd_charged st') oid then 1 else 0)"
    using count_okD [OF assms(1), of oid] assms(4,5) [of oid] by (cases "bhas (sd_charged st) oid") force+
qed (use assms in auto)

text \<open>One charge: the object was not charged by this process before.\<close>

lemma count_ok_charge:
  assumes "count_ok past st" "\<not> bhas (sd_charged st) oid"
  shows "count_ok past (add_charge oid (bentry 0 oid (sd_attempts st)) st)"
proof -
  have "bentry 0 oid (sd_attempts st) \<le> past oid" using count_okD [OF assms(1), of oid] assms(2) by simp
  then have "(bentry 0 oid (sd_attempts st) + 1) mod 2 ^ 32 \<le> past oid + 1"
    by (meson add_le_mono1 mod_less_eq_dividend order.trans)
  then show ?thesis
    using assms(1) by (auto simp del: One_nat_def add_Suc_right simp: add_charge_def count_ok_def bhas_bput bwf_bput)
qed

lemma count_ok_drop_oldest:
  assumes "count_ok past st"
  shows "count_ok past (drop_oldest oid st)"
proof (cases "drop_oldest oid st = st")
  case False
  then obtain oldest v rest where d: "sd_attempts st = (oldest, v) # rest"
    "drop_oldest oid st = st\<lparr> sd_attempts := rest, sd_reserve_refused := bdel oldest (sd_reserve_refused st) \<rparr>"
    by (auto simp: drop_oldest_def split: list.splits if_splits)
  have "bwf ((oldest, v) # rest)" using assms d(1) by (simp add: count_ok_def)
  then have "bwf rest" "bentry 0 k rest \<le> bentry 0 k (sd_attempts st)" for k
    using bentry_tail d(1) by (auto simp: bwf_Cons)
  then show ?thesis
    unfolding d(2) using assms by (intro count_ok_shrinks [OF assms]) (auto simp: count_ok_def)
qed (use assms in simp)

lemma count_ok_count_admission: "count_ok past st \<Longrightarrow> count_ok past (count_admission alone oid st)"
  using count_ok_charge [of past st oid] by (auto simp: count_admission_def Let_def count_ok_def bwf_bput)

lemma begin_one_inv: "admission_inv past s \<Longrightarrow> admission_inv past (begin_one alone g oid s)"
  by (auto simp: begin_one_def set_stored_def isolate_suspect_def admission_inv_def bmap_simps bwf_bdel
      intro!: count_ok_count_admission count_ok_drop_oldest) (simp add: count_ok_def)

lemma fold_begin_inv: "admission_inv past s \<Longrightarrow> admission_inv past (fold (begin_one alone g) ids s)"
  by (induction ids arbitrary: s) (auto intro: begin_one_inv)

lemma uncharge_one_entry:
  assumes "uncharge_one oid m = (one, m')" "bwf m"
  shows "bwf m'" "bentry 0 k m' = (if k = oid then bentry 0 k m - 1 else bentry 0 k m)"
  using assms by (auto simp: uncharge_one_def bentry_def bmap_simps bwf_bput split: option.splits if_splits)

lemma uncharge_all_entry:
  assumes "uncharge_all ids m = (n, m')" "bwf m" "distinct ids"
  shows "bwf m' \<and> bentry 0 k m' = (if k \<in> set ids then bentry 0 k m - 1 else bentry 0 k m)"
  using assms
proof (induction ids arbitrary: m n)
  case (Cons oid ids)
  obtain one m1 where u: "uncharge_one oid m = (one, m1)" by fastforce
  from Cons.prems(1) obtain n1 where "uncharge_all ids m1 = (n1, m')" by (auto simp: u split: prod.splits)
  from Cons.IH [OF this uncharge_one_entry(1) [OF u Cons.prems(2)]] show ?case
    using Cons.prems(3) uncharge_one_entry(2) [OF u Cons.prems(2), of k] by auto
qed simp

text \<open>Forgiving lowers counts only, and a suspect it touches gets its lowered count.\<close>

lemma forgive_all_entry:
  assumes "forgive_all ids m sus = (n, m', sus')" "bwf m" "bwf sus"
    and "\<And>k. bentry 0 k m \<le> Suc (past k)" "\<And>k c. map_of sus k = Some c \<Longrightarrow> c \<le> past k"
  shows "bwf m' \<and> bwf sus' \<and> (\<forall>k. bentry 0 k m' \<le> bentry 0 k m) \<and> (\<forall>k c. map_of sus' k = Some c \<longrightarrow> c \<le> past k)"
  using assms
proof (induction ids arbitrary: m sus n)
  case (Cons oid ids)
  obtain one m1 where u: "uncharge_one oid m = (one, m1)" by fastforce
  note e = uncharge_one_entry [OF u Cons.prems(2)]
  show ?case
  proof (cases one)
    case False
    then show ?thesis using Cons.IH [OF _ Cons.prems(2-5)] Cons.prems(1) u by simp
  next
    case True
    define sus1 where "sus1 = (if bhas sus oid then bput oid (bentry 0 oid m1) sus else sus)"
    from Cons.prems(1) True obtain n1 where f: "forgive_all ids m1 sus1 = (n1, m', sus')"
      by (auto simp: u sus1_def Let_def split: prod.splits)
    have le: "bentry 0 k m1 \<le> bentry 0 k m" for k using e(2) [of k] by auto
    have "bentry 0 oid m1 \<le> past oid" using e(2) [of oid] Cons.prems(4) [of oid] by simp
    then have sus1: "c \<le> past k" if "map_of sus1 k = Some c" for k c
      using that Cons.prems(5) by (auto simp: sus1_def bmap_simps split: if_splits)
    have "bwf m' \<and> bwf sus' \<and> (\<forall>k. bentry 0 k m' \<le> bentry 0 k m1) \<and> (\<forall>k c. map_of sus' k = Some c \<longrightarrow> c \<le> past k)"
    proof (rule Cons.IH [OF f e(1)])
      show "bwf sus1" using Cons.prems(3) by (simp add: sus1_def bwf_bput)
      show "bentry 0 k m1 \<le> Suc (past k)" for k using le [of k] Cons.prems(4) [of k] by simp
    qed (rule sus1)
    then show ?thesis using le by (meson order.trans)
  qed
qed simp

text \<open>Every operation keeps the invariant.\<close>

lemma mark_inv: "admission_inv past s \<Longrightarrow> file_inv past f \<Longrightarrow> pair_inv past (snd (mark_reserve_refused out oid s f))"
  using admission_inv_count [of past s] by (auto simp: mark_reserve_refused_def) (simp add: count_ok_def)

lemma retain_inv:
  assumes "admission_inv past s" "file_inv past f"
  shows "pair_inv past (snd (retain_pending out pending s f))"
proof -
  define kept where "kept = s\<lparr>
      aa_stored := (aa_stored s)\<lparr>
        sd_attempts := bretain (\<lambda>oid _. oid \<in> pending) (sd_attempts (aa_stored s)),
        sd_reserve_refused := bretain (\<lambda>oid _. oid \<in> pending) (sd_reserve_refused (aa_stored s)),
        sd_charged := bretain (\<lambda>oid _. oid \<in> pending) (sd_charged (aa_stored s)) \<rparr>,
      aa_suspects := bretain (\<lambda>oid _. oid \<in> pending) (aa_suspects s),
      aa_isolating := bretain (\<lambda>oid _. oid \<in> pending) (aa_isolating s) \<rparr>"
  have ok: "count_ok past (aa_stored s)" "bwf (aa_suspects s)" using assms(1) by (simp_all add: admission_inv_def)
  have "count_ok past (aa_stored kept)"
    using ok(1) by (intro count_ok_shrinks [OF ok(1)])
      (auto simp: kept_def count_ok_def bwf_bretain bentry_bretain_le bhas_def map_of_bretain split: if_splits)
  moreover have "c \<le> past k" if "map_of (aa_suspects kept) k = Some c" for k c
    using assms(1) that map_of_bretain [OF ok(2)] by (auto simp: kept_def admission_inv_def split: option.splits if_splits)
  ultimately have "admission_inv past kept"
    using assms(1) by (auto simp: admission_inv_def kept_def bwf_bretain)
  then have "admission_inv past (snd (clear_recovered kept))"
    by (auto simp: clear_recovered_def admission_inv_def set_stored_def count_ok_def)
  then show ?thesis
    using assms by (auto simp: retain_pending_def kept_def [symmetric] Let_def split: prod.split)
qed

lemma charge_inv: "admission_inv past s \<Longrightarrow> file_inv past f \<Longrightarrow> pair_inv past (snd (charge out oid s f))"
  using count_ok_charge [of past "aa_stored s" oid] admission_inv_count [of past s]
  by (auto simp: charge_def bentry_def split: option.split)

lemma charge_suspect_inv: "admission_inv past s \<Longrightarrow> file_inv past f \<Longrightarrow> pair_inv past (snd (charge_suspect out oid s f))"
  using count_ok_charge [of past "aa_stored s" oid] admission_inv_count [of past s]
  by (auto simp: charge_suspect_def)

lemma uncharge_inv:
  assumes "admission_inv past s" "file_inv past f"
  shows "pair_inv past (snd (uncharge_this_process out s f))"
proof -
  obtain n m where u: "uncharge_all (map fst (sd_charged (aa_stored s))) (sd_attempts (aa_stored s)) = (n, m)" by fastforce
  have ok: "count_ok past (aa_stored s)" using assms(1) by (simp add: admission_inv_def)
  then have "distinct (map fst (sd_charged (aa_stored s)))" "bwf (sd_attempts (aa_stored s))"
    by (auto simp: count_ok_def bwf_distinct)
  from uncharge_all_entry [OF u this(2,1)]
  have m: "bwf m \<and> bentry 0 k m = (if bhas (sd_charged (aa_stored s)) k then bentry 0 k (sd_attempts (aa_stored s)) - 1
      else bentry 0 k (sd_attempts (aa_stored s)))" for k by (simp add: bhas_keys)
  have "bentry 0 k m \<le> past k" for k using m [of k] count_okD [OF ok, of k] by (auto split: if_splits)
  then have "count_ok past ((aa_stored s)\<lparr> sd_charged := [], sd_attempts := m \<rparr>)" using m by (simp add: count_ok_def)
  then show ?thesis
    using assms by (auto simp: uncharge_this_process_def u Let_def)
qed

lemma forgive_inv:
  assumes "admission_inv past s" "file_inv past f"
  shows "pair_inv past (snd (forgive_last_process out s f))"
proof -
  obtain n m sus where u: "forgive_all (map fst (aa_last_charged s)) (sd_attempts (aa_stored s)) (aa_suspects s) = (n, m, sus)"
    by (metis surj_pair)
  have ok: "count_ok past (aa_stored s)" using assms(1) by (simp add: admission_inv_def)
  have "bwf m \<and> bwf sus \<and> (\<forall>k. bentry 0 k m \<le> bentry 0 k (sd_attempts (aa_stored s)))
      \<and> (\<forall>k c. map_of sus k = Some c \<longrightarrow> c \<le> past k)"
  proof (rule forgive_all_entry [OF u])
    show "bentry 0 k (sd_attempts (aa_stored s)) \<le> Suc (past k)" for k
      using count_okD [OF ok, of k] by (auto split: if_splits)
  qed (use assms(1) in \<open>auto simp: admission_inv_def count_ok_def\<close>)
  moreover from this have "count_ok past ((aa_stored s)\<lparr> sd_attempts := m \<rparr>)"
    using ok by (intro count_ok_shrinks [OF ok]) (auto simp: count_ok_def)
  ultimately have "admission_inv past ((set_stored (\<lambda>s. s\<lparr> sd_attempts := m \<rparr>) s)\<lparr> aa_last_charged := [], aa_suspects := sus \<rparr>)"
    by (simp add: admission_inv_def set_stored_def)
  then show ?thesis using assms by (auto simp: forgive_last_process_def u Let_def)
qed

lemma forget_inv:
  assumes "admission_inv past s" "file_inv past f"
  shows "pair_inv past (snd (forget out oid s f))"
proof -
  define s1 where "s1 = s\<lparr> aa_suspects := bdel oid (aa_suspects s), aa_isolating := bdel oid (aa_isolating s),
      aa_stored := (aa_stored s)\<lparr> sd_charged := bdel oid (sd_charged (aa_stored s)),
        sd_reserve_refused := bdel oid (sd_reserve_refused (aa_stored s)) \<rparr>,
      aa_group_limit := max (length (bdel oid (aa_suspects s))) 1 \<rparr>"
  define s2 where "s2 = set_stored (\<lambda>s. s\<lparr> sd_attempts := bdel oid (sd_attempts s) \<rparr>) (snd (clear_recovered s1))"
  have ok: "count_ok past (aa_stored s)" using assms(1) by (simp add: admission_inv_def)
  have "sd_attempts (aa_stored s2) = bdel oid (sd_attempts (aa_stored s))"
    "sd_charged (aa_stored s2) = bdel oid (sd_charged (aa_stored s))"
    "aa_suspects s2 = bdel oid (aa_suspects s)" "aa_last_charged s2 = aa_last_charged s"
    by (simp_all add: s2_def s1_def clear_recovered_def set_stored_def)
  moreover from this have "count_ok past (aa_stored s2)"
    using ok by (intro count_ok_shrinks [OF ok]) (auto simp: count_ok_def bwf_bdel bhas_bdel split: if_splits)
  ultimately have "admission_inv past s2" using assms(1) by (auto simp: admission_inv_def bwf_bdel bmap_simps)
  moreover have "snd (forget out oid s f) = (s2, f) \<or> snd (forget out oid s f) = snd (admission_persist out () s2 f)"
    by (simp add: forget_def Let_def s2_def s1_def split: prod.split)
  ultimately show ?thesis using assms(2) by auto
qed

lemmas admission_op_inv = mark_inv retain_inv charge_inv charge_suspect_inv uncharge_inv forgive_inv forget_inv

lemma begin_inv: "admission_inv past s \<Longrightarrow> file_inv past f \<Longrightarrow> pair_inv past (snd (begin_group out ids alone g s f))"
  unfolding begin_group_def by (intro persist_pair_inv fold_begin_inv)

lemma admission_step_inv: "admission_step sf sf' \<Longrightarrow> pair_inv past sf \<Longrightarrow> pair_inv past sf'"
  by (induction rule: admission_step.induct) (simp_all add: pair_inv_def [of past "(_, _)"] admission_op_inv begin_inv)

lemma admission_open_inv:
  assumes "file_inv past f"
  defines "past' \<equiv> \<lambda>oid. past oid + (if charged_in f oid then 1 else 0)"
  shows "pair_inv past' (admission_open f, f)"
proof (cases f)
  case (Holds st)
  have ok: "count_ok past st" using assms(1) Holds by (simp add: file_inv_def)
  then have le: "bentry 0 k (sd_attempts st) \<le> past' k" for k
    using count_okD [OF ok, of k] by (auto simp: past'_def charged_in_def Holds split: if_splits)
  have "c \<le> past' k" if "map_of (sd_attempts st) k = Some c" for k c using le [of k] that by (simp add: bentry_def)
  moreover have "count_ok past' (st\<lparr> sd_charged := [] \<rparr>)" "count_ok past' st" using ok le by (auto simp: count_ok_def le_SucI)
  ultimately show ?thesis
    using ok by (auto simp: pair_inv_def admission_inv_def file_inv_def admission_open_def Holds Let_def count_ok_def)
qed (auto simp: pair_inv_def admission_inv_def file_inv_def admission_open_def default_admission_stored_def count_ok_def
    bentry_def Let_def)

lemma admission_history_inv: "admission_history past s f \<Longrightarrow> pair_inv past (s, f)"
proof (induction rule: admission_history.induct)
  case first_process
  then show ?case using admission_open_inv [of "\<lambda>_. 0" NoFile] by (simp add: file_inv_def charged_in_def)
next
  case (process_step past s f s' f')
  show ?case by (rule admission_step_inv [OF process_step.hyps(2) process_step.IH])
next
  case (process_death past s f)
  then show ?case using admission_open_inv [of past f] by (simp add: pair_inv_def)
qed

section \<open>Recovery by halving\<close>

text \<open>Deaths during recovery: each process opens the ledger, admits a group of at most \<open>group_limit\<close> suspects and
  dies with them in flight.\<close>

inductive recovery_deaths :: "nat \<Rightarrow> admission_file \<Rightarrow> admission_file \<Rightarrow> bool" where
  no_death: "recovery_deaths 0 f f"
| one_death: "recovery_deaths n f f' \<Longrightarrow> ids \<noteq> [] \<Longrightarrow> list_all (\<lambda>oid. suspect (admission_open f') oid \<noteq> None) ids
    \<Longrightarrow> length ids \<le> aa_group_limit (admission_open f')
    \<Longrightarrow> begin_group Synced ids alone (length ids) (admission_open f') f' = (Inr (), s, f'')
    \<Longrightarrow> recovery_deaths (Suc n) f f''"

lemma begin_one_isolate:
  "sd_isolate (aa_stored (begin_one alone g oid s)) =
   (if bhas (aa_suspects s) oid then Some (to_u32 (max g 1)) else sd_isolate (aa_stored s))"
  by (auto simp: begin_one_def set_stored_def isolate_suspect_def count_admission_def add_charge_def drop_oldest_def Let_def
      split: list.split)

lemma fold_begin_isolate:
  "sd_isolate (aa_stored s) = Some (to_u32 (max g 1))
   \<Longrightarrow> sd_isolate (aa_stored (fold (begin_one alone g) ids s)) = Some (to_u32 (max g 1))"
  by (induction ids arbitrary: s) (simp_all add: begin_one_isolate)

lemma death_halves_group:
  assumes "ids \<noteq> []" "suspect s (hd ids) \<noteq> None" "begin_group Synced ids alone (length ids) s f = (Inr (), s', f')"
  shows "aa_group_limit (admission_open f') \<le> max (div_ceil (length ids) 2) 1"
proof -
  obtain oid rest where ids: "ids = oid # rest" using assms(1) by (cases ids) auto
  have "sd_isolate (aa_stored (begin_one alone (length ids) oid s)) = Some (to_u32 (max (length ids) 1))"
    using assms(2) by (simp add: begin_one_isolate ids suspect_def bhas_def)
  from fold_begin_isolate [OF this, of alone rest]
  have "sd_isolate (aa_stored (fold (begin_one alone (length ids)) ids s)) = Some (to_u32 (max (length ids) 1))"
    by (simp add: ids)
  moreover have "f' = Holds (aa_stored (fold (begin_one alone (length ids)) ids s))"
    using assms(3) by (auto simp: begin_group_def admission_persist_def)
  moreover have "div_ceil (to_u32 (max (length ids) 1)) 2 \<le> div_ceil (length ids) 2"
    using assms(1) by (auto simp: div_ceil_def to_u32_def max_def Suc_le_eq intro!: div_le_mono)
  ultimately show ?thesis by (simp add: admission_open_def Let_def max.coboundedI1)
qed

lemma group_limit_pos: "1 \<le> aa_group_limit (admission_open f)"
  by (simp add: admission_open_def Let_def)

lemma recovery_deaths_limit:
  "recovery_deaths n f f' \<Longrightarrow> aa_group_limit (admission_open f) \<le> 2 ^ (n + k) \<Longrightarrow> aa_group_limit (admission_open f') \<le> 2 ^ k"
proof (induction arbitrary: k rule: recovery_deaths.induct)
  case (one_death n f f' ids alone s f'')
  have "length ids \<le> 2 ^ Suc k" using one_death.IH [of "Suc k"] one_death.prems one_death.hyps(4) by simp
  then have "div_ceil (length ids) 2 \<le> 2 ^ k" by (simp add: div_ceil_def)
  moreover have "suspect (admission_open f') (hd ids) \<noteq> None"
    using one_death.hyps(2,3) by (cases ids) auto
  ultimately show ?case
    using death_halves_group [OF one_death.hyps(2) _ one_death.hyps(5)] by (meson max.bounded_iff one_le_power one_le_numeral order.trans)
qed simp

section \<open>Properties\<close>

text \<open>
  C13: an object is charged at most once per death. Over any history of processes on one work directory, with
  any operations in any order and writes that may fail before or after the rename, the count a new
  process reads for a suspect is at most the number of deaths at which the ledger said that the process
  had admitted the object alone; so a refusal, at \<open>MAX_ADMISSION_CRASHES\<close>, needs that many such deaths.
\<close>

theorem charges_need_deaths:
  assumes "admission_history past s f" "suspect s oid = Some c"
  shows "c \<le> past oid \<and> (MAX_ADMISSION_CRASHES \<le> c \<longrightarrow> 3 \<le> past oid)"
  using admission_history_inv [OF assms(1)] assms(2)
  by (auto simp: pair_inv_def admission_inv_def suspect_def MAX_ADMISSION_CRASHES_def intro: order.trans)

text \<open>
  C31: recovery narrows the suspects by halving: when a process found a group limit of at most \<open>2 ^ n\<close>, and \<open>n\<close>
  processes in a row died with a group of suspects within their limit in flight, the next process admits
  suspects one at a time.
\<close>

theorem recovery_bisects:
  assumes "recovery_deaths n f f'" "aa_group_limit (admission_open f) \<le> 2 ^ n"
  shows "aa_group_limit (admission_open f') = 1"
  using recovery_deaths_limit [OF assms(1), of 0] assms(2) group_limit_pos [of f'] by simp

section \<open>A crashing object\<close>

definition demo_suspects :: admission_file where
  "demo_suspects = Holds (default_admission_stored\<lparr> sd_attempts := [(''a'', 0), (''b'', 0), (''c'', 0)] \<rparr>)"

theorem charges_need_deaths_witness:
  "\<exists>past s f. admission_history past s f \<and> suspect s ''a'' = Some 1 \<and> 1 \<le> past ''a''"
proof -
  define sf where "sf = snd (begin_group Synced [''a''] True 1 (admission_open NoFile) NoFile)"
  have "admission_history (\<lambda>_. 0) (fst sf) (snd sf)"
    by (rule process_step [OF first_process]) (simp add: sf_def step_begin)
  then have h: "admission_history (\<lambda>oid. 0 + (if charged_in (snd sf) oid then 1 else 0)) (admission_open (snd sf)) (snd sf)"
    by (rule process_death)
  have s: "suspect (admission_open (snd sf)) ''a'' = Some 1"
    by (simp add: sf_def begin_group_def admission_persist_def begin_one_def isolate_suspect_def set_stored_def
        admission_open_def default_admission_stored_def count_admission_def add_charge_def drop_oldest_def bentry_def
        MAX_ENTRIES_def suspect_def Let_def)
  show ?thesis using h s charges_need_deaths [OF h s] by blast
qed

theorem recovery_bisects_witness:
  "\<exists>f'. recovery_deaths 1 demo_suspects f' \<and> aa_group_limit (admission_open demo_suspects) = 2
     \<and> aa_group_limit (admission_open f') = 1"
proof -
  let ?b = "begin_group Synced [''a'', ''b''] False (length [''a'', ''b'']) (admission_open demo_suspects) demo_suspects"
  define f' where "f' = snd (snd ?b)"
  have b: "?b = (Inr (), fst (snd ?b), f')"
    unfolding f'_def by (simp add: begin_group_def admission_persist_def)
  have l: "list_all (\<lambda>oid. suspect (admission_open demo_suspects) oid \<noteq> None) [''a'', ''b'']"
    "length [''a'', ''b''] \<le> aa_group_limit (admission_open demo_suspects)" "aa_group_limit (admission_open demo_suspects) = 2"
    by (simp_all add: demo_suspects_def suspect_def admission_open_def Let_def div_ceil_def default_admission_stored_def)
  have "recovery_deaths (Suc 0) demo_suspects f'"
    by (rule one_death [OF no_death _ l(1,2) b]) simp
  then show ?thesis using recovery_bisects [of 1 demo_suspects f'] l(3) by auto
qed

end
