(* ===== verification/Gc_Request.thy ===== *)
theory Gc_Request
  imports Canonical_Json
begin

text \<open>
  Delete requests of the lake-part garbage collector (\<open>lake_part_gc/request.rs\<close>): the exact keys a
  delete may name (part files, bronze quarantine objects and records), the flat request the owner
  authorizes, its validation and its digest. The civil calendar (crate chrono) is the argument
  \<open>cal\<close>; the regular expressions of the source are written out as predicates.
\<close>

section \<open>Bounds\<close>

definition MIN_GRACE_SECONDS :: nat where "MIN_GRACE_SECONDS = 3600"
definition MAX_GRACE_SECONDS :: nat where "MAX_GRACE_SECONDS = 7 * 86400"
definition MIN_ORPHAN_AGE_SECONDS :: nat where "MIN_ORPHAN_AGE_SECONDS = 176400"
definition MAX_ORPHAN_AGE_SECONDS :: nat where "MAX_ORPHAN_AGE_SECONDS = 30 * 86400"
definition ORPHAN_ID_MEMORY_MARGIN_MS :: int where "ORPHAN_ID_MEMORY_MARGIN_MS = 3600000"
definition RETENTION_DAYS :: "nat list" where "RETENTION_DAYS = [30, 90, 180, 365]"
definition MAX_KEY_BYTES :: nat where "MAX_KEY_BYTES = 1024"
definition QUARANTINE_DIR :: string where "QUARANTINE_DIR = ''log/checkpoints/bronze-quarantine-v1/''"
definition QUARANTINE_MIN_AGE_SECONDS :: nat where "QUARANTINE_MIN_AGE_SECONDS = 8 * 86400"
definition LAKE_PART_DELETE :: string where "LAKE_PART_DELETE = ''lake_part_delete''"

definition PART_FILE_NAMES :: "string list" where
  "PART_FILE_NAMES = [''provenance.json'', ''partials/rollup.parquet'', ''partials/prevalence.parquet'',
     ''partials/entity_ranges.parquet'', ''partials/risk.parquet'']"

section \<open>Texts\<close>

text \<open>\<open>str::strip_suffix\<close>, \<open>str::split_once\<close> with a text separator and \<open>str::splitn\<close>.\<close>

definition strip_suffix :: "string \<Rightarrow> string \<Rightarrow> string option" where
  "strip_suffix p s =
     (let n = length s - length p in if length p \<le> length s \<and> drop n s = p then Some (take n s) else None)"

fun split_once_str :: "string \<Rightarrow> string \<Rightarrow> (string \<times> string) option" where
  "split_once_str p [] = (if p = [] then Some ([], []) else None)"
| "split_once_str p (x # xs) =
     (case strip_prefix p (x # xs) of
        Some rest \<Rightarrow> Some ([], rest)
      | None \<Rightarrow> map_option (\<lambda>(a, b). (x # a, b)) (split_once_str p xs))"

fun splitn :: "nat \<Rightarrow> char \<Rightarrow> string \<Rightarrow> string list" where
  "splitn 0 c s = []"
| "splitn (Suc 0) c s = [s]"
| "splitn (Suc (Suc n)) c s =
     (case split_once c s of None \<Rightarrow> [s] | Some (a, b) \<Rightarrow> a # splitn (Suc n) c b)"

text \<open>The regular expressions \<open>UUID_V4\<close>, \<open>slug_regex\<close> and \<open>etag_regex\<close>.\<close>

definition hex_group :: "nat \<Rightarrow> string \<Rightarrow> bool" where
  "hex_group n s \<longleftrightarrow> length s = n \<and> list_all is_lower_hex s"

definition is_uuid_v4 :: "string \<Rightarrow> bool" where
  "is_uuid_v4 s =
     (case split_on CHR ''-'' s of
        [a, b, c, d, e] \<Rightarrow> hex_group 8 a \<and> hex_group 4 b \<and> hex_group 4 c \<and> hd c = CHR ''4''
          \<and> hex_group 4 d \<and> hd d \<in> set ''89ab'' \<and> hex_group 12 e
      | _ \<Rightarrow> False)"

definition slug_char :: "char \<Rightarrow> bool" where
  "slug_char c \<longleftrightarrow> is_digit c \<or> 97 \<le> (of_char c :: nat) \<and> (of_char c :: nat) \<le> 122"

definition is_slug :: "string \<Rightarrow> bool" where
  "is_slug s \<longleftrightarrow> s \<noteq> [] \<and> slug_char (hd s) \<and> slug_char (last s)
     \<and> list_all (\<lambda>c. slug_char c \<or> c = CHR ''-'') s"

definition is_strong_etag :: "string \<Rightarrow> bool" where
  "is_strong_etag s \<longleftrightarrow> 3 \<le> length s \<and> hd s = CHR 0x22 \<and> last s = CHR 0x22
     \<and> list_all (\<lambda>c. c \<noteq> CHR 0x22 \<and> \<not> is_control c) (butlast (tl s))"

section \<open>Keys\<close>

text \<open>The calendar of crate chrono: \<open>cal_from_ymd\<close> is \<open>NaiveDate::from_ymd_opt\<close> as a day number,
  \<open>cal_civil\<close> the civil date and hour of a UTC time in seconds. A \<open>DateTime<Utc>\<close> is its Unix time.\<close>

record calendar =
  cal_from_ymd :: "nat \<Rightarrow> nat \<Rightarrow> nat \<Rightarrow> int option"
  cal_civil :: "int \<Rightarrow> civil option"

record part_file_key =
  fk_tenant_uuid :: string
  fk_level :: string
  fk_path_hour :: int
  fk_part_id :: part_id
  fk_file :: string

definition fk_day :: "calendar \<Rightarrow> part_file_key \<Rightarrow> string" where
  "fk_day cal key =
     (case cal_civil cal (fk_path_hour key) of
        None \<Rightarrow> []
      | Some t \<Rightarrow> pad0_int 4 (cv_year t) @ ''-'' @ pad0 2 (dec (cv_month t)) @ ''-'' @ pad0 2 (dec (cv_day t)))"

definition is_provenance_key :: "part_file_key \<Rightarrow> bool" where
  "is_provenance_key key \<longleftrightarrow> fk_file key = PROVENANCE_FILE"

datatype quarantine_key_kind = QObject string | QRecord int

record quarantine_key =
  qk_tenant_uuid :: string
  qk_kind :: quarantine_key_kind

definition parse_quarantine_kind :: "string \<Rightarrow> quarantine_key_kind option" where
  "parse_quarantine_kind rest =
     (case strip_prefix ''objects/'' rest of
        Some name \<Rightarrow>
          Option.bind (strip_suffix ''.parquet'' name) (\<lambda>id. if is_sha256_hex id then Some (QObject id) else None)
      | None \<Rightarrow>
          Option.bind (strip_prefix ''records/'' rest) (\<lambda>name.
            if length name \<noteq> 35 \<or> \<not> list_all is_digit (take 13 name) \<or> name ! 13 \<noteq> CHR ''-''
               \<or> \<not> list_all is_lower_hex (take 16 (drop 14 name)) \<or> drop 30 name \<noteq> ''.json''
            then None
            else map_option QRecord (parse_i64 (take 13 name))))"

definition parse_quarantine_key :: "string \<Rightarrow> quarantine_key option" where
  "parse_quarantine_key key =
     (if MAX_KEY_BYTES < length key then None
      else
        Option.bind (strip_prefix ''lake/parts/v1/tenant='' key) (\<lambda>rest.
          if length rest < 36 \<or> \<not> is_uuid_v4 (take 36 rest) then None
          else
            Option.bind (strip_prefix ''/'' (drop 36 rest)) (\<lambda>path.
            Option.bind (strip_prefix QUARANTINE_DIR path) (\<lambda>name.
              map_option (\<lambda>kind. \<lparr> qk_tenant_uuid = take 36 rest, qk_kind = kind \<rparr>)
                (parse_quarantine_kind name)))))"

definition is_log_key :: "string \<Rightarrow> bool" where
  "is_log_key key =
     (case Option.bind (strip_prefix ''lake/parts/v1/tenant='' key) (split_once CHR ''/'') of
        None \<Rightarrow> False
      | Some (_, rest) \<Rightarrow> rest = ''log'' \<or> starts_with ''log/'' rest)"

definition decimal :: "nat \<Rightarrow> string \<Rightarrow> nat option" where
  "decimal width value =
     (if length value = width \<and> list_all is_digit value then parse_digits value else None)"

definition indexed_file :: "string \<Rightarrow> string \<Rightarrow> string \<Rightarrow> bool" where
  "indexed_file file prefix suffix =
     (case Option.bind (Option.bind (strip_prefix prefix file) (strip_suffix suffix)) (decimal 5) of
        None \<Rightarrow> False
      | Some i \<Rightarrow> i < MAX_DATA_FILES)"

definition is_indexed_file :: "string \<Rightarrow> bool" where
  "is_indexed_file file \<longleftrightarrow>
     list_ex (\<lambda>(prefix, suffix). indexed_file file prefix suffix)
       [(''data-'', ''.parquet''), (''tokens-'', ''.nti''), (''uids-'', ''.json''), (''entities-'', ''.json''),
        (''locators-'', ''.json''), (''ranges-'', ''.json'')]"

definition is_pending_file :: "string \<Rightarrow> bool" where
  "is_pending_file file =
     (case Option.bind (strip_prefix ''provenance.pending.'' file) (strip_suffix ''.json'') of
        None \<Rightarrow> False
      | Some sha \<Rightarrow> is_sha256_hex sha)"

definition is_count_file :: "string \<Rightarrow> bool" where
  "is_count_file name \<longleftrightarrow>
     name = ''counts-v2.json''
     \<or> (case Option.bind (strip_prefix ''counts-v2-'' name) (strip_suffix ''.parquet'') of
          None \<Rightarrow> False
        | Some hex \<Rightarrow> hex_group 16 hex)"

definition is_part_file :: "string \<Rightarrow> bool" where
  "is_part_file file \<longleftrightarrow>
     is_indexed_file file \<or> is_pending_file file \<or> is_count_file file \<or> file \<in> set PART_FILE_NAMES"

definition is_ascii :: "string \<Rightarrow> bool" where
  "is_ascii s \<longleftrightarrow> list_all (\<lambda>c. (of_char c :: nat) < 128) s"

definition path_hour_of :: "calendar \<Rightarrow> nat \<Rightarrow> nat \<Rightarrow> nat \<Rightarrow> nat \<Rightarrow> int option" where
  "path_hour_of cal year month day hour =
     Option.bind (cal_from_ymd cal year month day) (\<lambda>days.
       if hour < 24 then Some (days * 86400 + int hour * 3600) else None)"

definition parse_part_path ::
  "calendar \<Rightarrow> string \<Rightarrow> string list \<Rightarrow> part_file_key option" where
  "parse_part_path cal tenant names =
     (case names of
        [lvl, y, m, d, h, pid, file] \<Rightarrow>
          if lvl \<notin> {''l0'', ''m'', ''h'', ''d''} then None
          else
            Option.bind (decimal 4 y) (\<lambda>year.
            Option.bind (decimal 2 m) (\<lambda>month.
            Option.bind (decimal 2 d) (\<lambda>day.
            Option.bind (decimal 2 h) (\<lambda>hour.
              if year < 1970 \<or> lvl = ''d'' \<and> hour \<noteq> 0 \<or> \<not> is_ascii pid then None
              else
                case part_id_parse pid of
                  Inl _ \<Rightarrow> None
                | Inr part_id \<Rightarrow>
                    if \<not> is_part_file file then None
                    else
                      Option.bind (path_hour_of cal year month day hour) (\<lambda>path_hour.
                        Some \<lparr> fk_tenant_uuid = tenant, fk_level = lvl, fk_path_hour = path_hour,
                               fk_part_id = part_id, fk_file = file \<rparr>)))))
      | _ \<Rightarrow> None)"

definition parse_part_file_key :: "calendar \<Rightarrow> string \<Rightarrow> part_file_key option" where
  "parse_part_file_key cal key =
     (if MAX_KEY_BYTES < length key then None
      else
        Option.bind (strip_prefix ''lake/parts/v1/tenant='' key) (\<lambda>rest.
        Option.bind (split_once_str ''/parts/'' rest) (\<lambda>(tenant, path).
          if \<not> is_uuid_v4 tenant then None else parse_part_path cal tenant (splitn 7 CHR ''/'' path))))"

section \<open>Requests\<close>

datatype delete_reason = Superseded | Orphan | Retention_Delete | QuarantineExpired

fun reason_str :: "delete_reason \<Rightarrow> string" where
  "reason_str Superseded = ''superseded''"
| "reason_str Orphan = ''orphan''"
| "reason_str Retention_Delete = ''retention''"
| "reason_str QuarantineExpired = ''quarantine_expired''"

record delete_request =
  dr_schema_version :: nat
  dr_operation :: string
  dr_tenant_id :: string
  dr_tenant_uuid :: string
  dr_bucket :: string
  dr_key :: string
  dr_strong_etag :: string
  dr_content_length :: nat
  dr_reason :: delete_reason
  dr_removal_seq :: "nat option"
  dr_removal_entry_sha256 :: "string option"
  dr_grace_seconds :: "nat option"
  dr_orphan_min_age_seconds :: "nat option"
  dr_retention_day :: "string option"
  dr_retention_days :: "nat option"
  dr_quarantine_min_age_seconds :: "nat option"

definition tenant_bucket :: "string \<Rightarrow> string" where
  "tenant_bucket tenant_uuid = ''nano-shared-r2-'' @ tenant_uuid"

definition request_base ::
  "string \<Rightarrow> string \<Rightarrow> string \<Rightarrow> string \<Rightarrow> nat \<Rightarrow> delete_reason \<Rightarrow> delete_request" where
  "request_base tenant_id tenant_uuid key strong_etag content_length reason =
     \<lparr> dr_schema_version = 1, dr_operation = LAKE_PART_DELETE, dr_tenant_id = tenant_id,
       dr_tenant_uuid = tenant_uuid, dr_bucket = tenant_bucket tenant_uuid, dr_key = key,
       dr_strong_etag = strong_etag, dr_content_length = content_length, dr_reason = reason,
       dr_removal_seq = None, dr_removal_entry_sha256 = None, dr_grace_seconds = None,
       dr_orphan_min_age_seconds = None, dr_retention_day = None, dr_retention_days = None,
       dr_quarantine_min_age_seconds = None \<rparr>"

definition opt_is :: "('a \<Rightarrow> bool) \<Rightarrow> 'a option \<Rightarrow> bool" where
  "opt_is P x = (case x of None \<Rightarrow> False | Some v \<Rightarrow> P v)"

definition retention_days_ok :: "bool \<Rightarrow> nat \<Rightarrow> bool" where
  "retention_days_ok trusted_local days \<longleftrightarrow>
     days \<in> set RETENTION_DAYS \<or> trusted_local \<and> 1 \<le> days \<and> days \<le> 3650"

definition removal_ok :: "delete_request \<Rightarrow> bool" where
  "removal_ok self \<longleftrightarrow>
     opt_is (\<lambda>seq. 1 \<le> seq) (dr_removal_seq self)
     \<and> opt_is (\<lambda>sha. is_sha256_hex sha \<and> sha \<noteq> replicate 64 CHR ''0'') (dr_removal_entry_sha256 self)
     \<and> opt_is (\<lambda>g. MIN_GRACE_SECONDS \<le> g \<and> g \<le> MAX_GRACE_SECONDS) (dr_grace_seconds self)"

definition validate_head :: "delete_request \<Rightarrow> unit res" where
  "validate_head self =
     bind_res (ensure (\<not> (dr_schema_version self \<noteq> 1 \<or> dr_operation self \<noteq> LAKE_PART_DELETE))
       ''lake part delete request has the wrong schema or operation'') (\<lambda>_.
     bind_res (ensure (\<not> (63 < length (dr_tenant_id self) \<or> \<not> is_slug (dr_tenant_id self)))
       ''lake part delete tenant_id is not a tenant slug'') (\<lambda>_.
     bind_res (ensure (is_uuid_v4 (dr_tenant_uuid self))
       ''lake part delete tenant_uuid is not a lowercase UUIDv4'') (\<lambda>_.
     bind_res (ensure (dr_bucket self = tenant_bucket (dr_tenant_uuid self))
       ''lake part delete bucket is not the tenant's shared bucket'') (\<lambda>_.
     bind_res (ensure (\<not> (\<not> is_strong_etag (dr_strong_etag self) \<or> dr_content_length self = 0))
       ''lake part delete needs an exact strong etag and a non-empty length'') (\<lambda>_.
       ensure (\<not> (dr_key self = [] \<or> MAX_KEY_BYTES < length (dr_key self)))
         ''lake part delete key is empty or too long'')))))"

definition validate_quarantine :: "delete_request \<Rightarrow> unit res" where
  "validate_quarantine self =
     bind_res (ok_or (parse_quarantine_key (dr_key self))
       ''quarantine delete key is not an exact bronze quarantine key'') (\<lambda>key.
     bind_res (ensure (qk_tenant_uuid key = dr_tenant_uuid self)
       ''lake part delete key is outside the tenant's prefix'') (\<lambda>_.
       ensure (\<not> (dr_removal_seq self \<noteq> None \<or> dr_removal_entry_sha256 self \<noteq> None
           \<or> dr_grace_seconds self \<noteq> None \<or> dr_orphan_min_age_seconds self \<noteq> None
           \<or> dr_retention_day self \<noteq> None \<or> dr_retention_days self \<noteq> None
           \<or> dr_quarantine_min_age_seconds self \<noteq> Some QUARANTINE_MIN_AGE_SECONDS))
         ''quarantine delete fields are not exactly quarantine_min_age_seconds''))"

definition validate_reason ::
  "calendar \<Rightarrow> bool \<Rightarrow> delete_request \<Rightarrow> part_file_key \<Rightarrow> unit res" where
  "validate_reason cal trusted_local self key =
     (case dr_reason self of
        Superseded \<Rightarrow>
          bind_res (ensure (\<not> (\<not> removal_ok self \<or> dr_orphan_min_age_seconds self \<noteq> None
              \<or> dr_retention_day self \<noteq> None \<or> dr_retention_days self \<noteq> None))
            ''superseded delete fields are not exactly removal + grace'') (\<lambda>_.
            ensure (\<not> is_provenance_key key) ''a superseded part keeps its provenance until retention'')
      | Orphan \<Rightarrow>
          ensure (\<not> (dr_removal_seq self \<noteq> None \<or> dr_removal_entry_sha256 self \<noteq> None
              \<or> dr_grace_seconds self \<noteq> None \<or> dr_retention_day self \<noteq> None \<or> dr_retention_days self \<noteq> None
              \<or> \<not> opt_is (\<lambda>age. MIN_ORPHAN_AGE_SECONDS \<le> age \<and> age \<le> MAX_ORPHAN_AGE_SECONDS)
                    (dr_orphan_min_age_seconds self)))
            ''orphan delete fields are not exactly orphan_min_age_seconds''
      | QuarantineExpired \<Rightarrow> Inl (Bail ''quarantine deletes are validated above'')
      | Retention_Delete \<Rightarrow>
          bind_res (ensure (\<not> (\<not> removal_ok self \<or> dr_orphan_min_age_seconds self \<noteq> None
              \<or> \<not> opt_is (retention_days_ok trusted_local) (dr_retention_days self)))
            ''retention delete fields are not exactly removal + grace + retention'') (\<lambda>_.
            ensure (dr_retention_day self = Some (fk_day cal key)) ''retention day is not the key's date path''))"

definition validate_with_local :: "calendar \<Rightarrow> bool \<Rightarrow> delete_request \<Rightarrow> unit res" where
  "validate_with_local cal trusted_local self =
     bind_res (validate_head self) (\<lambda>_.
       if dr_reason self = QuarantineExpired then validate_quarantine self
       else
         bind_res (ensure (dr_quarantine_min_age_seconds self = None)
           ''quarantine_min_age_seconds is only for a quarantine_expired delete'') (\<lambda>_.
         bind_res (ensure (\<not> is_log_key (dr_key self))
           ''part-log entries, checkpoints and HEAD are never deletable'') (\<lambda>_.
         bind_res (ok_or (parse_part_file_key cal (dr_key self))
           ''lake part delete key is not an exact part file key'') (\<lambda>key.
         bind_res (ensure (fk_tenant_uuid key = dr_tenant_uuid self)
           ''lake part delete key is outside the tenant's prefix'') (\<lambda>_.
           validate_reason cal trusted_local self key)))))"

definition request_validate :: "calendar \<Rightarrow> delete_request \<Rightarrow> unit res" where
  "request_validate cal self = validate_with_local cal False self"

text \<open>The members serde writes: an absent optional field is left out.\<close>

definition opt_member :: "string \<Rightarrow> ('a \<Rightarrow> json) \<Rightarrow> 'a option \<Rightarrow> (string \<times> json) list" where
  "opt_member name f x = (case x of None \<Rightarrow> [] | Some v \<Rightarrow> [(name, f v)])"

definition request_value :: "delete_request \<Rightarrow> json" where
  "request_value self =
     JObj ([(''schema_version'', JInt (int (dr_schema_version self))), (''operation'', JStr (dr_operation self)),
            (''tenant_id'', JStr (dr_tenant_id self)), (''tenant_uuid'', JStr (dr_tenant_uuid self)),
            (''bucket'', JStr (dr_bucket self)), (''key'', JStr (dr_key self)),
            (''strong_etag'', JStr (dr_strong_etag self)),
            (''content_length'', JInt (int (dr_content_length self))),
            (''reason'', JStr (reason_str (dr_reason self)))]
       @ opt_member ''removal_seq'' (JInt \<circ> int) (dr_removal_seq self)
       @ opt_member ''removal_entry_sha256'' JStr (dr_removal_entry_sha256 self)
       @ opt_member ''grace_seconds'' (JInt \<circ> int) (dr_grace_seconds self)
       @ opt_member ''orphan_min_age_seconds'' (JInt \<circ> int) (dr_orphan_min_age_seconds self)
       @ opt_member ''retention_day'' JStr (dr_retention_day self)
       @ opt_member ''retention_days'' (JInt \<circ> int) (dr_retention_days self)
       @ opt_member ''quarantine_min_age_seconds'' (JInt \<circ> int) (dr_quarantine_min_age_seconds self))"

definition request_canonical_json :: "(json \<Rightarrow> string) \<Rightarrow> delete_request \<Rightarrow> string" where
  "request_canonical_json scalar self = write_canonical_json scalar (request_value self)"

definition digest_with_local ::
  "calendar \<Rightarrow> (json \<Rightarrow> string) \<Rightarrow> (string \<Rightarrow> string) \<Rightarrow> bool \<Rightarrow> delete_request \<Rightarrow> string res" where
  "digest_with_local cal scalar sha_hex trusted_local self =
     bind_res (validate_with_local cal trusted_local self) (\<lambda>_.
       Inr (sha_hex (request_canonical_json scalar self)))"

definition request_digest ::
  "calendar \<Rightarrow> (json \<Rightarrow> string) \<Rightarrow> (string \<Rightarrow> string) \<Rightarrow> delete_request \<Rightarrow> string res" where
  "request_digest cal scalar sha_hex self = digest_with_local cal scalar sha_hex False self"

definition request_permit_id ::
  "calendar \<Rightarrow> (json \<Rightarrow> string) \<Rightarrow> (string \<Rightarrow> string) \<Rightarrow> delete_request \<Rightarrow> string res" where
  "request_permit_id cal scalar sha_hex self =
     bind_res (request_digest cal scalar sha_hex self) (\<lambda>digest. Inr (''lpd_'' @ digest))"

section \<open>Reading keys back\<close>

lemma split_once_append: "c \<notin> set a \<Longrightarrow> split_once c (a @ c # b) = Some (a, b)"
  by (induction a) auto

lemma splitn_append: "c \<notin> set a \<Longrightarrow> splitn (Suc (Suc n)) c (a @ c # b) = a # splitn (Suc n) c b"
  by (simp add: split_once_append)

declare strip_prefix_append [simp]

lemma strip_suffix_Some: "strip_suffix p s = Some r \<longleftrightarrow> s = r @ p"
  by (auto simp: strip_suffix_def Let_def) (metis append_take_drop_id)

lemma split_once_str_Some: "split_once_str p s = Some (a, b) \<Longrightarrow> s = a @ p @ b"
proof (induction p s arbitrary: a b rule: split_once_str.induct)
  case (2 p x xs)
  then show ?case
    by (cases "strip_prefix p (x # xs)") (auto simp: strip_prefix_Some)
qed (auto split: if_splits)

lemma split_once_str_append:
  "c \<notin> set a \<Longrightarrow> split_once_str (c # p) (a @ (c # p) @ b) = Some (a, b)"
proof (induction a)
  case Nil
  then show ?case using strip_prefix_append [of "c # p" b] by simp
next
  case (Cons x a)
  then have "strip_prefix (c # p) (x # a @ (c # p) @ b) = None"
    by (auto simp: strip_prefix_def)
  then show ?case using Cons by simp
qed

lemma split_on_join:
  assumes "split_on c s = p # ps"
  shows "s = p @ concat (map (\<lambda>q. c # q) ps) \<and> c \<notin> set p"
  using assms
proof (induction s arbitrary: p ps)
  case (Cons x s)
  show ?case
  proof (cases "split_on c s")
    case Nil
    then show ?thesis by (cases s) (auto split: if_splits list.splits)
  next
    case qs: (Cons q qs)
    then have "if x = c then p = [] \<and> ps = q # qs else p = x # q \<and> ps = qs"
      using Cons.prems by (simp split: if_splits)
    then show ?thesis using Cons.IH [OF qs] by (auto split: if_splits)
  qed
qed auto

lemma hex_no_slash: "list_all is_lower_hex s \<Longrightarrow> CHR ''/'' \<notin> set s"
  by (auto simp: list_all_iff is_lower_hex_def is_digit_def)

lemma digits_no_slash: "list_all is_digit s \<Longrightarrow> CHR ''/'' \<notin> set s"
  by (auto simp: list_all_iff is_digit_def)

lemma is_uuid_v4_shape:
  assumes "is_uuid_v4 s"
  shows "length s = 36" and "CHR ''/'' \<notin> set s"
proof -
  obtain a b c d e where abcde: "split_on CHR ''-'' s = [a, b, c, d, e]" "hex_group 8 a" "hex_group 4 b"
    "hex_group 4 c" "hex_group 4 d" "hex_group 12 e"
    using assms by (auto simp: is_uuid_v4_def split: list.splits)
  have s: "s = a @ CHR ''-'' # b @ CHR ''-'' # c @ CHR ''-'' # d @ CHR ''-'' # e"
    using split_on_join [OF abcde(1)] by simp
  show "length s = 36" using abcde by (simp add: s hex_group_def)
  show "CHR ''/'' \<notin> set s" using abcde by (auto simp: s hex_group_def dest: hex_no_slash)
qed

lemma part_id_no_slash:
  assumes "part_id_ok pid"
  shows "CHR ''/'' \<notin> set pid"
proof -
  have "pid = take 13 pid @ pid ! 13 # drop 14 pid"
    using assms id_take_nth_drop [of 13 pid] by (simp add: part_id_ok_iff)
  moreover have "CHR ''/'' \<notin> set (take 13 pid @ pid ! 13 # drop 14 pid)"
    using assms by (auto simp: part_id_ok_iff dest!: digits_no_slash hex_no_slash)
  ultimately show ?thesis by metis
qed

lemma parse_part_path_Some:
  assumes "parse_part_path cal tenant names = Some k"
  shows "\<exists>lvl y m d h. names = [lvl, y, m, d, h, fk_part_id k, fk_file k] \<and> fk_tenant_uuid k = tenant
    \<and> fk_level k = lvl \<and> lvl \<in> {''l0'', ''m'', ''h'', ''d''} \<and> part_id_ok (fk_part_id k) \<and> is_part_file (fk_file k)"
  using assms
  by (auto simp: parse_part_path_def bind_eq_Some_conv split: list.splits if_splits sum.splits dest: part_id_parse_ok)

lemma parse_part_file_key_Some:
  assumes "parse_part_file_key cal key = Some k"
  shows "is_uuid_v4 (fk_tenant_uuid k)" and "part_id_ok (fk_part_id k)" and "is_part_file (fk_file k)"
    and "\<exists>path. key = ''lake/parts/v1/tenant='' @ fk_tenant_uuid k @ ''/parts/'' @ path
      \<and> parse_part_path cal (fk_tenant_uuid k) (splitn 7 CHR ''/'' path) = Some k"
proof -
  obtain tenant path where *: "key = ''lake/parts/v1/tenant='' @ tenant @ ''/parts/'' @ path"
    "is_uuid_v4 tenant" "parse_part_path cal tenant (splitn 7 CHR ''/'' path) = Some k"
    using assms
    by (auto simp: parse_part_file_key_def bind_eq_Some_conv strip_prefix_Some split: if_splits dest: split_once_str_Some)
  note k = parse_part_path_Some [OF *(3)]
  show "is_uuid_v4 (fk_tenant_uuid k)" "part_id_ok (fk_part_id k)" "is_part_file (fk_file k)"
    using * k by auto
  show "\<exists>path. key = ''lake/parts/v1/tenant='' @ fk_tenant_uuid k @ ''/parts/'' @ path
      \<and> parse_part_path cal (fk_tenant_uuid k) (splitn 7 CHR ''/'' path) = Some k"
    using * k by auto
qed

lemma log_key_not_part_file:
  assumes "parse_part_file_key cal key = Some k"
  shows "\<not> is_log_key key"
proof -
  obtain path where "key = ''lake/parts/v1/tenant='' @ fk_tenant_uuid k @ ''/parts/'' @ path"
    using parse_part_file_key_Some(4) [OF assms] by blast
  moreover have "split_once CHR ''/'' (fk_tenant_uuid k @ ''/parts/'' @ path) = Some (fk_tenant_uuid k, ''parts/'' @ path)"
    using split_once_append [OF is_uuid_v4_shape(2) [OF parse_part_file_key_Some(1) [OF assms]], of "''parts/'' @ path"]
    by simp
  ultimately show ?thesis
    using strip_prefix_append [of "''lake/parts/v1/tenant=''"] by (simp add: is_log_key_def starts_with_def)
qed

lemma level_code_no_slash: "CHR ''/'' \<notin> set (level_code l)"
  by (cases l) auto

lemma pad0_no_slash: "CHR ''/'' \<notin> set (pad0 w (dec n))"
  by (rule digits_no_slash) (simp add: pad0_digits dec_digits)

lemma pad0_int_no_slash: "CHR ''/'' \<notin> set (pad0_int w x)"
  by (auto simp: pad0_int_def pad0_no_slash)

lemma length_pad0_dec: "n < 10 ^ w \<Longrightarrow> 0 < w \<Longrightarrow> length (pad0 w (dec n)) = w"
  using length_dec_bound [of n w] by (simp add: length_pad0)

lemma decimal_pad0: "n < 10 ^ w \<Longrightarrow> 0 < w \<Longrightarrow> decimal w (pad0 w (dec n)) = Some n"
  using length_dec_bound [of n w]
  by (simp add: decimal_def length_pad0 pad0_digits dec_digits parse_digits_pad0_dec)

text \<open>The components of a part file's key, as the writer joins them.\<close>

definition hour_names :: "level \<Rightarrow> civil \<Rightarrow> string list" where
  "hour_names level start =
     [level_code level, pad0_int 4 (cv_year start), pad0 2 (dec (cv_month start)), pad0 2 (dec (cv_day start)),
      pad0 2 (dec (if level = Day then 0 else cv_hour start))]"

lemma own_key_path:
  assumes "part_keys_new uuid_canon civil tenant level hour pid = Inr dir" "is_uuid_v4 tenant" "part_id_ok pid"
  shows "\<exists>start path. civil (hour * 3600) = Some start \<and> (level = Day \<longrightarrow> cv_hour start = 0)
    \<and> part_file dir name = ''lake/parts/v1/tenant='' @ tenant @ ''/parts/'' @ path
    \<and> length path = length (concat (hour_names level start)) + length pid + length name + 6
    \<and> splitn 7 CHR ''/'' path = hour_names level start @ [pid, name]"
proof -
  let ?j = "\<lambda>start. level_code level @ CHR ''/'' # pad0_int 4 (cv_year start) @ CHR ''/'' # pad0 2 (dec (cv_month start))
    @ CHR ''/'' # pad0 2 (dec (cv_day start)) @ CHR ''/'' # pad0 2 (dec (if level = Day then 0 else cv_hour start))
    @ CHR ''/'' # pid @ CHR ''/'' # name"
  obtain start where start: "civil (hour * 3600) = Some start" "level = Day \<longrightarrow> cv_hour start = 0"
    "part_file dir name = ''lake/parts/v1/tenant='' @ tenant @ ''/parts/'' @ ?j start"
    using assms(1) by (auto simp: part_keys_new_def part_file_def tenant_root_def PARTS_ROOT_def res_simps)
  have seven: "splitn 7 c s = splitn (Suc (Suc (Suc (Suc (Suc (Suc (Suc 0))))))) c s" for c s
    by (simp only: eval_nat_numeral BitM.simps)
  have "splitn 7 CHR ''/'' (?j start) = hour_names level start @ [pid, name]"
    unfolding seven hour_names_def
    by (simp add: splitn_append level_code_no_slash pad0_no_slash pad0_int_no_slash part_id_no_slash [OF assms(3)]
        del: splitn.simps(3))
  then show ?thesis using start by (auto simp: hour_names_def)
qed

lemma parse_own_key:
  assumes "part_keys_new uuid_canon civil tenant level hour pid = Inr dir" "is_uuid_v4 tenant" "part_id_ok pid"
  shows "\<exists>start. civil (hour * 3600) = Some start \<and> (level = Day \<longrightarrow> cv_hour start = 0)
    \<and> parse_part_file_key cal (part_file dir name) =
      (if MAX_KEY_BYTES < 94 + length (concat (hour_names level start)) + length name + 6 then None
       else parse_part_path cal tenant (hour_names level start @ [pid, name]))"
proof -
  obtain start path where *: "civil (hour * 3600) = Some start" "level = Day \<longrightarrow> cv_hour start = 0"
    "part_file dir name = ''lake/parts/v1/tenant='' @ tenant @ ''/parts/'' @ path"
    "length path = length (concat (hour_names level start)) + length pid + length name + 6"
    "splitn 7 CHR ''/'' path = hour_names level start @ [pid, name]"
    using own_key_path [OF assms] by blast
  have "split_once_str ''/parts/'' (tenant @ ''/parts/'' @ path) = Some (tenant, path)"
    by (rule split_once_str_append) (rule is_uuid_v4_shape(2) [OF assms(2)])
  moreover have "length (part_file dir name) = 94 + length (concat (hour_names level start)) + length name + 6"
    using * is_uuid_v4_shape(1) [OF assms(2)] assms(3) by (simp add: part_id_ok_iff)
  ultimately show ?thesis
    using * assms(2) strip_prefix_append [of "''lake/parts/v1/tenant=''"]
    by (auto simp: parse_part_file_key_def)
qed

text \<open>Whatever its file, a key under a part's directory is read as a key of that part.\<close>

lemma own_key_part:
  assumes "part_keys_new uuid_canon civil tenant level hour pid = Inr dir" "is_uuid_v4 tenant" "part_id_ok pid"
    and "parse_part_file_key cal (part_file dir name) = Some k"
  shows "fk_part_id k = pid \<and> fk_tenant_uuid k = tenant \<and> fk_file k = name"
proof -
  obtain start where "parse_part_path cal tenant (hour_names level start @ [pid, name]) = Some k"
    using parse_own_key [OF assms(1-3), of cal name] assms(4) by (auto split: if_splits)
  then show ?thesis using parse_part_path_Some [of cal tenant _ k] by (fastforce simp: hour_names_def)
qed

text \<open>What is relied on of the calendar: a date from 1970 on reads back as its day.\<close>

definition calendar_ok :: "calendar \<Rightarrow> bool" where
  "calendar_ok cal \<longleftrightarrow>
     (\<forall>t c. cal_civil cal t = Some c \<and> 1970 \<le> cv_year c \<longrightarrow>
        cal_from_ymd cal (nat (cv_year c)) (cv_month c) (cv_day c) = Some (t div 86400)
        \<and> int (cv_hour c) = t mod 86400 div 3600 \<and> cv_month c \<le> 12 \<and> cv_day c \<le> 31)"

lemma indexed_file_length: "indexed_file file p s \<Longrightarrow> length file = length p + 5 + length s"
  by (auto simp: indexed_file_def bind_eq_Some_conv strip_prefix_Some strip_suffix_Some decimal_def
      split: option.splits if_splits)

lemma is_part_file_length:
  assumes "is_part_file file"
  shows "length file \<le> 88"
proof -
  have "is_pending_file file \<Longrightarrow> length file \<le> 88"
    by (auto simp: is_pending_file_def bind_eq_Some_conv strip_prefix_Some strip_suffix_Some is_sha256_hex_def
        split: option.splits)
  moreover have "is_count_file file \<Longrightarrow> length file \<le> 88"
    by (auto simp: is_count_file_def bind_eq_Some_conv strip_prefix_Some strip_suffix_Some hex_group_def
        split: option.splits)
  moreover have "is_indexed_file file \<Longrightarrow> length file \<le> 88"
    by (auto simp: is_indexed_file_def dest: indexed_file_length)
  moreover have "file \<in> set PART_FILE_NAMES \<Longrightarrow> length file \<le> 88"
    by (auto simp: PART_FILE_NAMES_def)
  ultimately show ?thesis using assms unfolding is_part_file_def by blast
qed

lemma part_id_ascii:
  assumes "part_id_ok pid"
  shows "is_ascii pid"
proof -
  have "pid = take 13 pid @ pid ! 13 # drop 14 pid"
    using assms id_take_nth_drop [of 13 pid] by (simp add: part_id_ok_iff)
  moreover have "is_ascii (take 13 pid @ pid ! 13 # drop 14 pid)"
    using assms by (auto simp: part_id_ok_iff is_ascii_def list_all_iff is_digit_def is_lower_hex_def)
  ultimately show ?thesis by metis
qed

lemma hour_seconds: "(hour * 3600) div 86400 * 86400 + (hour * 3600) mod 86400 div 3600 * 3600 = hour * (3600 :: int)"
proof -
  have "(hour * 3600) div (24 * 3600) = hour div 24" "(hour * 3600) mod (24 * 3600) = hour mod 24 * 3600"
    by (simp_all only: div_mult_mult2 mult_mod_left)
  moreover have "hour div 24 * 86400 + hour mod 24 * 3600 = hour * 3600"
    using div_mult_mod_eq [of hour 24] by linarith
  ultimately show ?thesis by simp
qed

lemma parse_own_path:
  assumes "calendar_ok cal" "cal_civil cal (hour * 3600) = Some start" "level = Day \<longrightarrow> cv_hour start = 0"
    and "1970 \<le> cv_year start" "cv_year start \<le> 9999" "part_id_ok pid" "is_part_file name"
  shows "parse_part_path cal tenant (hour_names level start @ [pid, name]) =
    Some \<lparr> fk_tenant_uuid = tenant, fk_level = level_code level, fk_path_hour = hour * 3600,
           fk_part_id = pid, fk_file = name \<rparr>"
proof -
  have c: "cal_from_ymd cal (nat (cv_year start)) (cv_month start) (cv_day start) = Some (hour * 3600 div 86400)"
    "int (cv_hour start) = hour * 3600 mod 86400 div 3600" "cv_month start \<le> 12" "cv_day start \<le> 31"
    using assms(1,2,4) by (auto simp: calendar_ok_def)
  define h where "h = (if level = Day then 0 else cv_hour start)"
  have h: "h = cv_hour start" using assms(3) by (simp add: h_def)
  have h24: "h < 24" using c(2) h by (simp flip: of_nat_less_iff)
  have "path_hour_of cal (nat (cv_year start)) (cv_month start) (cv_day start) h = Some (hour * 3600)"
    using c h h24 hour_seconds [of hour] by (simp add: path_hour_of_def)
  moreover have "decimal 4 (pad0_int 4 (cv_year start)) = Some (nat (cv_year start))"
    using assms(4,5) by (simp add: pad0_int_def decimal_pad0)
  moreover have "decimal 2 (pad0 2 (dec (cv_month start))) = Some (cv_month start)"
    "decimal 2 (pad0 2 (dec (cv_day start))) = Some (cv_day start)" "decimal 2 (pad0 2 (dec h)) = Some h"
    using c h24 by (simp_all add: decimal_pad0)
  moreover have "level_code level \<in> {''l0'', ''m'', ''h'', ''d''}" "level_code level = ''d'' \<Longrightarrow> h = 0"
    by (cases level; simp add: h_def)+
  ultimately show ?thesis
    using assms(4-7) part_id_ascii [OF assms(6)]
    by (auto simp: parse_part_path_def hour_names_def simp flip: h_def)
qed

lemma parse_built_key:
  assumes "calendar_ok cal" "is_uuid_v4 tenant" "part_id_ok pid" "is_part_file name"
    and "part_keys_new uuid_canon (cal_civil cal) tenant level hour pid = Inr dir"
    and "\<forall>start. cal_civil cal (hour * 3600) = Some start \<longrightarrow> 1970 \<le> cv_year start \<and> cv_year start \<le> 9999"
  shows "parse_part_file_key cal (part_file dir name) =
    Some \<lparr> fk_tenant_uuid = tenant, fk_level = level_code level, fk_path_hour = hour * 3600,
           fk_part_id = pid, fk_file = name \<rparr>"
proof -
  obtain start where start: "cal_civil cal (hour * 3600) = Some start" "level = Day \<longrightarrow> cv_hour start = 0"
    "parse_part_file_key cal (part_file dir name) =
      (if MAX_KEY_BYTES < 94 + length (concat (hour_names level start)) + length name + 6 then None
       else parse_part_path cal tenant (hour_names level start @ [pid, name]))"
    using parse_own_key [OF assms(5,2,3)] by blast
  have year: "1970 \<le> cv_year start" "cv_year start \<le> 9999" using assms(6) start(1) by auto
  have "int (cv_hour start) = hour * 3600 mod 86400 div 3600" "cv_month start \<le> 12" "cv_day start \<le> 31"
    using assms(1) start(1) year(1) by (auto simp: calendar_ok_def)
  then have "cv_hour start < 100" "cv_month start < 100" "cv_day start < 100"
    by (simp_all flip: of_nat_less_iff)
  then have "length (concat (hour_names level start)) \<le> 12"
    using year by (cases level) (simp_all add: hour_names_def length_pad0_dec pad0_int_def)
  then show ?thesis
    using start(3) is_part_file_length [OF assms(4)] parse_own_path [OF assms(1) start(1,2) year assms(3,4)]
    by (simp add: MAX_KEY_BYTES_def)
qed

text \<open>
  C22: the delete planner reads a part's keys exactly as the writer builds them: for every part file
  name, level and hour from 1970 to 9999, the key under the part's directory parses to the tenant,
  level, hour, part id and file it was built from.
\<close>

theorem part_file_key_roundtrip:
  assumes "calendar_ok cal" "is_uuid_v4 tenant" "part_id_ok pid" "is_part_file name"
    and "part_keys_new uuid_canon (cal_civil cal) tenant level hour pid = Inr dir"
    and "\<forall>start. cal_civil cal (hour * 3600) = Some start \<longrightarrow> 1970 \<le> cv_year start \<and> cv_year start \<le> 9999"
  shows "parse_part_file_key cal (part_file dir name) =
    Some \<lparr> fk_tenant_uuid = tenant, fk_level = level_code level, fk_path_hour = hour * 3600,
           fk_part_id = pid, fk_file = name \<rparr>"
  using assms by (rule parse_built_key)

text \<open>A calendar that knows one day, 2026-09-24.\<close>

definition demo_calendar :: calendar where
  "demo_calendar =
     \<lparr> cal_from_ymd = (\<lambda>y m d. if y = 2026 \<and> m = 9 \<and> d = 24 then Some 20720 else None),
       cal_civil = (\<lambda>t. if t div 86400 = 20720
         then Some \<lparr> cv_year = 2026, cv_month = 9, cv_day = 24, cv_hour = nat (t mod 86400 div 3600) \<rparr> else None) \<rparr>"

lemma demo_calendar_ok: "calendar_ok demo_calendar"
  by (auto simp: calendar_ok_def demo_calendar_def split: if_splits intro!: pos_imp_zdiv_nonneg_iff [THEN iffD2])

definition demo_tenant :: string where "demo_tenant = ''0a1b2c3d-0000-4000-8000-00000000000f''"

definition demo_part_id :: part_id where "demo_part_id = ''1790280000123-9f86d081884c7d65''"

lemma demo_tenant_ok: "is_uuid_v4 demo_tenant"
  by code_simp

definition demo_dir :: "level \<Rightarrow> part_id \<Rightarrow> string" where
  "demo_dir lvl pid =
     ''lake/parts/v1/tenant='' @ demo_tenant @ ''/parts/'' @ level_code lvl @ ''/2026/09/24/20/'' @ pid"

lemma demo_part_keys:
  "lvl \<noteq> Day \<Longrightarrow> part_keys_new Some (cal_civil demo_calendar) demo_tenant lvl 497300 pid = Inr (demo_dir lvl pid)"
  by (simp add: part_keys_new_def validate_tenant_uuid_def demo_calendar_def tenant_root_def PARTS_ROOT_def
      demo_dir_def pad0_int_def pad0_def dec.simps digit_char_def char_of_def bit_0)

lemma demo_part_id_ok: "part_id_ok demo_part_id"
  by code_simp

lemma demo_file_ok: "is_part_file ''data-00007.parquet''"
  by (simp add: is_part_file_def is_indexed_file_def indexed_file_def strip_prefix_def strip_suffix_def decimal_def
      parse_digits_def is_digit_def digit_val_def MAX_DATA_FILES_def)

lemma demo_civil: "\<forall>start. cal_civil demo_calendar (497300 * 3600) = Some start \<longrightarrow> 1970 \<le> cv_year start \<and> cv_year start \<le> 9999"
  by (simp add: demo_calendar_def)

theorem part_file_key_roundtrip_witness:
  "parse_part_file_key demo_calendar (part_file (demo_dir Hour demo_part_id) ''data-00007.parquet'') =
     Some \<lparr> fk_tenant_uuid = demo_tenant, fk_level = ''h'', fk_path_hour = 497300 * 3600,
            fk_part_id = demo_part_id, fk_file = ''data-00007.parquet'' \<rparr>"
  using part_file_key_roundtrip [OF demo_calendar_ok demo_tenant_ok demo_part_id_ok demo_file_ok demo_part_keys demo_civil, of Hour]
  by simp

section \<open>What a valid request names\<close>

lemma validate_part_request:
  assumes "validate_with_local cal local r = Inr ()" "dr_reason r \<noteq> QuarantineExpired"
  shows "\<exists>k. parse_part_file_key cal (dr_key r) = Some k \<and> fk_tenant_uuid k = dr_tenant_uuid r
    \<and> validate_reason cal local r k = Inr ()"
  using assms by (auto simp: validate_with_local_def res_simps split: if_splits)

lemma map_of_insort: "map_of (insort_key fst (k, v) m) = (map_of m)(k \<mapsto> v)"
  by (induction m) auto

lemma map_of_sort_key: "map_of (sort_key fst m) = map_of m"
  by (induction m) (auto simp: sort_key_def map_of_insort)

lemma map_of_members:
  "json_norm (JObj a) = json_norm (JObj b) \<Longrightarrow> map_option json_norm (map_of a k) = map_option json_norm (map_of b k)"
proof -
  assume "json_norm (JObj a) = json_norm (JObj b)"
  then have "sort_key fst (map (\<lambda>(k, v). (k, json_norm v)) a) = sort_key fst (map (\<lambda>(k, v). (k, json_norm v)) b)"
    by simp
  then have "map_of (map (\<lambda>(k, v). (k, json_norm v)) a) = map_of (map (\<lambda>(k, v). (k, json_norm v)) b)"
    by (metis map_of_sort_key)
  then show ?thesis by (simp add: map_of_map fun_eq_iff)
qed

lemma map_of_opt_member:
  "map_of (opt_member n f x @ rest) k = (if k = n \<and> x \<noteq> None then map_option f x else map_of rest k)"
  "map_of (opt_member n f x) k = (if k = n then map_option f x else None)"
  by (auto simp: opt_member_def split: option.splits)

lemma reason_str_inj: "reason_str a = reason_str b \<Longrightarrow> a = b"
  by (cases a; cases b) simp_all

definition request_members :: "delete_request \<Rightarrow> (string \<times> json) list" where
  "request_members r = (case request_value r of JObj m \<Rightarrow> m | _ \<Rightarrow> [])"

lemma request_value_members: "request_value r = JObj (request_members r)"
  by (simp add: request_members_def request_value_def)

lemma request_lookup:
  "map_of (request_members r) ''schema_version'' = Some (JInt (int (dr_schema_version r)))"
  "map_of (request_members r) ''operation'' = Some (JStr (dr_operation r))"
  "map_of (request_members r) ''tenant_id'' = Some (JStr (dr_tenant_id r))"
  "map_of (request_members r) ''tenant_uuid'' = Some (JStr (dr_tenant_uuid r))"
  "map_of (request_members r) ''bucket'' = Some (JStr (dr_bucket r))"
  "map_of (request_members r) ''key'' = Some (JStr (dr_key r))"
  "map_of (request_members r) ''strong_etag'' = Some (JStr (dr_strong_etag r))"
  "map_of (request_members r) ''content_length'' = Some (JInt (int (dr_content_length r)))"
  "map_of (request_members r) ''reason'' = Some (JStr (reason_str (dr_reason r)))"
  "map_of (request_members r) ''removal_seq'' = map_option (JInt \<circ> int) (dr_removal_seq r)"
  "map_of (request_members r) ''removal_entry_sha256'' = map_option JStr (dr_removal_entry_sha256 r)"
  "map_of (request_members r) ''grace_seconds'' = map_option (JInt \<circ> int) (dr_grace_seconds r)"
  "map_of (request_members r) ''orphan_min_age_seconds'' = map_option (JInt \<circ> int) (dr_orphan_min_age_seconds r)"
  "map_of (request_members r) ''retention_day'' = map_option JStr (dr_retention_day r)"
  "map_of (request_members r) ''retention_days'' = map_option (JInt \<circ> int) (dr_retention_days r)"
  "map_of (request_members r) ''quarantine_min_age_seconds'' = map_option (JInt \<circ> int) (dr_quarantine_min_age_seconds r)"
  by (simp_all add: request_members_def request_value_def map_of_opt_member del: map_of_append)

lemma lookup_inj:
  "map_option json_norm (Some (JInt (int x))) = map_option json_norm (Some (JInt (int y))) \<Longrightarrow> x = y"
  "map_option json_norm (Some (JStr s)) = map_option json_norm (Some (JStr t)) \<Longrightarrow> s = t"
  "map_option json_norm (map_option (JInt \<circ> int) u) = map_option json_norm (map_option (JInt \<circ> int) v) \<Longrightarrow> u = v"
  "map_option json_norm (map_option JStr p) = map_option json_norm (map_option JStr q) \<Longrightarrow> p = q"
  by (auto simp: map_option_case split: option.splits)

lemma request_value_inj:
  assumes "json_norm (request_value a) = json_norm (request_value b)"
  shows "a = b"
proof -
  have eq: "map_option json_norm (map_of (request_members a) k) = map_option json_norm (map_of (request_members b) k)" for k
    using assms unfolding request_value_members by (rule map_of_members)
  show ?thesis
    by (rule delete_request.equality,
        ((rule reason_str_inj)?, rule lookup_inj, subst (1 2) request_lookup [symmetric], rule eq)+, simp)
qed

text \<open>
  C23: the digest the owner signs binds the whole request. Two valid requests with one digest are the
  same request in every field (tenant, key, etag, length, reason and all that the reason carries),
  or they exhibit a collision of the hash.
\<close>

theorem delete_digest_binds:
  assumes "self_delimiting scalar"
    and "digest_with_local cal scalar sha_hex loc a = Inr d" "digest_with_local cal scalar sha_hex loc b = Inr d"
  shows "a = b \<or> (\<exists>x y. x \<noteq> y \<and> sha_hex x = sha_hex y)"
proof (cases "request_canonical_json scalar a = request_canonical_json scalar b")
  case True
  then have "json_norm (request_value a) = json_norm (request_value b)"
    using write_readback [OF assms(1), of "[]" "[]" "request_value a" "request_value b"]
    by (simp del: json_norm.simps add: request_canonical_json_def delimited_def)
  then have "a = b" by (rule request_value_inj)
  then show ?thesis by simp
next
  case False
  moreover have "sha_hex (request_canonical_json scalar a) = sha_hex (request_canonical_json scalar b)"
    using assms(2,3) by (auto simp: digest_with_local_def res_simps)
  ultimately show ?thesis by blast
qed

definition demo_request :: delete_request where
  "demo_request =
     (request_base ''acme'' demo_tenant (part_file (demo_dir Hour demo_part_id) ''data-00007.parquet'') (CHR 0x22 # ''a'' @ [CHR 0x22]) 5
       Superseded)\<lparr> dr_removal_seq := Some 3, dr_removal_entry_sha256 := Some (replicate 64 CHR ''a''),
         dr_grace_seconds := Some MIN_GRACE_SECONDS \<rparr>"

lemma demo_request_valid: "validate_with_local demo_calendar False demo_request = Inr ()"
proof -
  let ?key = "part_file (demo_dir Hour demo_part_id) ''data-00007.parquet''"
  note parsed = parse_built_key [OF demo_calendar_ok demo_tenant_ok demo_part_id_ok demo_file_ok demo_part_keys demo_civil, of Hour]
  have "length ?key \<le> MAX_KEY_BYTES" "?key \<noteq> []"
    by (simp_all add: part_file_def demo_dir_def demo_tenant_def demo_part_id_def MAX_KEY_BYTES_def)
  then have "validate_head demo_request = Inr ()"
    using demo_tenant_ok
    by (simp add: validate_head_def demo_request_def request_base_def is_slug_def slug_char_def is_digit_def
        is_strong_etag_def is_control_def)
  moreover have "removal_ok demo_request"
    by (simp add: removal_ok_def demo_request_def request_base_def opt_is_def is_sha256_hex_def is_lower_hex_def
        list_all_iff MIN_GRACE_SECONDS_def MAX_GRACE_SECONDS_def)
  moreover have "dr_key demo_request = ?key" "dr_reason demo_request = Superseded"
    "dr_tenant_uuid demo_request = demo_tenant" "dr_orphan_min_age_seconds demo_request = None"
    "dr_retention_day demo_request = None" "dr_retention_days demo_request = None"
    "dr_quarantine_min_age_seconds demo_request = None"
    by (simp_all add: demo_request_def request_base_def)
  ultimately show ?thesis
    using parsed log_key_not_part_file [OF parsed]
    by (simp add: validate_with_local_def validate_reason_def is_provenance_key_def PROVENANCE_FILE_def)
qed

theorem delete_digest_binds_witness:
  "\<exists>d. digest_with_local demo_calendar demo_scalar (\<lambda>x. x) False demo_request = Inr d
     \<and> (\<forall>b. digest_with_local demo_calendar demo_scalar (\<lambda>x. x) False b = Inr d \<longrightarrow> demo_request = b)"
proof -
  obtain d where "digest_with_local demo_calendar demo_scalar (\<lambda>x. x) False demo_request = Inr d"
    by (simp add: digest_with_local_def demo_request_valid)
  then show ?thesis using delete_digest_binds [OF demo_self_delimiting] by blast
qed

end
