(* ===== verification/Gc_Planner.thy ===== *)
theory Gc_Planner
  imports Gc_Request Part_Log_Props
begin

text \<open>
  The verified log view and the pure delete planner (\<open>lake_part_gc/planner.rs\<close>), with the memory of
  refused keys the planner consults (\<open>RefusedKeys\<close> of \<open>lake_part_gc/executor.rs\<close>). The view is the
  inline one (live set, known ids and removals in memory); the guarded cell's SQLite pages are not
  modelled. Reading an adopted part's verified provenance is the argument \<open>reader\<close>.
\<close>

section \<open>The log view\<close>

definition DAY_MS :: int where "DAY_MS = 86400000"

datatype removal_kind = RMerge | RRewrite | RRetire

record removal =
  rm_seq :: nat
  rm_entry_sha256 :: string
  rm_kind :: removal_kind
  rm_committed_at_ms :: int

record log_view =
  gv_live :: live_set
  gv_known :: "part_id bset"
  gv_removals :: "(part_id, removal) bmap"
  gv_from_genesis :: bool
  gv_adopted_keys :: "(part_id, string) bmap"

definition gc_genesis :: log_view where
  "gc_genesis =
     \<lparr> gv_live = empty_live_set, gv_known = [], gv_removals = [], gv_from_genesis = True, gv_adopted_keys = [] \<rparr>"

definition gc_from_checkpoint :: "checkpoint \<Rightarrow> log_view res" where
  "gc_from_checkpoint cp =
     bind_res (from_checkpoint cp) (\<lambda>live.
       Inr \<lparr> gv_live = live, gv_known = fold (\<lambda>(pid, _). bput pid ()) (ls_live live) [], gv_removals = [],
             gv_from_genesis = False, gv_adopted_keys = [] \<rparr>)"

definition gc_remove :: "removal \<Rightarrow> part_id list \<Rightarrow> (part_id, removal) bmap \<Rightarrow> (part_id, removal) bmap" where
  "gc_remove m ids removals = fold (\<lambda>pid. bput pid m) ids removals"

definition gc_removals_of :: "log_entry \<Rightarrow> string \<Rightarrow> (part_id, removal) bmap \<Rightarrow> (part_id, removal) bmap" where
  "gc_removals_of entry sha removals =
     (let rm = (\<lambda>kind. \<lparr> rm_seq = le_seq entry, rm_entry_sha256 = sha, rm_kind = kind,
                          rm_committed_at_ms = le_appended_at_ms entry \<rparr>) in
      case le_op entry of
        Merge _ supersedes \<Rightarrow> gc_remove (rm RMerge) supersedes removals
      | Rewrite _ supersedes _ \<Rightarrow> gc_remove (rm RRewrite) supersedes removals
      | Retire ids _ _ \<Rightarrow> gc_remove (rm RRetire) ids removals
      | _ \<Rightarrow> removals)"

definition gc_known_of :: "log_entry \<Rightarrow> part_id bset \<Rightarrow> part_id bset" where
  "gc_known_of entry known =
     (case le_op entry of
        Add parts _ _ \<Rightarrow> fold (\<lambda>part. bput (pt_part_id part) ()) parts known
      | Adopt parts \<Rightarrow> fold (\<lambda>part. bput (pt_part_id part) ()) parts known
      | Merge output _ \<Rightarrow> bput (pt_part_id output) () known
      | Rewrite output _ _ \<Rightarrow> bput (pt_part_id output) () known
      | _ \<Rightarrow> known)"

definition gc_apply :: "log_crates \<Rightarrow> log_view \<Rightarrow> log_entry \<Rightarrow> string \<Rightarrow> unit res \<times> log_view" where
  "gc_apply lc view entry sha =
     (case live_apply lc (gv_live view) entry sha of
        (Inl e, live) \<Rightarrow> (Inl e, view\<lparr> gv_live := live \<rparr>)
      | (Inr _, live) \<Rightarrow>
          (Inr (), view\<lparr> gv_live := live, gv_removals := gc_removals_of entry sha (gv_removals view),
                          gv_known := gc_known_of entry (gv_known view) \<rparr>))"

definition gc_head_seq :: "log_view \<Rightarrow> nat option" where
  "gc_head_seq view = map_option fst (ls_head (gv_live view))"

definition gc_part_count :: "log_view \<Rightarrow> nat" where
  "gc_part_count view = sat_add_u64 (length (gv_known view)) (length (gv_removals view))"

definition gc_is_live :: "log_view \<Rightarrow> part_id \<Rightarrow> bool" where
  "gc_is_live view pid \<longleftrightarrow> map_of (ls_live (gv_live view)) pid \<noteq> None"

definition gc_is_known :: "log_view \<Rightarrow> part_id \<Rightarrow> bool" where
  "gc_is_known view pid \<longleftrightarrow> bhas (gv_known view) pid"

definition gc_removal :: "log_view \<Rightarrow> part_id \<Rightarrow> removal option" where
  "gc_removal view pid = map_of (gv_removals view) pid"

section \<open>Keys of live parts\<close>

type_synonym key_builder = "level \<Rightarrow> int \<Rightarrow> part_id \<Rightarrow> string res"

definition indexed_names :: "nat \<Rightarrow> string list" where
  "indexed_names index =
     [data_file_name index, tokens_file_name index, ''uids-'' @ pad0 5 (dec index) @ ''.json'',
      ''entities-'' @ pad0 5 (dec index) @ ''.json'', ''locators-'' @ pad0 5 (dec index) @ ''.json'',
      ''ranges-'' @ pad0 5 (dec index) @ ''.json'']"

definition part_dir_keys :: "string \<Rightarrow> nat \<Rightarrow> string list" where
  "part_dir_keys dir data_files =
     map (part_file dir)
       (concat (map indexed_names [0..<data_files])
        @ [PROVENANCE_FILE, PARTIAL_ROLLUP_FILE, PARTIAL_PREVALENCE_FILE, PARTIAL_ENTITY_RANGES_FILE, PARTIAL_RISK_FILE])"

definition insert_all :: "string list \<Rightarrow> string bset \<Rightarrow> string bset" where
  "insert_all names keys = fold (\<lambda>name. bput name ()) names keys"

text \<open>The object an adopted part serves from, read from its verified provenance unless cached.\<close>

definition adopted_key ::
  "(part_ref \<Rightarrow> provenance_record res) \<Rightarrow> part_ref \<Rightarrow> string \<Rightarrow> (part_id, string) bmap \<Rightarrow> (string \<times> (part_id, string) bmap) res"
where
  "adopted_key reader part dir adopted =
     (case map_of adopted (pt_part_id part) of
        Some key \<Rightarrow> Inr (key, adopted)
      | None \<Rightarrow>
          bind_res (reader part) (\<lambda>record.
          bind_res (ok_or (data_key record dir 0) ''adopted part has no data file'') (\<lambda>key.
            Inr (key, bput (pt_part_id part) key adopted))))"

fun live_keys_loop ::
  "key_builder \<Rightarrow> (part_ref \<Rightarrow> provenance_record res) \<Rightarrow> part_ref list \<Rightarrow> string bset \<Rightarrow> (part_id, string) bmap
   \<Rightarrow> string bset res \<times> (part_id, string) bmap"
where
  "live_keys_loop keys_new reader [] keys adopted = (Inr keys, adopted)"
| "live_keys_loop keys_new reader (part # rest) keys adopted =
     (case keys_new (pt_level part) (pt_event_hour part) (pt_part_id part) of
        Inl e \<Rightarrow> (Inl (Bail ''live part has no key layout''), adopted)
      | Inr dir \<Rightarrow>
          let keys = insert_all (part_dir_keys dir (pt_data_files part)) keys in
          if pt_sorted part then live_keys_loop keys_new reader rest keys adopted
          else
            case adopted_key reader part dir adopted of
              Inl e \<Rightarrow> (Inl e, adopted)
            | Inr (key, adopted') \<Rightarrow> live_keys_loop keys_new reader rest (bput key () keys) adopted')"

definition live_part_keys ::
  "(string \<Rightarrow> string option) \<Rightarrow> calendar \<Rightarrow> string \<Rightarrow> log_view \<Rightarrow> (part_ref \<Rightarrow> provenance_record res)
   \<Rightarrow> string bset res \<times> log_view"
where
  "live_part_keys canon cal tenant_uuid view reader =
     (let live = ls_live (gv_live view);
          cached = bretain (\<lambda>pid _. map_of live pid \<noteq> None) (gv_adopted_keys view) in
      case live_keys_loop (part_keys_new canon (cal_civil cal) tenant_uuid) reader (map snd live) [] cached of
        (r, adopted) \<Rightarrow> (r, view\<lparr> gv_adopted_keys := adopted \<rparr>))"

section \<open>Refused keys\<close>

definition REFUSED_KEY_TTL_MS :: int where "REFUSED_KEY_TTL_MS = 3600000"

definition UNAUTHORIZABLE_KEY_TTL_MS :: int where "UNAUTHORIZABLE_KEY_TTL_MS = 24 * 3600000"
definition OBJECT_NOT_FOUND :: string where "OBJECT_NOT_FOUND = ''lake_part_object_not_found''"
definition MAX_REFUSED_KEYS :: nat where "MAX_REFUSED_KEYS = 65536"

record refused_key =
  rf_until_ms :: int
  rf_reason :: string

text \<open>The hash map is a sorted list of its entries; where the code iterates over it, the order of
  the iteration is the argument \<open>iter\<close>.\<close>

record refused_keys =
  rk_keys :: "(string, refused_key) bmap"
  rk_dirty :: bool

definition rk_is_refused :: "refused_keys \<Rightarrow> string \<Rightarrow> int \<Rightarrow> bool" where
  "rk_is_refused self key now_ms = opt_is (\<lambda>refused. now_ms < rf_until_ms refused) (map_of (rk_keys self) key)"

definition rk_prune :: "refused_keys \<Rightarrow> int \<Rightarrow> refused_keys" where
  "rk_prune self now_ms =
     (let keys = bretain (\<lambda>_ refused. now_ms < rf_until_ms refused) (rk_keys self) in
      self\<lparr> rk_keys := keys, rk_dirty := (rk_dirty self \<or> length keys \<noteq> length (rk_keys self)) \<rparr>)"

text \<open>\<open>min_by_key\<close>: the first of the least entries.\<close>

fun min_until :: "(string \<times> refused_key) list \<Rightarrow> string option" where
  "min_until [] = None"
| "min_until [(key, _)] = Some key"
| "min_until ((key, a) # (key', b) # rest) =
     (if rf_until_ms a \<le> rf_until_ms b then min_until ((key, a) # rest) else min_until ((key', b) # rest))"

type_synonym iteration = "(string, refused_key) bmap \<Rightarrow> (string \<times> refused_key) list"

definition rk_make_room :: "iteration \<Rightarrow> refused_keys \<Rightarrow> string \<Rightarrow> int \<Rightarrow> refused_keys" where
  "rk_make_room iter self key now_ms =
     (if MAX_REFUSED_KEYS \<le> length (rk_keys self) \<and> \<not> bhas (rk_keys self) key
      then
        (let self = rk_prune self now_ms in
         if MAX_REFUSED_KEYS \<le> length (rk_keys self)
         then (case min_until (iter (rk_keys self)) of
                 None \<Rightarrow> self
               | Some soonest \<Rightarrow> self\<lparr> rk_keys := bdel soonest (rk_keys self) \<rparr>)
         else self)
      else self)"

definition refusal_ttl :: "string \<Rightarrow> int" where
  "refusal_ttl reason = (if reason = OBJECT_NOT_FOUND then UNAUTHORIZABLE_KEY_TTL_MS else REFUSED_KEY_TTL_MS)"

definition rk_remember :: "iteration \<Rightarrow> refused_keys \<Rightarrow> string \<Rightarrow> string \<Rightarrow> int \<Rightarrow> refused_keys" where
  "rk_remember iter self key reason now_ms =
     (let self = rk_make_room iter self key now_ms in
      self\<lparr> rk_keys := bput key \<lparr> rf_until_ms = sat_add_i64 now_ms (refusal_ttl reason), rf_reason = reason \<rparr>
               (rk_keys self),
            rk_dirty := True \<rparr>)"

definition rk_count :: "refused_keys \<Rightarrow> string \<Rightarrow> int \<Rightarrow> nat" where
  "rk_count self reason now_ms =
     length (filter (\<lambda>(_, refused). rf_reason refused = reason \<and> now_ms < rf_until_ms refused) (rk_keys self))"

definition rk_take_dirty :: "refused_keys \<Rightarrow> bool \<times> refused_keys" where
  "rk_take_dirty self = (rk_dirty self, self\<lparr> rk_dirty := False \<rparr>)"

section \<open>The planner\<close>

record listed_part_object =
  lp_key :: string
  lp_strong_etag :: string
  lp_content_length :: nat
  lp_uploaded_at_ms :: int

record gc_policy =
  gp_grace_seconds :: nat
  gp_orphan_min_age_seconds :: nat
  gp_retention_days :: "nat option"
  gp_max_requests :: nat

definition default_gc_policy :: gc_policy where
  "default_gc_policy =
     \<lparr> gp_grace_seconds = MIN_GRACE_SECONDS, gp_orphan_min_age_seconds = MIN_ORPHAN_AGE_SECONDS,
       gp_retention_days = None, gp_max_requests = 512 \<rparr>"

definition gc_policy_validate :: "bool \<Rightarrow> gc_policy \<Rightarrow> unit res" where
  "gc_policy_validate trusted_local self =
     ensure (\<not> (\<not> (MIN_GRACE_SECONDS \<le> gp_grace_seconds self \<and> gp_grace_seconds self \<le> MAX_GRACE_SECONDS)
         \<or> \<not> (MIN_ORPHAN_AGE_SECONDS \<le> gp_orphan_min_age_seconds self
              \<and> gp_orphan_min_age_seconds self \<le> MAX_ORPHAN_AGE_SECONDS)
         \<or> opt_is (\<lambda>days. \<not> retention_days_ok trusted_local days) (gp_retention_days self)
         \<or> gp_max_requests self = 0))
       ''lake part GC policy is outside the spec bounds''"

definition with_removal :: "removal \<Rightarrow> gc_policy \<Rightarrow> delete_request \<Rightarrow> delete_request" where
  "with_removal removal policy request =
     request\<lparr> dr_removal_seq := Some (rm_seq removal), dr_removal_entry_sha256 := Some (rm_entry_sha256 removal),
              dr_grace_seconds := Some (gp_grace_seconds policy) \<rparr>"

definition day_end_ms :: "part_file_key \<Rightarrow> int" where
  "day_end_ms key = fk_path_hour key * 1000 div DAY_MS * DAY_MS + DAY_MS"

definition plan_removed ::
  "calendar \<Rightarrow> (delete_reason \<Rightarrow> delete_request) \<Rightarrow> part_file_key \<Rightarrow> removal \<Rightarrow> int \<Rightarrow> gc_policy \<Rightarrow> int
   \<Rightarrow> string + delete_request"
where
  "plan_removed cal base key removal now_ms policy grace_ms =
     (if sat_sub_i64 now_ms (rm_committed_at_ms removal) < grace_ms then Inl ''within_grace''
      else if (rm_kind removal = RMerge \<or> rm_kind removal = RRewrite) \<and> \<not> is_provenance_key key
      then Inr (with_removal removal policy (base Superseded))
      else
        case gp_retention_days policy of
          None \<Rightarrow> Inl (if is_provenance_key key then ''provenance_kept'' else ''retired_no_retention_policy'')
        | Some days \<Rightarrow>
            if now_ms < sat_add_i64 (day_end_ms key) (int days * DAY_MS)
            then Inl (if is_provenance_key key then ''provenance_kept'' else ''within_retention'')
            else Inr ((with_removal removal policy (base Retention_Delete))
                        \<lparr> dr_retention_day := Some (fk_day cal key), dr_retention_days := Some days \<rparr>))"

definition plan_one ::
  "calendar \<Rightarrow> string \<Rightarrow> string \<Rightarrow> log_view \<Rightarrow> listed_part_object \<Rightarrow> int \<Rightarrow> gc_policy \<Rightarrow> int \<Rightarrow> int
   \<Rightarrow> string + delete_request"
where
  "plan_one cal tenant_id tenant_uuid view object now_ms policy grace_ms orphan_ms =
     (if is_log_key (lp_key object) then Inl ''log_key''
      else
        case parse_part_file_key cal (lp_key object) of
          None \<Rightarrow> Inl ''unparseable_key''
        | Some key \<Rightarrow>
            if fk_tenant_uuid key \<noteq> tenant_uuid then Inl ''foreign_tenant''
            else if gc_is_live view (fk_part_id key) then Inl ''live''
            else
              let base = request_base tenant_id tenant_uuid (lp_key object) (lp_strong_etag object)
                           (lp_content_length object) in
              case gc_removal view (fk_part_id key) of
                Some removal \<Rightarrow> plan_removed cal base key removal now_ms policy grace_ms
              | None \<Rightarrow>
                  if gc_is_known view (fk_part_id key) then Inl ''known_not_removed''
                  else if \<not> gv_from_genesis view then Inl ''orphan_needs_full_log''
                  else if now_ms < sat_add_i64 (lp_uploaded_at_ms object) orphan_ms
                          \<or> now_ms < created_unix_ms (fk_part_id key) + ID_MEMORY_MS + ORPHAN_ID_MEMORY_MARGIN_MS
                  then Inl ''orphan_too_young''
                  else Inr ((base Orphan)\<lparr> dr_orphan_min_age_seconds := Some (gp_orphan_min_age_seconds policy) \<rparr>))"

text \<open>The arguments every evaluation of one plan shares (the fields of \<open>PlanCursor\<close> and of
  \<open>InventorySelection\<close> that do not change).\<close>

record plan_env =
  pe_cal :: calendar
  pe_tenant_id :: string
  pe_tenant_uuid :: string
  pe_view :: log_view
  pe_live_keys :: "string bset"
  pe_now_ms :: int
  pe_policy :: gc_policy

definition eligible_request_with_local ::
  "plan_env \<Rightarrow> bool \<Rightarrow> listed_part_object \<Rightarrow> string + delete_request" where
  "eligible_request_with_local env trusted_local object =
     (case plan_one (pe_cal env) (pe_tenant_id env) (pe_tenant_uuid env) (pe_view env) object (pe_now_ms env)
             (pe_policy env) (int (gp_grace_seconds (pe_policy env)) * 1000)
             (int (gp_orphan_min_age_seconds (pe_policy env)) * 1000) of
        Inl reason \<Rightarrow> Inl reason
      | Inr request \<Rightarrow>
          if \<not> starts_with (PARTS_ROOT @ ''/tenant='' @ pe_tenant_uuid env @ ''/parts/'') (dr_key request)
          then Inl ''outside_parts_prefix''
          else if bhas (pe_live_keys env) (dr_key request) then Inl ''live_key''
          else if \<not> is_ok (validate_with_local (pe_cal env) trusted_local request) then Inl ''invalid_request''
          else Inr request)"

definition eligible_request :: "plan_env \<Rightarrow> listed_part_object \<Rightarrow> string + delete_request" where
  "eligible_request env object = eligible_request_with_local env False object"

fun dedup_keys :: "listed_part_object list \<Rightarrow> listed_part_object list" where
  "dedup_keys (a # b # rest) = (if lp_key a = lp_key b then dedup_keys (a # rest) else a # dedup_keys (b # rest))"
| "dedup_keys objects = objects"

definition sorted_listing :: "listed_part_object list \<Rightarrow> listed_part_object list" where
  "sorted_listing objects = dedup_keys (sort_key lp_key objects)"

definition count_skip :: "string \<Rightarrow> (string, nat) bmap \<Rightarrow> (string, nat) bmap" where
  "count_skip reason skipped = bput reason ((case map_of skipped reason of None \<Rightarrow> 0 | Some n \<Rightarrow> n) + 1) skipped"

record plan_cursor =
  pc_env :: plan_env
  pc_objects :: "listed_part_object list"
  pc_emitted :: nat
  pc_skipped :: "(string, nat) bmap"
  pc_truncated :: bool

definition plan_cursor_new :: "plan_env \<Rightarrow> listed_part_object list \<Rightarrow> plan_cursor res" where
  "plan_cursor_new env objects =
     bind_res (gc_policy_validate False (pe_policy env)) (\<lambda>_.
       Inr \<lparr> pc_env = env, pc_objects = sorted_listing objects, pc_emitted = 0, pc_skipped = [], pc_truncated = False \<rparr>)"

fun cursor_scan :: "plan_cursor \<Rightarrow> listed_part_object list \<Rightarrow> delete_request option \<times> plan_cursor" where
  "cursor_scan self [] = (None, self\<lparr> pc_objects := [] \<rparr>)"
| "cursor_scan self (object # rest) =
     (case eligible_request (pc_env self) object of
        Inr request \<Rightarrow>
          if pc_emitted self < gp_max_requests (pe_policy (pc_env self))
          then (Some request, self\<lparr> pc_objects := rest, pc_emitted := pc_emitted self + 1 \<rparr>)
          else (None, self\<lparr> pc_objects := rest, pc_truncated := True \<rparr>)
      | Inl reason \<Rightarrow> cursor_scan (self\<lparr> pc_skipped := count_skip reason (pc_skipped self) \<rparr>) rest)"

definition cursor_next :: "plan_cursor \<Rightarrow> delete_request option \<times> plan_cursor" where
  "cursor_next self = (if pc_truncated self then (None, self) else cursor_scan self (pc_objects self))"

lemma cursor_scan_shorter: "cursor_scan self objects = (Some r, c) \<Longrightarrow> length (pc_objects c) < length objects"
  by (induction self objects rule: cursor_scan.induct) (auto split: sum.splits if_splits)

function plan_collect :: "plan_cursor \<Rightarrow> delete_request list \<times> plan_cursor" where
  "plan_collect self =
     (case cursor_next self of
        (None, c) \<Rightarrow> ([], c)
      | (Some request, c) \<Rightarrow> (case plan_collect c of (requests, c') \<Rightarrow> (request # requests, c')))"
  by pat_completeness auto
termination
  by (relation "measure (\<lambda>c. length (pc_objects c))")
    (auto simp: cursor_next_def split: if_splits dest: cursor_scan_shorter [OF sym])

declare plan_collect.simps [simp del]

record plan_report =
  rp_requests :: "delete_request list"
  rp_skipped :: "(string, nat) bmap"
  rp_truncated :: bool

definition gc_plan :: "plan_env \<Rightarrow> listed_part_object list \<Rightarrow> plan_report res" where
  "gc_plan env objects =
     bind_res (plan_cursor_new env objects) (\<lambda>cursor.
       case plan_collect cursor of (requests, c) \<Rightarrow>
         Inr \<lparr> rp_requests = requests, rp_skipped = pc_skipped c, rp_truncated = pc_truncated c \<rparr>)"

fun plan_local_loop :: "plan_env \<Rightarrow> plan_report \<Rightarrow> listed_part_object list \<Rightarrow> plan_report" where
  "plan_local_loop env report [] = report"
| "plan_local_loop env report (object # rest) =
     (case eligible_request_with_local env True object of
        Inr request \<Rightarrow>
          if length (rp_requests report) < gp_max_requests (pe_policy env)
          then plan_local_loop env (report\<lparr> rp_requests := rp_requests report @ [request] \<rparr>) rest
          else report\<lparr> rp_truncated := True \<rparr>
      | Inl reason \<Rightarrow>
          plan_local_loop env (report\<lparr> rp_skipped := count_skip reason (rp_skipped report) \<rparr>) rest)"

definition plan_local :: "plan_env \<Rightarrow> listed_part_object list \<Rightarrow> plan_report res" where
  "plan_local env objects =
     (let env = env\<lparr> pe_tenant_id := pe_tenant_uuid env \<rparr> in
      bind_res (gc_policy_validate True (pe_policy env)) (\<lambda>_.
        Inr (plan_local_loop env \<lparr> rp_requests = [], rp_skipped = [], rp_truncated = False \<rparr> (sorted_listing objects))))"

section \<open>Selection from a complete listing\<close>

definition MAX_SELECTION_RETAINED :: nat where "MAX_SELECTION_RETAINED = 4 * 512"

record inventory_selection =
  is_env :: plan_env
  is_refused :: "refused_keys option"
  is_retain :: "nat option"

definition inventory_selection_new :: "plan_env \<Rightarrow> inventory_selection res" where
  "inventory_selection_new env =
     bind_res (gc_policy_validate False (pe_policy env)) (\<lambda>_.
       Inr \<lparr> is_env = env, is_refused = None, is_retain = None \<rparr>)"

definition selection_excluding :: "inventory_selection \<Rightarrow> refused_keys \<Rightarrow> inventory_selection" where
  "selection_excluding self refused = self\<lparr> is_refused := Some refused \<rparr>"

definition selection_retaining :: "inventory_selection \<Rightarrow> nat \<Rightarrow> inventory_selection" where
  "selection_retaining self n = self\<lparr> is_retain := Some (clamp_nat 1 MAX_SELECTION_RETAINED n) \<rparr>"

definition selection_limit :: "inventory_selection \<Rightarrow> nat" where
  "selection_limit self =
     (case is_retain self of Some n \<Rightarrow> n | None \<Rightarrow> min (gp_max_requests (pe_policy (is_env self))) 512)"

definition selection_eligible :: "inventory_selection \<Rightarrow> listed_part_object \<Rightarrow> bool" where
  "selection_eligible self object =
     (if opt_is (\<lambda>refused. rk_is_refused refused (lp_key object) (pe_now_ms (is_env self))) (is_refused self)
      then False
      else (case eligible_request (is_env self) object of Inr _ \<Rightarrow> True | Inl _ \<Rightarrow> False))"

text \<open>The scan of a complete listing (\<open>scan_metadata\<close>): each listed object is kept while there is
  room for it and it is eligible; the kept ones are returned in key order.\<close>

definition selection_step :: "inventory_selection \<Rightarrow> listed_part_object \<Rightarrow> listed_part_object list \<Rightarrow> listed_part_object list"
where
  "selection_step self object out =
     (if length out < selection_limit self \<and> selection_eligible self object then out @ [object] else out)"

definition scan_selected :: "inventory_selection \<Rightarrow> listed_part_object list \<Rightarrow> listed_part_object list" where
  "scan_selected self listing = sort_key lp_key (fold (selection_step self) listing [])"

end
