(* ===== verification/Gc_Index.thy ===== *)
theory Gc_Index
  imports Gc_Planner
begin

text \<open>
  Reaching control's part-log index (\<open>lake_part_gc/index.rs\<close>) and the refusals the owner answers with
  (\<open>LakePartRefusal\<close> of \<open>lake_part_gc/executor.rs\<close>): the receipted watermark, one index call and its
  bounded retries, the report of deleted keys and the fold of new entries into the view. The index
  client, the clock's sleep, the log reader and fresh request ids act on a world of any type.
\<close>

section \<open>Refusals\<close>

record lake_part_refusal =
  lr_status :: "nat option"
  lr_code :: string
  lr_retry_after :: "nat option"

definition lake_part_refusal_new :: "nat option \<Rightarrow> string \<Rightarrow> lake_part_refusal" where
  "lake_part_refusal_new status code = \<lparr> lr_status = status, lr_code = code, lr_retry_after = None \<rparr>"

definition is_backoff :: "lake_part_refusal \<Rightarrow> bool" where
  "is_backoff self \<longleftrightarrow>
     lr_code self \<in> set [''lake_part_tenant_rate_limit'', ''lake_part_attestation_unavailable'',
       ''lake_part_index_unavailable'', ''lake_part_service_assertion_replay'', ''lake_part_clock_skew'']
     \<or> (case lr_status self of None \<Rightarrow> True | Some status \<Rightarrow> status = 429 \<or> 500 \<le> status)"

datatype refusal_action = Pause | IndexIncomplete | SkipKey | BackOffPass

definition refusal_action_of :: "lake_part_refusal \<Rightarrow> refusal_action" where
  "refusal_action_of self =
     (if lr_code self \<in> set [''lake_part_held'', ''lake_part_protected'', ''lake_part_grant_required'',
           ''lake_part_inactive_assignment'', ''lake_part_control_forbidden'', ''lake_part_binding_mismatch'']
      then Pause
      else if lr_code self = ''lake_part_index_incomplete'' then IndexIncomplete
      else if is_backoff self then BackOffPass
      else SkipKey)"

text \<open>The errors the code downcasts to; any other error is its text.\<close>

datatype gc_error = Refusal lake_part_refusal | BearerRefused | CustodyHeld string bool | OtherError string

section \<open>The receipted watermark\<close>

definition INDEX_SETTLE_MS :: int where "INDEX_SETTLE_MS = 60000"
definition RECEIPT_WINDOW_MS :: int where "RECEIPT_WINDOW_MS = 5 * 60000"

record receipted_run =
  rr_through :: "nat option"
  rr_started_at_ms :: int

definition receipted_default :: receipted_run where
  "receipted_default = \<lparr> rr_through = None, rr_started_at_ms = 0 \<rparr>"

definition completed_head :: "receipted_run \<Rightarrow> nat option" where
  "completed_head run = rr_through run"

definition receipted_record :: "receipted_run \<Rightarrow> nat \<Rightarrow> int \<Rightarrow> receipted_run" where
  "receipted_record run seq appended_at_ms =
     (let run = (if (case rr_through run of None \<Rightarrow> True | Some through \<Rightarrow> seq \<noteq> sat_add_u64 through 1)
                 then run\<lparr> rr_started_at_ms := max (rr_started_at_ms run) appended_at_ms \<rparr> else run) in
      run\<lparr> rr_through := Some seq \<rparr>)"

definition receipted_through :: "receipted_run \<Rightarrow> int \<Rightarrow> nat option" where
  "receipted_through run now_ms =
     (case rr_through run of
        None \<Rightarrow> None
      | Some through \<Rightarrow>
          if INDEX_SETTLE_MS \<le> sat_sub_i64 now_ms (rr_started_at_ms run) then Some through else None)"

section \<open>Index calls\<close>

definition MAX_INDEX_ENTRIES :: nat where "MAX_INDEX_ENTRIES = 256"
definition MAX_INDEX_BATCH_BASE64_BYTES :: nat where "MAX_INDEX_BATCH_BASE64_BYTES = 6 * 1024 * 1024"
definition MAX_INDEX_BATCH_PART_REFS :: nat where "MAX_INDEX_BATCH_PART_REFS = 4096"
definition MAX_INDEX_REQUESTS_PER_SYNC :: nat where "MAX_INDEX_REQUESTS_PER_SYNC = 8"
definition MAX_VIEW_INDEX_REQUESTS_PER_SYNC :: nat where "MAX_VIEW_INDEX_REQUESTS_PER_SYNC = 1024"
definition MAX_CONSECUTIVE_GAP_RECOVERIES :: nat where "MAX_CONSECUTIVE_GAP_RECOVERIES = 8"
definition INDEX_BACKOFF_RETRIES :: nat where "INDEX_BACKOFF_RETRIES = 4"
definition INDEX_BACKOFF_BASE_MS :: nat where "INDEX_BACKOFF_BASE_MS = 1000"
definition INDEX_BACKOFF_MAX_MS :: nat where "INDEX_BACKOFF_MAX_MS = 30000"
definition INDEX_RETRY_AFTER_MAX_MS :: nat where "INDEX_RETRY_AFTER_MAX_MS = 60000"
definition MAX_DELETED_PER_REQUEST :: nat where "MAX_DELETED_PER_REQUEST = 1024"
definition BEARER_REFUSED :: string where "BEARER_REFUSED = ''owner_bearer_refused_401''"

fun part_refs :: "log_op \<Rightarrow> nat" where
  "part_refs (Add parts _ _) = length parts"
| "part_refs (Adopt parts) = length parts"
| "part_refs (Merge _ supersedes) = 1 + length supersedes"
| "part_refs (Rewrite _ supersedes _) = 1 + length supersedes"
| "part_refs (Retire parts _ _) = length parts"
| "part_refs _ = 0"

record verified_entry =
  ve_bytes :: string
  ve_sha256 :: string
  ve_entry :: log_entry

record checkpoint_claim =
  cc_seq :: nat
  cc_checkpoint_sha256 :: string
  cc_entry_sha256 :: string

record adopted_claim =
  ac_part_id :: part_id
  ac_key :: string
  ac_sha256 :: string

record index_entry =
  ie_seq :: nat
  ie_entry_base64 :: string

record deleted_key =
  dk_key :: string
  dk_permit_id :: string
  dk_receipt_sha256 :: string

record index_request =
  iq_request_id :: string
  iq_tenant_uuid :: string
  iq_entries :: "index_entry list"
  iq_adopted :: "adopted_claim list"
  iq_checkpoint :: "checkpoint_claim option"
  iq_deleted :: "deleted_key list"

record index_status =
  ix_tenant_uuid :: string
  ix_indexed_through_seq :: "nat option"
  ix_head_entry_sha256 :: "string option"
  ix_checkpoint_seq :: "nat option"
  ix_folded_through_seq :: "nat option"

datatype index_sync_outcome =
    Synced index_status bool nat nat "int option" bool
  | RouteNotServed
  | BackOffSync string
  | RefusedSync string

datatype index_call = CallOk index_status | CallGap | CallStop index_sync_outcome

record 'w index_world =
  iw_index :: "index_request \<Rightarrow> 'w \<Rightarrow> (gc_error + index_status) \<times> 'w"
  iw_sleep :: "nat \<Rightarrow> 'w \<Rightarrow> 'w"
  iw_uuid :: "'w \<Rightarrow> string \<times> 'w"

definition status_read :: "'w index_world \<Rightarrow> string \<Rightarrow> 'w \<Rightarrow> index_request \<times> 'w" where
  "status_read iw tenant_uuid w =
     (case iw_uuid iw w of (request_id, w) \<Rightarrow>
        (\<lparr> iq_request_id = request_id, iq_tenant_uuid = tenant_uuid, iq_entries = [], iq_adopted = [],
           iq_checkpoint = None, iq_deleted = [] \<rparr>, w))"

definition call_answer :: "index_request \<Rightarrow> gc_error + index_status \<Rightarrow> index_call" where
  "call_answer request answer =
     (case answer of
        Inr status \<Rightarrow>
          if ix_tenant_uuid status = iq_tenant_uuid request then CallOk status
          else CallStop (RefusedSync ''index_response_tenant_mismatch'')
      | Inl BearerRefused \<Rightarrow> CallStop (RefusedSync BEARER_REFUSED)
      | Inl (Refusal refusal) \<Rightarrow>
          if lr_status refusal = Some 404 then CallStop RouteNotServed
          else if lr_code refusal = ''lake_part_index_gap'' then CallGap
          else if is_backoff refusal then CallStop (BackOffSync (lr_code refusal))
          else CallStop (RefusedSync (lr_code refusal))
      | Inl (CustodyHeld text _) \<Rightarrow> CallStop (BackOffSync (''index_call_failed: '' @ text))
      | Inl (OtherError text) \<Rightarrow> CallStop (BackOffSync (''index_call_failed: '' @ text)))"

definition client_call :: "'w index_world \<Rightarrow> index_request \<Rightarrow> 'w \<Rightarrow> index_call \<times> 'w" where
  "client_call iw request w = (case iw_index iw request w of (answer, w) \<Rightarrow> (call_answer request answer, w))"

text \<open>\<open>Duration::saturating_mul\<close> cannot saturate here: the delay is at most \<open>2^16\<close> seconds.\<close>

definition index_backoff_delay :: "nat \<Rightarrow> nat option \<Rightarrow> nat" where
  "index_backoff_delay attempt retry_after =
     (case retry_after of
        Some after \<Rightarrow> min after INDEX_RETRY_AFTER_MAX_MS
      | None \<Rightarrow> min (INDEX_BACKOFF_BASE_MS * 2 ^ min (attempt - 1) 16) INDEX_BACKOFF_MAX_MS)"

definition retry_after_of :: "gc_error + index_status \<Rightarrow> nat option" where
  "retry_after_of answer = (case answer of Inl (Refusal refusal) \<Rightarrow> lr_retry_after refusal | _ \<Rightarrow> None)"

text \<open>\<open>left\<close> is \<open>INDEX_BACKOFF_RETRIES - attempt\<close>.\<close>

fun call_retry_loop :: "'w index_world \<Rightarrow> index_request \<Rightarrow> nat \<Rightarrow> 'w \<Rightarrow> index_call \<times> 'w" where
  "call_retry_loop iw request left w =
     (case iw_index iw request w of (answer, w) \<Rightarrow>
        case call_answer request answer of
          CallStop (BackOffSync code) \<Rightarrow>
            (case left of
               0 \<Rightarrow> (CallStop (BackOffSync code), w)
             | Suc n \<Rightarrow>
                 call_retry_loop iw request n
                   (iw_sleep iw (index_backoff_delay (INDEX_BACKOFF_RETRIES - n) (retry_after_of answer)) w))
        | other \<Rightarrow> (other, w))"

declare call_retry_loop.simps [simp del]

definition call_retrying :: "'w index_world \<Rightarrow> index_request \<Rightarrow> 'w \<Rightarrow> index_call \<times> 'w" where
  "call_retrying iw request w = call_retry_loop iw request INDEX_BACKOFF_RETRIES w"

section \<open>Reporting deleted keys\<close>

function report_loop ::
  "'w index_world \<Rightarrow> string \<Rightarrow> nat \<Rightarrow> deleted_key list \<Rightarrow> 'w \<Rightarrow> (string + nat) \<times> deleted_key list \<times> 'w" where
  "report_loop iw tenant_uuid reported queue w =
     (if queue = [] then (Inr reported, queue, w)
      else
        let batch = min (length queue) MAX_DELETED_PER_REQUEST in
        case status_read iw tenant_uuid w of (read, w) \<Rightarrow>
        case client_call iw (read\<lparr> iq_deleted := take batch queue \<rparr>) w of (answer, w) \<Rightarrow>
          case answer of
            CallOk _ \<Rightarrow> report_loop iw tenant_uuid (reported + batch) (drop batch queue) w
          | CallGap \<Rightarrow> (Inl ''lake_part_index_gap'', queue, w)
          | CallStop RouteNotServed \<Rightarrow> (Inl ''index_route_not_served'', queue, w)
          | CallStop (BackOffSync code) \<Rightarrow> (Inl code, queue, w)
          | CallStop (RefusedSync code) \<Rightarrow> (Inl code, queue, w)
          | CallStop (Synced _ _ _ _ _ _) \<Rightarrow> (Inl ''unexpected'', queue, w))"
  by pat_completeness auto
termination
  by (relation "measure (\<lambda>(_, _, _, queue, _). length queue)") (auto simp: MAX_DELETED_PER_REQUEST_def)

declare report_loop.simps [simp del]

definition report_deleted ::
  "'w index_world \<Rightarrow> string \<Rightarrow> deleted_key list \<Rightarrow> 'w \<Rightarrow> (string + nat) \<times> deleted_key list \<times> 'w" where
  "report_deleted iw tenant_uuid queue w = report_loop iw tenant_uuid 0 queue w"

section \<open>Folding the log into the view\<close>

text \<open>\<open>reader\<close> reads entry \<open>seq\<close> of the log, or finds none; an error of the view leaves it as it was.\<close>

fun catch_up_view_loop ::
  "log_crates \<Rightarrow> (nat \<Rightarrow> verified_entry option res) \<Rightarrow> nat \<Rightarrow> nat \<Rightarrow> log_view \<Rightarrow> nat res \<times> log_view" where
  "catch_up_view_loop lc reader applied 0 view = (Inr applied, view)"
| "catch_up_view_loop lc reader applied (Suc n) view =
     (let seq = (case gc_head_seq view of None \<Rightarrow> 0 | Some seq \<Rightarrow> seq + 1) in
      case reader seq of
        Inl e \<Rightarrow> (Inl e, view)
      | Inr None \<Rightarrow> (Inr applied, view)
      | Inr (Some verified) \<Rightarrow>
          if le_seq (ve_entry verified) \<noteq> seq then (Inl (Bail ''part-log reader returned another entry''), view)
          else
            case gc_apply lc view (ve_entry verified) (ve_sha256 verified) of
              (Inl e, view') \<Rightarrow> (Inl e, view')
            | (Inr _, view') \<Rightarrow> catch_up_view_loop lc reader (applied + 1) n view')"

definition catch_up_view_bounded ::
  "log_crates \<Rightarrow> (nat \<Rightarrow> verified_entry option res) \<Rightarrow> nat \<Rightarrow> log_view \<Rightarrow> nat res \<times> log_view" where
  "catch_up_view_bounded lc reader limit view = catch_up_view_loop lc reader 0 limit view"

section \<open>Publishing entries to the index\<close>

definition adopted_claim_from_record :: "part_ref \<Rightarrow> provenance_record \<Rightarrow> adopted_claim res" where
  "adopted_claim_from_record part record =
     (case (pr_inputs record, pf_data (pr_files record)) of
        (Adopted _ objects, [data]) \<Rightarrow>
          bind_res (ensure (pr_part_id record = pt_part_id part \<and> length objects = 1
              \<and> ao_key (objects ! 0) = df_name data \<and> ao_sha256 (objects ! 0) = df_sha256 data)
            ''adopted record of part does not bind one object'') (\<lambda>_.
            Inr \<lparr> ac_part_id = pt_part_id part, ac_key = df_name data, ac_sha256 = df_sha256 data \<rparr>)
      | _ \<Rightarrow> Inl (Bail ''part added by an adopt entry is not an adopted record''))"

definition base64_len :: "nat \<Rightarrow> nat" where
  "base64_len bytes = div_ceil bytes 3 * 4"

text \<open>
  What one sync reads: the reader's entries (the bounded read-ahead only fetches them earlier), its
  newest checkpoint, verified provenance, the base64 encoder, and the arguments of the call.
\<close>

record sync_env =
  se_reader :: "nat \<Rightarrow> verified_entry option res"
  se_checkpoint :: "checkpoint_claim option res"
  se_provenance :: "part_ref \<Rightarrow> provenance_record res"
  se_b64 :: "string \<Rightarrow> string"
  se_tenant_uuid :: string
  se_view_target :: "nat option option"
  se_now_ms :: int
  se_receipted_through :: "nat option"

record batch =
  bt_entries :: "index_entry list"
  bt_adopted :: "adopted_claim list"
  bt_bytes :: nat
  bt_refs :: nat
  bt_exhausted :: bool
  bt_unsettled :: bool
  bt_meta :: "(nat \<times> string \<times> int \<times> nat) list"
  bt_read_error :: "error option"
  bt_last :: "(nat \<times> string \<times> int) option"
  bt_prev :: string

definition batch_new :: "string \<Rightarrow> batch" where
  "batch_new prev =
     \<lparr> bt_entries = [], bt_adopted = [], bt_bytes = 0, bt_refs = 0, bt_exhausted = False, bt_unsettled = False,
       bt_meta = [], bt_read_error = None, bt_last = None, bt_prev = prev \<rparr>"

definition entry_claims :: "sync_env \<Rightarrow> log_op \<Rightarrow> adopted_claim list res" where
  "entry_claims se op =
     (case op of
        Adopt parts \<Rightarrow>
          res_map (\<lambda>part. bind_res (se_provenance se part) (adopted_claim_from_record part)) parts
      | _ \<Rightarrow> Inr [])"

definition entry_size :: "verified_entry \<Rightarrow> adopted_claim list \<Rightarrow> nat" where
  "entry_size verified claims =
     base64_len (length (ve_bytes verified))
     + sum_list (map (\<lambda>c. length (ac_part_id c) + length (ac_key c) + length (ac_sha256 c) + 48) claims)"

definition batch_push :: "sync_env \<Rightarrow> nat \<Rightarrow> verified_entry \<Rightarrow> adopted_claim list \<Rightarrow> batch \<Rightarrow> batch" where
  "batch_push se seq verified claims b =
     (let adopted = bt_adopted b @ claims; at = le_appended_at_ms (ve_entry verified) in
      b\<lparr> bt_bytes := bt_bytes b + entry_size verified claims, bt_refs := bt_refs b + part_refs (le_op (ve_entry verified)),
         bt_adopted := adopted, bt_meta := bt_meta b @ [(seq, ve_sha256 verified, at, length adopted)],
         bt_prev := ve_sha256 verified, bt_last := Some (seq, ve_sha256 verified, at),
         bt_entries := bt_entries b @ [\<lparr> ie_seq = seq, ie_entry_base64 = se_b64 se (ve_bytes verified) \<rparr>] \<rparr>)"

definition target_reached :: "sync_env \<Rightarrow> nat \<Rightarrow> bool" where
  "target_reached se seq =
     opt_is (\<lambda>head. case head of None \<Rightarrow> True | Some head \<Rightarrow> head < seq) (se_view_target se)"

definition entry_unsettled :: "sync_env \<Rightarrow> nat \<Rightarrow> verified_entry \<Rightarrow> bool" where
  "entry_unsettled se seq verified \<longleftrightarrow>
     sat_sub_i64 (se_now_ms se) (le_appended_at_ms (ve_entry verified)) < INDEX_SETTLE_MS
     \<and> (case se_receipted_through se of None \<Rightarrow> True | Some through \<Rightarrow> through < seq)"

text \<open>Filling one batch, at most \<open>left\<close> more entries. The inner value is an outcome of the whole
  sync when the batch ends it.\<close>

fun fill_batch :: "sync_env \<Rightarrow> nat \<Rightarrow> nat \<Rightarrow> batch \<Rightarrow> (index_sync_outcome + batch) res" where
  "fill_batch se next_seq 0 b = Inr (Inr b)"
| "fill_batch se next_seq (Suc left) b =
     (let seq = next_seq + length (bt_entries b) in
      if target_reached se seq then Inr (Inr (b\<lparr> bt_exhausted := True \<rparr>))
      else
        case se_reader se seq of
          Inl e \<Rightarrow> Inr (Inr (b\<lparr> bt_read_error := Some e \<rparr>))
        | Inr None \<Rightarrow>
            if se_view_target se \<noteq> None
            then Inr (Inr (b\<lparr> bt_read_error := Some (Bail ''complete_view_entry_missing'') \<rparr>))
            else Inr (Inr (b\<lparr> bt_exhausted := True \<rparr>))
        | Inr (Some verified) \<Rightarrow>
            if le_seq (ve_entry verified) \<noteq> seq \<or> le_prev_sha256 (ve_entry verified) \<noteq> bt_prev b
            then Inr (Inl (RefusedSync ''local_chain_mismatch''))
            else if entry_unsettled se seq verified
            then Inr (Inr (b\<lparr> bt_exhausted := True, bt_unsettled := True \<rparr>))
            else
              bind_res (entry_claims se (le_op (ve_entry verified))) (\<lambda>claims.
                if bt_entries b \<noteq> []
                   \<and> (MAX_INDEX_BATCH_BASE64_BYTES < bt_bytes b + entry_size verified claims
                      \<or> MAX_INDEX_BATCH_PART_REFS < bt_refs b + part_refs (le_op (ve_entry verified)))
                then Inr (Inr b)
                else fill_batch se next_seq left (batch_push se seq verified claims b)))"

record sync_state =
  sy_status :: index_status
  sy_pushed :: nat
  sy_gap_recoveries :: nat
  sy_stalled_gaps :: nat
  sy_head_appended_ms :: "int option"

type_synonym sync_result = "(error \<times> nat option) + index_sync_outcome"

datatype sync_next = SyncDone sync_result | SyncAgain sync_state | SyncBreak sync_state

definition synced :: "sync_state \<Rightarrow> bool \<Rightarrow> bool \<Rightarrow> index_sync_outcome" where
  "synced st caught_up settling =
     Synced (sy_status st) caught_up (sy_pushed st) (sy_gap_recoveries st) (sy_head_appended_ms st) settling"

definition claim_due :: "checkpoint_claim option \<Rightarrow> index_status \<Rightarrow> nat option \<Rightarrow> checkpoint_claim option" where
  "claim_due checkpoint status through =
     (case checkpoint of
        None \<Rightarrow> None
      | Some claim \<Rightarrow>
          if opt_is (\<lambda>through. cc_seq claim \<le> through) through
             \<and> (case ix_checkpoint_seq status of None \<Rightarrow> True | Some indexed \<Rightarrow> indexed < cc_seq claim)
          then Some claim else None)"

text \<open>What was sent last: the request, what its entries are, and whether more is left.\<close>

record sent =
  sn_request :: index_request
  sn_last :: "(nat \<times> string \<times> int) option"
  sn_count :: nat
  sn_exhausted :: bool
  sn_unsettled :: bool
  sn_answer :: index_call

definition receipt_missing :: "index_call \<Rightarrow> bool" where
  "receipt_missing answer \<longleftrightarrow> answer = CallStop (RefusedSync ''lake_part_index_receipt_missing'')"

definition keep_settled :: "int \<Rightarrow> (nat \<times> string \<times> int \<times> nat) list \<Rightarrow> nat" where
  "keep_settled now_ms meta =
     (case List.find (\<lambda>i. case meta ! i of (_, _, ms, _) \<Rightarrow> sat_sub_i64 now_ms ms \<le> INDEX_SETTLE_MS) [0..<length meta] of
        Some i \<Rightarrow> i
      | None \<Rightarrow> length meta - 1)"

definition send_shorter ::
  "'w index_world \<Rightarrow> sync_env \<Rightarrow> sync_state \<Rightarrow> batch \<Rightarrow> index_request \<Rightarrow> nat \<Rightarrow> 'w \<Rightarrow> (index_sync_outcome + sent) \<times> 'w" where
  "send_shorter iw se st b request keep w =
     (case (iw_uuid iw w, last (take keep (bt_meta b))) of ((request_id, w), (seq, sha, ms, claims)) \<Rightarrow>
        let shorter = request\<lparr> iq_request_id := request_id, iq_entries := take keep (iq_entries request),
              iq_adopted := take claims (iq_adopted request),
              iq_checkpoint := (case iq_checkpoint request of None \<Rightarrow> None
                | Some claim \<Rightarrow> if cc_seq claim \<le> seq then Some claim else None) \<rparr> in
        case call_retrying iw shorter w of (answer, w) \<Rightarrow>
          if receipt_missing answer \<and> sat_sub_i64 (se_now_ms se) ms < RECEIPT_WINDOW_MS
          then (Inl (synced st False True), w)
          else (Inr \<lparr> sn_request = shorter, sn_last = Some (seq, sha, ms), sn_count = keep, sn_exhausted = True,
                      sn_unsettled = True, sn_answer = answer \<rparr>, w))"

definition send_batch ::
  "'w index_world \<Rightarrow> sync_env \<Rightarrow> sync_state \<Rightarrow> batch \<Rightarrow> checkpoint_claim option \<Rightarrow> 'w \<Rightarrow> (index_sync_outcome + sent) \<times> 'w" where
  "send_batch iw se st b claim w =
     (case status_read iw (se_tenant_uuid se) w of (read, w) \<Rightarrow>
        let request = read\<lparr> iq_entries := bt_entries b, iq_adopted := bt_adopted b, iq_checkpoint := claim \<rparr> in
        case call_retrying iw request w of (answer, w) \<Rightarrow>
          let first = (Inr \<lparr> sn_request = request, sn_last = bt_last b, sn_count = length (bt_entries b),
                sn_exhausted = bt_exhausted b, sn_unsettled = bt_unsettled b, sn_answer = answer \<rparr>, w);
              keep = keep_settled (se_now_ms se) (bt_meta b) in
          if \<not> receipt_missing answer \<or> bt_meta b = [] then first
          else
            case last (bt_meta b) of (_, _, ms, _) \<Rightarrow>
              if RECEIPT_WINDOW_MS \<le> sat_sub_i64 (se_now_ms se) ms then first
              else if length (bt_entries b) = 1 \<or> keep = 0 then (Inl (synced st False True), w)
              else send_shorter iw se st b request keep w)"

definition response_mismatch :: "index_status \<Rightarrow> (nat \<times> string \<times> int) option \<Rightarrow> bool" where
  "response_mismatch status last_sent =
     opt_is (\<lambda>(seq, sha, _).
       (case ix_indexed_through_seq status of None \<Rightarrow> True | Some through \<Rightarrow> through < seq)
       \<or> ix_indexed_through_seq status = Some seq \<and> ix_head_entry_sha256 status \<noteq> Some sha) last_sent"

definition accept_answer ::
  "checkpoint_claim option \<Rightarrow> sync_state \<Rightarrow> error option \<Rightarrow> sent \<Rightarrow> index_status \<Rightarrow> sync_next" where
  "accept_answer checkpoint st read_error sn status =
     (if response_mismatch status (sn_last sn) then SyncDone (Inr (RefusedSync ''index_response_mismatch''))
      else
        let st = st\<lparr> sy_pushed := sy_pushed st + sn_count sn, sy_stalled_gaps := 0, sy_status := status,
              sy_head_appended_ms := (case sn_last sn of None \<Rightarrow> sy_head_appended_ms st | Some (_, _, ms) \<Rightarrow> Some ms) \<rparr> in
        case read_error of
          Some e \<Rightarrow> SyncDone (Inl (e, Some (sy_pushed st)))
        | None \<Rightarrow>
            if sn_unsettled sn then SyncDone (Inr (synced st False True))
            else if sn_exhausted sn \<and> iq_checkpoint (sn_request sn) = None \<and> 0 < sn_count sn
                    \<and> claim_due checkpoint status (ix_indexed_through_seq status) = None
            then SyncDone (Inr (synced st True False))
            else SyncAgain st)"

definition recover_gap :: "'w index_world \<Rightarrow> sync_env \<Rightarrow> sync_state \<Rightarrow> 'w \<Rightarrow> sync_next \<times> 'w" where
  "recover_gap iw se st w =
     (let st = st\<lparr> sy_gap_recoveries := sy_gap_recoveries st + 1, sy_stalled_gaps := sy_stalled_gaps st + 1 \<rparr> in
      if MAX_CONSECUTIVE_GAP_RECOVERIES \<le> sy_stalled_gaps st then (SyncBreak st, w)
      else
        case status_read iw (se_tenant_uuid se) w of (read, w) \<Rightarrow>
        case call_retrying iw read w of (answer, w) \<Rightarrow>
          ((case answer of
              CallOk status \<Rightarrow> SyncAgain (st\<lparr> sy_status := status \<rparr>)
            | CallGap \<Rightarrow> SyncDone (Inr (RefusedSync ''lake_part_index_gap''))
            | CallStop out \<Rightarrow> SyncDone (Inr out)), w))"

definition next_seq_of :: "index_status \<Rightarrow> nat" where
  "next_seq_of status = (case ix_indexed_through_seq status of None \<Rightarrow> 0 | Some seq \<Rightarrow> seq + 1)"

definition expected_prev_of :: "index_status \<Rightarrow> string option" where
  "expected_prev_of status =
     (case (ix_indexed_through_seq status, ix_head_entry_sha256 status) of
        (None, _) \<Rightarrow> Some GENESIS_PREV
      | (Some _, Some sha) \<Rightarrow> Some sha
      | (Some _, None) \<Rightarrow> None)"

definition settle_sent ::
  "'w index_world \<Rightarrow> sync_env \<Rightarrow> checkpoint_claim option \<Rightarrow> sync_state \<Rightarrow> batch \<Rightarrow> sent \<Rightarrow> 'w \<Rightarrow> sync_next \<times> 'w" where
  "settle_sent iw se checkpoint st b sn w =
     (case sn_answer sn of
        CallOk status \<Rightarrow> (accept_answer checkpoint st (bt_read_error b) sn status, w)
      | CallGap \<Rightarrow> recover_gap iw se st w
      | CallStop out \<Rightarrow> (SyncDone (Inr out), w))"

definition publish_batch ::
  "'w index_world \<Rightarrow> sync_env \<Rightarrow> checkpoint_claim option \<Rightarrow> sync_state \<Rightarrow> batch \<Rightarrow> 'w \<Rightarrow> sync_next \<times> 'w" where
  "publish_batch iw se checkpoint st b w =
     (let through = (case bt_last b of Some (seq, _, _) \<Rightarrow> Some seq | None \<Rightarrow> ix_indexed_through_seq (sy_status st));
          claim = claim_due checkpoint (sy_status st) through in
      if bt_entries b = [] \<and> claim = None
      then
        (case bt_read_error b of
           Some e \<Rightarrow> (SyncDone (Inl (e, Some (sy_pushed st))), w)
         | None \<Rightarrow> (SyncDone (Inr (synced st (bt_exhausted b \<and> \<not> bt_unsettled b) (bt_unsettled b))), w))
      else
        case send_batch iw se st b claim w of
          (Inl out, w) \<Rightarrow> (SyncDone (Inr out), w)
        | (Inr sn, w) \<Rightarrow> settle_sent iw se checkpoint st b sn w)"

definition sync_round ::
  "'w index_world \<Rightarrow> sync_env \<Rightarrow> checkpoint_claim option \<Rightarrow> sync_state \<Rightarrow> 'w \<Rightarrow> sync_next \<times> 'w" where
  "sync_round iw se checkpoint st w =
     (case expected_prev_of (sy_status st) of
        None \<Rightarrow> (SyncDone (Inr (RefusedSync ''index_status_invalid'')), w)
      | Some prev \<Rightarrow>
          (case fill_batch se (next_seq_of (sy_status st)) MAX_INDEX_ENTRIES (batch_new prev) of
             Inl e \<Rightarrow> (SyncDone (Inl (e, None)), w)
           | Inr (Inl out) \<Rightarrow> (SyncDone (Inr out), w)
           | Inr (Inr b) \<Rightarrow> publish_batch iw se checkpoint st b w))"

fun sync_loop ::
  "'w index_world \<Rightarrow> sync_env \<Rightarrow> checkpoint_claim option \<Rightarrow> nat \<Rightarrow> sync_state \<Rightarrow> 'w \<Rightarrow> sync_result \<times> 'w" where
  "sync_loop iw se checkpoint 0 st w = (Inr (synced st False False), w)"
| "sync_loop iw se checkpoint (Suc left) st w =
     (case sync_round iw se checkpoint st w of
        (SyncDone r, w) \<Rightarrow> (r, w)
      | (SyncBreak st, w) \<Rightarrow> (Inr (synced st False False), w)
      | (SyncAgain st, w) \<Rightarrow> sync_loop iw se checkpoint left st w)"

definition sync_index_inner :: "'w index_world \<Rightarrow> sync_env \<Rightarrow> 'w \<Rightarrow> sync_result \<times> 'w" where
  "sync_index_inner iw se w =
     (case status_read iw (se_tenant_uuid se) w of (read, w) \<Rightarrow>
      case call_retrying iw read w of (answer, w) \<Rightarrow>
        case answer of
          CallGap \<Rightarrow> (Inr (RefusedSync ''lake_part_index_gap''), w)
        | CallStop out \<Rightarrow> (Inr out, w)
        | CallOk status \<Rightarrow>
            (case se_checkpoint se of
               Inl e \<Rightarrow> (Inl (e, None), w)
             | Inr checkpoint \<Rightarrow>
                 sync_loop iw se checkpoint
                   (if se_view_target se \<noteq> None then MAX_VIEW_INDEX_REQUESTS_PER_SYNC else MAX_INDEX_REQUESTS_PER_SYNC)
                   \<lparr> sy_status = status, sy_pushed = 0, sy_gap_recoveries = 0, sy_stalled_gaps = 0,
                     sy_head_appended_ms = None \<rparr> w))"

end
