(* ===== verification/Gc_Executor.thy ===== *)
theory Gc_Executor
  imports Gc_Index
begin

text \<open>
  The delete pass (\<open>lake_part_gc/executor.rs\<close>, with the authorization of
  \<open>lake_part_gc/delete_control.rs\<close>): permits and receipts, the authorize pacer, the per-key loop of
  owner authorize, local permit check, Worker prepare, Worker retire and exact receipt, and the pass
  that folds the log, plans and executes. The owner, the Worker, the clocks and the object log act
  on a world of any type; times are nanoseconds. Log lines and timings are left out.
\<close>

section \<open>Permits and receipts\<close>

definition PERMIT_SKEW :: int where "PERMIT_SKEW = 2 * 1000000000"
definition DELETE_AUTHORIZATION_MAX_TTL :: int where "DELETE_AUTHORIZATION_MAX_TTL = 5 * 60 * 1000000000"
definition DELETE_CONTROL_SCHEMA_VERSION :: nat where "DELETE_CONTROL_SCHEMA_VERSION = 2"
definition MAX_CONSECUTIVE_WORKER_FAILURES :: nat where "MAX_CONSECUTIVE_WORKER_FAILURES = 3"
definition MAX_PENDING_DELETED :: nat where "MAX_PENDING_DELETED = 65536"
definition MAX_LOG_ENTRIES_PER_PASS :: nat where "MAX_LOG_ENTRIES_PER_PASS = 2048"
definition LOG_CATCHING_UP :: string where "LOG_CATCHING_UP = ''log_catching_up''"
definition INDEX_SETTLING :: string where "INDEX_SETTLING = ''index_settling''"
definition CATALOG_CUSTODY_HELD :: string where "CATALOG_CUSTODY_HELD = ''catalog_custody_held''"
definition CATALOG_PINNED :: string where "CATALOG_PINNED = ''catalog_pinned''"
definition CREDENTIAL_REFRESH :: string where "CREDENTIAL_REFRESH = ''credential_refresh''"

record delete_owner_authorization =
  oa_schema_version :: nat
  oa_signer_key_id :: string
  oa_issued_at :: string
  oa_expires_at :: string
  oa_identity_sha256 :: string
  oa_signature_base64 :: string

record delete_permit =
  pm_request :: delete_request
  pm_permit_id :: string
  pm_owner_authorization :: delete_owner_authorization

record delete_receipt =
  rc_schema_version :: nat
  rc_permit_id :: string
  rc_identity_sha256 :: string
  rc_receipt_sha256 :: string
  rc_state :: string
  rc_final_head_absent :: bool

text \<open>The crates used: the calendar and RFC 3339 times (chrono), the spelling of JSON scalars
  (serde_json) and SHA-256.\<close>

record gc_crates =
  gx_cal :: calendar
  gx_scalar :: "json \<Rightarrow> string"
  gx_sha_hex :: "string \<Rightarrow> string"
  gx_rfc3339 :: "string \<Rightarrow> int option"

abbreviation gx_digest :: "gc_crates \<Rightarrow> bool \<Rightarrow> delete_request \<Rightarrow> string res" where
  "gx_digest gx \<equiv> digest_with_local (gx_cal gx) (gx_scalar gx) (gx_sha_hex gx)"

definition permit_verify :: "gc_crates \<Rightarrow> delete_permit \<Rightarrow> delete_request \<Rightarrow> int \<Rightarrow> bool \<Rightarrow> unit res" where
  "permit_verify gx self request now trusted_local =
     bind_res (gx_digest gx trusted_local request) (\<lambda>digest.
       let auth = pm_owner_authorization self in
       bind_res (ok_or (gx_rfc3339 gx (oa_issued_at auth)) ''issued_at'') (\<lambda>issued.
       bind_res (ok_or (gx_rfc3339 gx (oa_expires_at auth)) ''expires_at'') (\<lambda>expires.
         ensure (\<not> (pm_request self \<noteq> request \<or> pm_permit_id self \<noteq> ''lpd_'' @ digest
             \<or> oa_identity_sha256 auth \<noteq> digest \<or> oa_schema_version auth \<noteq> 1
             \<or> oa_signer_key_id auth = [] \<or> oa_signature_base64 auth = []
             \<or> expires \<le> now \<or> expires \<le> issued \<or> now + PERMIT_SKEW < issued
             \<or> DELETE_AUTHORIZATION_MAX_TTL + PERMIT_SKEW < expires - issued))
           ''lake part permit identity or owner authorization differs'')))"

definition receipt_verify :: "gc_crates \<Rightarrow> delete_receipt \<Rightarrow> delete_permit \<Rightarrow> bool \<Rightarrow> unit res" where
  "receipt_verify gx self permit trusted_local =
     (let refused = Inl (Bail ''lake part authority omitted an exact durable absence receipt'') in
      if rc_schema_version self \<noteq> DELETE_CONTROL_SCHEMA_VERSION \<or> rc_permit_id self \<noteq> pm_permit_id permit
         \<or> rc_identity_sha256 self \<noteq> oa_identity_sha256 (pm_owner_authorization permit)
      then refused
      else
        bind_res (gx_digest gx trusted_local (pm_request permit)) (\<lambda>digest.
          if rc_identity_sha256 self \<noteq> digest \<or> rc_state self \<noteq> ''receipt_appended''
             \<or> \<not> rc_final_head_absent self \<or> \<not> is_sha256_hex (rc_receipt_sha256 self)
             \<or> rc_receipt_sha256 self = replicate 64 CHR ''0''
          then refused else Inr ()))"

section \<open>The authority and its world\<close>

record 'w gc_world =
  gw_supports :: "'w \<Rightarrow> (gc_error + bool) \<times> 'w"
  gw_authorize :: "delete_request \<Rightarrow> 'w \<Rightarrow> (gc_error + delete_permit) \<times> 'w"
  gw_prepare :: "delete_permit \<Rightarrow> 'w \<Rightarrow> (gc_error + delete_permit) \<times> 'w"
  gw_retire :: "delete_permit \<Rightarrow> 'w \<Rightarrow> (gc_error + delete_receipt) \<times> 'w"
  gw_now :: "'w \<Rightarrow> int"
  gw_instant :: "'w \<Rightarrow> int"
  gw_sleep_until :: "int \<Rightarrow> 'w \<Rightarrow> 'w"
  gw_receipted :: "'w \<Rightarrow> receipted_run option"
  gw_index :: "'w index_world"
  gw_reader :: "'w \<Rightarrow> nat \<Rightarrow> verified_entry option res"
  gw_checkpoint :: "'w \<Rightarrow> checkpoint_claim option res"
  gw_provenance :: "part_ref \<Rightarrow> provenance_record res"
  gw_b64 :: "string \<Rightarrow> string"
  gw_fence :: "error \<Rightarrow> string option"

section \<open>Pacing\<close>

definition MAX_AUTHORIZES_PER_MINUTE :: nat where "MAX_AUTHORIZES_PER_MINUTE = 240"
definition PACER_WINDOW :: int where "PACER_WINDOW = 60 * 1000000000"

record authorize_pacer =
  ap_per_minute :: nat
  ap_window_started :: "int option"
  ap_used :: nat

definition authorize_pacer_new :: "nat \<Rightarrow> authorize_pacer" where
  "authorize_pacer_new per_minute = \<lparr> ap_per_minute = max per_minute 1, ap_window_started = None, ap_used = 0 \<rparr>"

text \<open>One turn of the loop at time \<open>now\<close>: a slot, or the time to sleep until.\<close>

definition pacer_turn :: "authorize_pacer \<Rightarrow> int \<Rightarrow> int + authorize_pacer" where
  "pacer_turn self now =
     (let fresh = Inr (self\<lparr> ap_window_started := Some now, ap_used := 1 \<rparr>) in
      case ap_window_started self of
        None \<Rightarrow> fresh
      | Some started \<Rightarrow>
          if now < started + PACER_WINDOW
          then (if ap_used self < ap_per_minute self then Inr (self\<lparr> ap_used := ap_used self + 1 \<rparr>)
                else Inl (started + PACER_WINDOW))
          else fresh)"

text \<open>A sleep ends no earlier than its deadline, so the next turn reads at least that time.\<close>

function acquire_loop :: "(int \<Rightarrow> 'w \<Rightarrow> 'w) \<Rightarrow> ('w \<Rightarrow> int) \<Rightarrow> authorize_pacer \<Rightarrow> int \<Rightarrow> 'w \<Rightarrow> authorize_pacer \<times> int \<times> 'w" where
  "acquire_loop sleep_until instant self now w =
     (case pacer_turn self now of
        Inr self' \<Rightarrow> (self', now, w)
      | Inl deadline \<Rightarrow>
          (let w' = sleep_until deadline w in
           acquire_loop sleep_until instant self (max deadline (instant w')) w'))"
  by pat_completeness auto
termination
  by (relation "measure (\<lambda>(_, _, p, now, _). if isl (pacer_turn p now) then 1 else 0)")
    (auto simp: pacer_turn_def Let_def split: option.splits if_splits)

declare acquire_loop.simps [simp del]

definition pacer_acquire :: "'w gc_world \<Rightarrow> authorize_pacer \<Rightarrow> 'w \<Rightarrow> authorize_pacer \<times> 'w" where
  "pacer_acquire gw self w =
     (case acquire_loop (gw_sleep_until gw) (gw_instant gw) self (gw_instant gw w) w of (self', _, w') \<Rightarrow> (self', w'))"

section \<open>One delete\<close>

datatype step = Deleted deleted_key | SkipStep string | Stop string bool | WorkerFailure string

definition custody_held :: "gc_error \<Rightarrow> step option" where
  "custody_held e =
     (case e of
        CustodyHeld _ part_pinned \<Rightarrow> Some (if part_pinned then SkipStep CATALOG_PINNED else Stop CATALOG_CUSTODY_HELD True)
      | _ \<Rightarrow> None)"

definition worker_failed :: "gc_error \<Rightarrow> string \<Rightarrow> step" where
  "worker_failed e code = (case custody_held e of Some st \<Rightarrow> st | None \<Rightarrow> WorkerFailure code)"

text \<open>An error of the owner that is no refusal stops the pass with the error's text.\<close>

fun error_text :: "gc_error \<Rightarrow> string" where
  "error_text (Refusal refusal) = lr_code refusal"
| "error_text BearerRefused = ''owner refused the lake-part delete bearer (401)''"
| "error_text (CustodyHeld reason _) = ''catalog custody holds the part: '' @ reason"
| "error_text (OtherError text) = text"

definition authorize_refused :: "gc_error \<Rightarrow> step" where
  "authorize_refused e =
     (case e of
        Refusal refusal \<Rightarrow>
          (case refusal_action_of refusal of
             Pause \<Rightarrow> Stop (lr_code refusal) False
           | IndexIncomplete \<Rightarrow> Stop (lr_code refusal) False
           | BackOffPass \<Rightarrow> Stop (lr_code refusal) True
           | SkipKey \<Rightarrow> SkipStep (lr_code refusal))
      | _ \<Rightarrow> Stop (''owner_unavailable: '' @ error_text e) True)"

definition retire_one ::
  "'w gc_world \<Rightarrow> gc_crates \<Rightarrow> delete_request \<Rightarrow> bool \<Rightarrow> delete_permit \<Rightarrow> 'w \<Rightarrow> step \<times> 'w" where
  "retire_one gw gx request trusted_local permit w =
     (case gw_retire gw permit w of
        (Inl e, w) \<Rightarrow> (worker_failed e ''worker_retire_failed'', w)
      | (Inr receipt, w) \<Rightarrow>
          if \<not> is_ok (receipt_verify gx receipt permit trusted_local) then (Stop ''receipt_mismatch'' False, w)
          else (Deleted \<lparr> dk_key = dr_key request, dk_permit_id = pm_permit_id permit,
                          dk_receipt_sha256 = rc_receipt_sha256 receipt \<rparr>, w))"

definition prepare_one ::
  "'w gc_world \<Rightarrow> gc_crates \<Rightarrow> delete_request \<Rightarrow> bool \<Rightarrow> delete_permit \<Rightarrow> 'w \<Rightarrow> step \<times> 'w" where
  "prepare_one gw gx request trusted_local permit w =
     (case gw_prepare gw permit w of
        (Inl e, w) \<Rightarrow> (worker_failed e ''worker_prepare_failed'', w)
      | (Inr prepared, w) \<Rightarrow>
          if prepared \<noteq> permit then (Stop ''worker_prepare_mismatch'' False, w)
          else retire_one gw gx request trusted_local permit w)"

definition delete_one :: "'w gc_world \<Rightarrow> gc_crates \<Rightarrow> delete_request \<Rightarrow> bool \<Rightarrow> 'w \<Rightarrow> step \<times> 'w" where
  "delete_one gw gx request trusted_local w =
     (if \<not> is_ok (validate_with_local (gx_cal gx) trusted_local request) then (SkipStep ''invalid_request'', w)
      else
        case gw_authorize gw request w of
          (Inl e, w) \<Rightarrow> (authorize_refused e, w)
        | (Inr permit, w) \<Rightarrow>
            if \<not> is_ok (permit_verify gx permit request (gw_now gw w) trusted_local)
            then (Stop ''permit_mismatch'' False, w)
            else prepare_one gw gx request trusted_local permit w)"

section \<open>Executing a plan\<close>

record pass_report =
  pr_planned :: nat
  pr_deleted :: nat
  pr_skipped :: "(string, nat) bmap"
  pr_plan_skipped :: "(string, nat) bmap"
  pr_paused_reason :: "string option"
  pr_backoff :: bool
  pr_indexed :: nat
  pr_deleted_reported :: nat
  pr_deleted_report_failed :: "string option"
  pr_deleted_dropped :: nat
  pr_index_head_seq :: "nat option"
  pr_index_head_appended_ms :: "int option"
  pr_more_eligible :: bool

definition pass_report_default :: pass_report where
  "pass_report_default =
     \<lparr> pr_planned = 0, pr_deleted = 0, pr_skipped = [], pr_plan_skipped = [], pr_paused_reason = None,
       pr_backoff = False, pr_indexed = 0, pr_deleted_reported = 0, pr_deleted_report_failed = None,
       pr_deleted_dropped = 0, pr_index_head_seq = None, pr_index_head_appended_ms = None, pr_more_eligible = False \<rparr>"

definition report_skip :: "pass_report \<Rightarrow> string \<Rightarrow> pass_report" where
  "report_skip self code = self\<lparr> pr_skipped := count_skip code (pr_skipped self) \<rparr>"

definition report_pause :: "pass_report \<Rightarrow> string \<Rightarrow> bool \<Rightarrow> pass_report" where
  "report_pause self reason backoff = self\<lparr> pr_paused_reason := Some reason, pr_backoff := backoff \<rparr>"

definition index_not_caught_up :: "bool \<Rightarrow> string" where
  "index_not_caught_up settling = (if settling then INDEX_SETTLING else ''index_catching_up'')"

text \<open>What one execution carries from key to key; \<open>ex_through\<close> is \<open>PassIndex.through\<close>, \<open>None\<close>
  without an index.\<close>

record 'w exec =
  ex_report :: pass_report
  ex_deleted :: "deleted_key list"
  ex_refused :: refused_keys
  ex_pacer :: authorize_pacer
  ex_failures :: nat
  ex_resynced :: bool
  ex_through :: "nat option option"
  ex_w :: 'w

record exec_env =
  ee_crates :: gc_crates
  ee_iter :: iteration
  ee_tenant_uuid :: string
  ee_now_ms :: int
  ee_trusted_local :: bool

definition writer_advanced :: "'w gc_world \<Rightarrow> nat option \<Rightarrow> 'w \<Rightarrow> bool" where
  "writer_advanced gw through w =
     opt_is (\<lambda>seq. case through of None \<Rightarrow> True | Some through \<Rightarrow> through < seq)
       (Option.bind (gw_receipted gw w) completed_head)"

definition sync_env_of :: "'w gc_world \<Rightarrow> string \<Rightarrow> nat option option \<Rightarrow> int \<Rightarrow> 'w \<Rightarrow> sync_env" where
  "sync_env_of gw tenant_uuid view_target now_ms w =
     \<lparr> se_reader = gw_reader gw w, se_checkpoint = gw_checkpoint gw w, se_provenance = gw_provenance gw,
       se_b64 = gw_b64 gw, se_tenant_uuid = tenant_uuid, se_view_target = view_target, se_now_ms = now_ms,
       se_receipted_through = Option.bind (gw_receipted gw w) (\<lambda>run. receipted_through run now_ms) \<rparr>"

definition take_slot :: "'w gc_world \<Rightarrow> 'w exec \<Rightarrow> 'w exec" where
  "take_slot gw ex = (case pacer_acquire gw (ex_pacer ex) (ex_w ex) of (pacer, w) \<Rightarrow> ex\<lparr> ex_pacer := pacer, ex_w := w \<rparr>)"

definition run_delete :: "'w gc_world \<Rightarrow> exec_env \<Rightarrow> delete_request \<Rightarrow> 'w exec \<Rightarrow> step \<times> 'w exec" where
  "run_delete gw ee request ex =
     (case delete_one gw (ee_crates ee) request (ee_trusted_local ee) (ex_w ex) of (st, w) \<Rightarrow> (st, ex\<lparr> ex_w := w \<rparr>))"

definition resync_failed :: "'w gc_world \<Rightarrow> error \<Rightarrow> nat option \<Rightarrow> 'w exec \<Rightarrow> step \<times> 'w exec" where
  "resync_failed gw e pushed ex =
     (let ex = (case pushed of None \<Rightarrow> ex
           | Some n \<Rightarrow> ex\<lparr> ex_report := (ex_report ex)\<lparr> pr_indexed := pr_indexed (ex_report ex) + n \<rparr> \<rparr>) in
      (case gw_fence gw e of
         None \<Rightarrow> Stop ''log_unverifiable'' True
       | Some reason \<Rightarrow> Stop reason (reason = CREDENTIAL_REFRESH), ex))"

definition resync_synced ::
  "'w gc_world \<Rightarrow> exec_env \<Rightarrow> delete_request \<Rightarrow> index_status \<Rightarrow> nat \<Rightarrow> int option \<Rightarrow> 'w exec \<Rightarrow> step \<times> 'w exec" where
  "resync_synced gw ee request status pushed head_ms ex =
     (let through = ix_indexed_through_seq status;
          report = (ex_report ex)\<lparr> pr_indexed := pr_indexed (ex_report ex) + pushed, pr_index_head_seq := through,
            pr_index_head_appended_ms := head_ms \<rparr>;
          ex = take_slot gw (ex\<lparr> ex_report := report, ex_through := Some through \<rparr>) in
      if writer_advanced gw through (ex_w ex) then (Stop LOG_CATCHING_UP False, ex)
      else run_delete gw ee request ex)"

definition resync_and_retry :: "'w gc_world \<Rightarrow> exec_env \<Rightarrow> delete_request \<Rightarrow> 'w exec \<Rightarrow> step \<times> 'w exec" where
  "resync_and_retry gw ee request ex =
     (let ex = ex\<lparr> ex_resynced := True \<rparr> in
      case sync_index_inner (gw_index gw) (sync_env_of gw (ee_tenant_uuid ee) None (ee_now_ms ee) (ex_w ex)) (ex_w ex) of
        (r, w) \<Rightarrow>
          let ex = ex\<lparr> ex_w := w \<rparr> in
          case r of
            Inr (Synced status caught_up pushed _ head_ms settling) \<Rightarrow>
              if caught_up then resync_synced gw ee request status pushed head_ms ex
              else (Stop (index_not_caught_up settling) False, ex)
          | Inr (BackOffSync reason) \<Rightarrow> (Stop reason True, ex)
          | Inr (RefusedSync reason) \<Rightarrow> (Stop reason False, ex)
          | Inr RouteNotServed \<Rightarrow> (Stop ''index_route_not_served'' False, ex)
          | Inl (e, pushed) \<Rightarrow> resync_failed gw e pushed ex)"

definition delete_step :: "'w gc_world \<Rightarrow> exec_env \<Rightarrow> delete_request \<Rightarrow> 'w exec \<Rightarrow> step \<times> 'w exec" where
  "delete_step gw ee request ex =
     (case run_delete gw ee request ex of (st, ex') \<Rightarrow>
        if (case st of Stop reason _ \<Rightarrow> reason = ''lake_part_index_incomplete'' | _ \<Rightarrow> False)
           \<and> \<not> ex_resynced ex' \<and> ex_through ex' \<noteq> None
        then resync_and_retry gw ee request ex' else (st, ex'))"

text \<open>Applying a step: whether the loop goes on, and what it carries.\<close>

definition apply_step :: "exec_env \<Rightarrow> delete_request \<Rightarrow> step \<Rightarrow> 'w exec \<Rightarrow> bool \<times> 'w exec" where
  "apply_step ee request st ex =
     (case st of
        Deleted record \<Rightarrow>
          (True, ex\<lparr> ex_failures := 0, ex_report := (ex_report ex)\<lparr> pr_deleted := pr_deleted (ex_report ex) + 1 \<rparr>,
                    ex_deleted := ex_deleted ex @ [record] \<rparr>)
      | SkipStep code \<Rightarrow>
          (True, ex\<lparr> ex_refused := rk_remember (ee_iter ee) (ex_refused ex) (dr_key request) code (ee_now_ms ee),
                    ex_report := report_skip (ex_report ex) code \<rparr>)
      | WorkerFailure code \<Rightarrow>
          (let ex = ex\<lparr> ex_report := report_skip (ex_report ex) code, ex_failures := ex_failures ex + 1 \<rparr> in
           if MAX_CONSECUTIVE_WORKER_FAILURES \<le> ex_failures ex
           then (False, ex\<lparr> ex_report := report_pause (ex_report ex) ''worker_unavailable'' True \<rparr>)
           else (True, ex))
      | Stop reason backoff \<Rightarrow>
          (let report = (if reason = ''receipt_mismatch'' \<or> reason = ''permit_mismatch''
                 then report_skip (ex_report ex) reason else ex_report ex) in
           (False, ex\<lparr> ex_report := report_pause report reason backoff \<rparr>)))"

definition count_planned :: "'w exec \<Rightarrow> 'w exec" where
  "count_planned ex = ex\<lparr> ex_report := (ex_report ex)\<lparr> pr_planned := pr_planned (ex_report ex) + 1 \<rparr> \<rparr>"

definition pace_request :: "'w gc_world \<Rightarrow> exec_env \<Rightarrow> delete_request \<Rightarrow> 'w exec \<Rightarrow> 'w exec" where
  "pace_request gw ee request ex =
     (if \<not> ee_trusted_local ee \<and> is_ok (request_validate (gx_cal (ee_crates ee)) request) then take_slot gw ex else ex)"

definition ask_and_apply :: "'w gc_world \<Rightarrow> exec_env \<Rightarrow> delete_request \<Rightarrow> 'w exec \<Rightarrow> bool \<times> 'w exec" where
  "ask_and_apply gw ee request ex =
     (if opt_is (\<lambda>through. writer_advanced gw through (ex_w ex)) (ex_through ex)
      then (False, ex\<lparr> ex_report := report_pause (ex_report ex) LOG_CATCHING_UP False \<rparr>)
      else (case delete_step gw ee request ex of (st, ex') \<Rightarrow> apply_step ee request st ex'))"

definition execute_one :: "'w gc_world \<Rightarrow> exec_env \<Rightarrow> delete_request \<Rightarrow> 'w exec \<Rightarrow> bool \<times> 'w exec" where
  "execute_one gw ee request ex =
     (let ex = count_planned ex in
      if rk_is_refused (ex_refused ex) (dr_key request) (ee_now_ms ee)
      then (True, ex\<lparr> ex_report := report_skip (ex_report ex) ''recently_refused'' \<rparr>)
      else ask_and_apply gw ee request (pace_request gw ee request ex))"

fun execute_loop :: "'w gc_world \<Rightarrow> exec_env \<Rightarrow> delete_request list \<Rightarrow> 'w exec \<Rightarrow> 'w exec" where
  "execute_loop gw ee [] ex = ex"
| "execute_loop gw ee (request # rest) ex =
     (case execute_one gw ee request ex of (go, ex') \<Rightarrow> if go then execute_loop gw ee rest ex' else ex')"

definition execute_requests ::
  "'w gc_world \<Rightarrow> exec_env \<Rightarrow> delete_request list \<Rightarrow> deleted_key list \<Rightarrow> refused_keys \<Rightarrow> authorize_pacer
   \<Rightarrow> nat option option \<Rightarrow> 'w \<Rightarrow> 'w exec" where
  "execute_requests gw ee requests deleted refused pacer resync w =
     execute_loop gw ee requests
       \<lparr> ex_report = pass_report_default, ex_deleted = deleted, ex_refused = refused, ex_pacer = pacer, ex_failures = 0,
         ex_resynced = False, ex_through = resync, ex_w = w \<rparr>"

section \<open>Budgets and back-off\<close>

definition MAX_BACKOFF :: nat where "MAX_BACKOFF = 6 * 3600 * 1000000000"
definition DURATION_MAX :: nat where "DURATION_MAX = u64_max * 1000000000 + 999999999"

definition next_pass_delay :: "nat \<Rightarrow> nat \<Rightarrow> nat" where
  "next_pass_delay backoff_passes base =
     (if backoff_passes = 0 then base
      else min (min (base * 2 ^ min backoff_passes 16) DURATION_MAX) (max MAX_BACKOFF base))"

record inventory_budget =
  ib_deleted :: nat
  ib_budget :: nat

definition next_pass :: "inventory_budget \<Rightarrow> nat \<Rightarrow> nat option" where
  "next_pass self max_requests =
     (if ib_deleted self < ib_budget self then Some (min max_requests (ib_budget self - ib_deleted self)) else None)"

definition after_pass ::
  "inventory_budget \<Rightarrow> listed_part_object list \<Rightarrow> string list \<Rightarrow> refused_keys \<Rightarrow> int \<Rightarrow> pass_report
   \<Rightarrow> bool \<times> inventory_budget \<times> listed_part_object list" where
  "after_pass self objects receipted refused now_ms report =
     (let self = self\<lparr> ib_deleted := ib_deleted self + length receipted \<rparr>;
          kept = filter (\<lambda>object. lp_key object \<notin> set receipted \<and> \<not> rk_is_refused refused (lp_key object) now_ms) objects in
      (pr_paused_reason report = None \<and> length kept < length objects \<and> kept \<noteq> [] \<and> next_pass self 1 \<noteq> None, self, kept))"

section \<open>One pass\<close>

record gc_state =
  gs_view :: log_view
  gs_pending_deleted :: "deleted_key list"
  gs_backoff_passes :: nat
  gs_refused_keys :: refused_keys
  gs_pacer :: authorize_pacer

text \<open>The inputs of a pass that stay the same.\<close>

record pass_env =
  ps_log :: log_crates
  ps_crates :: gc_crates
  ps_uuid :: "string \<Rightarrow> string option"
  ps_iter :: iteration
  ps_tenant_id :: string
  ps_tenant_uuid :: string
  ps_objects :: "listed_part_object list"
  ps_now_ms :: int
  ps_policy :: gc_policy
  ps_bounded_fold_complete :: bool

definition pass_plan_env :: "pass_env \<Rightarrow> log_view \<Rightarrow> string bset \<Rightarrow> plan_env" where
  "pass_plan_env ps view live_keys =
     \<lparr> pe_cal = gx_cal (ps_crates ps), pe_tenant_id = ps_tenant_id ps, pe_tenant_uuid = ps_tenant_uuid ps, pe_view = view,
       pe_live_keys = live_keys, pe_now_ms = ps_now_ms ps, pe_policy = ps_policy ps \<rparr>"

definition pass_exec_env :: "pass_env \<Rightarrow> exec_env" where
  "pass_exec_env ps =
     \<lparr> ee_crates = ps_crates ps, ee_iter = ps_iter ps, ee_tenant_uuid = ps_tenant_uuid ps, ee_now_ms = ps_now_ms ps,
       ee_trusted_local = False \<rparr>"

text \<open>\<open>Iterator::next\<close> called \<open>n\<close> times: what a loop over the cursor that read \<open>n\<close> items leaves of it.\<close>

fun cursor_after :: "nat \<Rightarrow> plan_cursor \<Rightarrow> plan_cursor" where
  "cursor_after 0 c = c"
| "cursor_after (Suc n) c = cursor_after n (snd (cursor_next c))"

definition execute_plan ::
  "'w gc_world \<Rightarrow> pass_env \<Rightarrow> plan_cursor \<Rightarrow> pass_report \<Rightarrow> gc_state \<Rightarrow> 'w \<Rightarrow> pass_report \<times> gc_state \<times> 'w" where
  "execute_plan gw ps cursor report state w =
     (let requests = fst (plan_collect cursor);
          ex = execute_requests gw (pass_exec_env ps) requests (gs_pending_deleted state) (gs_refused_keys state)
            (gs_pacer state) (Some (pr_index_head_seq report)) w;
          done = ex_report ex;
          read = (if pr_paused_reason done = None then pr_planned done + 1 else pr_planned done);
          skipped = (if ps_bounded_fold_complete ps then pc_skipped (cursor_after read cursor)
                     else pc_skipped (snd (plan_collect cursor))) in
      (done\<lparr> pr_planned := (if ps_bounded_fold_complete ps then pr_planned done else length requests),
             pr_plan_skipped := skipped, pr_indexed := pr_indexed report + pr_indexed done,
             pr_index_head_seq := (case pr_index_head_seq done of Some s \<Rightarrow> Some s | None \<Rightarrow> pr_index_head_seq report),
             pr_index_head_appended_ms := (case pr_index_head_appended_ms done of Some t \<Rightarrow> Some t
               | None \<Rightarrow> pr_index_head_appended_ms report) \<rparr>,
       state\<lparr> gs_pending_deleted := ex_deleted ex, gs_refused_keys := ex_refused ex, gs_pacer := ex_pacer ex \<rparr>, ex_w ex))"

text \<open>Whether control's index is exactly the folded view.\<close>

definition index_view_check :: "pass_env \<Rightarrow> log_view \<Rightarrow> index_status \<Rightarrow> string option" where
  "index_view_check ps view status =
     (let head = ls_head (gv_live view) in
      if \<not> ps_bounded_fold_complete ps then None
      else if opt_is (\<lambda>indexed. case head of None \<Rightarrow> True | Some (seq, _, _) \<Rightarrow> seq < indexed) (ix_indexed_through_seq status)
      then Some LOG_CATCHING_UP
      else if ix_indexed_through_seq status \<noteq> map_option fst head
              \<or> ix_head_entry_sha256 status \<noteq> map_option (\<lambda>(_, sha, _). sha) head
      then Some ''index_complete_view_mismatch''
      else None)"

definition pass_synced ::
  "'w gc_world \<Rightarrow> pass_env \<Rightarrow> plan_cursor \<Rightarrow> sync_result \<Rightarrow> gc_state \<Rightarrow> 'w \<Rightarrow> pass_report \<times> gc_state \<times> 'w" where
  "pass_synced gw ps cursor r state w =
     (let report = pass_report_default in
      case r of
        Inr (Synced status caught_up pushed _ head_ms settling) \<Rightarrow>
          (let report = report\<lparr> pr_indexed := pushed, pr_index_head_seq := ix_indexed_through_seq status,
                 pr_index_head_appended_ms := head_ms \<rparr> in
           if \<not> caught_up then (report_pause report (index_not_caught_up settling) False, state, w)
           else
             case index_view_check ps (gs_view state) status of
               Some reason \<Rightarrow> (report_pause report reason False, state, w)
             | None \<Rightarrow> execute_plan gw ps cursor report state w)
      | Inr RouteNotServed \<Rightarrow> (report_pause report ''index_route_not_served'' False, state, w)
      | Inr (BackOffSync code) \<Rightarrow> (report_pause report code True, state, w)
      | Inr (RefusedSync code) \<Rightarrow> (report_pause report code False, state, w)
      | Inl (e, pushed) \<Rightarrow>
          (let report = (case pushed of None \<Rightarrow> report | Some n \<Rightarrow> report\<lparr> pr_indexed := n \<rparr>) in
           case gw_fence gw e of
             Some reason \<Rightarrow> (report_pause report reason (reason = CREDENTIAL_REFRESH), state, w)
           | None \<Rightarrow> (report_pause report ''log_unverifiable'' True, state, w)))"

definition pass_planned :: "'w gc_world \<Rightarrow> pass_env \<Rightarrow> gc_state \<Rightarrow> 'w \<Rightarrow> pass_report \<times> gc_state \<times> 'w" where
  "pass_planned gw ps state w =
     (case live_part_keys (ps_uuid ps) (gx_cal (ps_crates ps)) (ps_tenant_uuid ps) (gs_view state) (gw_provenance gw) of
        (keys, view) \<Rightarrow>
          let state = state\<lparr> gs_view := view \<rparr> in
          case keys of
            Inl _ \<Rightarrow> (report_pause pass_report_default ''live_keys_unresolved'' True, state, w)
          | Inr live_keys \<Rightarrow>
              (case plan_cursor_new (pass_plan_env ps view live_keys) (ps_objects ps) of
                 Inl _ \<Rightarrow> (report_pause pass_report_default ''policy_invalid'' False, state, w)
               | Inr cursor \<Rightarrow>
                   (case sync_index_inner (gw_index gw)
                       (sync_env_of gw (ps_tenant_uuid ps)
                         (if ps_bounded_fold_complete ps then Some (gc_head_seq view) else None) (ps_now_ms ps) w) w of
                      (r, w) \<Rightarrow> pass_synced gw ps cursor r state w)))"

definition gc_pass :: "'w gc_world \<Rightarrow> pass_env \<Rightarrow> gc_state \<Rightarrow> 'w \<Rightarrow> pass_report \<times> gc_state \<times> 'w" where
  "gc_pass gw ps state w =
     (case gw_supports gw w of
        (Inl _, w) \<Rightarrow> (report_pause pass_report_default ''worker_unavailable'' True, state, w)
      | (Inr False, w) \<Rightarrow> (report_pause pass_report_default ''worker_capability_missing'' False, state, w)
      | (Inr True, w) \<Rightarrow>
          if ps_bounded_fold_complete ps then pass_planned gw ps state w
          else
            (case catch_up_view_bounded (ps_log ps) (gw_reader gw w) MAX_LOG_ENTRIES_PER_PASS (gs_view state) of
               (Inl _, view) \<Rightarrow> (report_pause pass_report_default ''log_unverifiable'' True, state\<lparr> gs_view := view \<rparr>, w)
             | (Inr applied, view) \<Rightarrow>
                 if applied = MAX_LOG_ENTRIES_PER_PASS
                 then (report_pause pass_report_default ''log_catching_up'' False, state\<lparr> gs_view := view \<rparr>, w)
                 else pass_planned gw ps (state\<lparr> gs_view := view \<rparr>) w))"

definition drop_excess :: "pass_report \<Rightarrow> gc_state \<Rightarrow> pass_report \<times> gc_state" where
  "drop_excess report state =
     (let pending = gs_pending_deleted state; excess = length pending - MAX_PENDING_DELETED in
      if MAX_PENDING_DELETED < length pending
      then (report\<lparr> pr_deleted_dropped := excess \<rparr>, state\<lparr> gs_pending_deleted := drop excess pending \<rparr>)
      else (report, state))"

definition run_pass_inner :: "'w gc_world \<Rightarrow> pass_env \<Rightarrow> gc_state \<Rightarrow> 'w \<Rightarrow> pass_report \<times> gc_state \<times> 'w" where
  "run_pass_inner gw ps state w =
     (case gc_pass gw ps state w of (report, state, w) \<Rightarrow>
      case drop_excess report state of (report, state) \<Rightarrow>
      case (if gs_pending_deleted state = [] then (Inr 0, [], w)
            else report_deleted (gw_index gw) (ps_tenant_uuid ps) (gs_pending_deleted state) w) of (r, queue, w) \<Rightarrow>
        let report = (if gs_pending_deleted state = [] then report
              else case r of Inr reported \<Rightarrow> report\<lparr> pr_deleted_reported := reported \<rparr>
                | Inl code \<Rightarrow> report\<lparr> pr_deleted_report_failed := Some code \<rparr>) in
        (report,
         state\<lparr> gs_pending_deleted := queue,
                gs_backoff_passes := (if pr_backoff report then sat_add_u32 (gs_backoff_passes state) 1 else 0) \<rparr>, w))"

end
