(* ===== verification/Gc_Safety.thy ===== *)
theory Gc_Safety
  imports Gc_Planner
begin

text \<open>
  What the delete planner guarantees: a plan is the bounded prefix, in key order, of the eligible
  objects; it never names a live part, a log key or a file a live part's writer built; and, together
  with the rules of the part log, a part whose deletion was planned can never become live again.
\<close>

section \<open>A plan is a prefix of the eligible objects\<close>

definition request_of :: "plan_env \<Rightarrow> listed_part_object \<Rightarrow> delete_request option" where
  "request_of env object = (case eligible_request env object of Inr r \<Rightarrow> Some r | Inl _ \<Rightarrow> None)"

definition wanted :: "plan_env \<Rightarrow> listed_part_object list \<Rightarrow> delete_request list" where
  "wanted env objects = List.map_filter (request_of env) objects"

lemma wanted_simps [simp]:
  "wanted env [] = []"
  "wanted env (object # rest) = (case eligible_request env object of Inr r \<Rightarrow> r # wanted env rest | Inl _ \<Rightarrow> wanted env rest)"
  by (simp_all add: wanted_def map_filter_simps request_of_def split: sum.splits)

lemma wanted_member: "r \<in> set (wanted env objects) \<longleftrightarrow> (\<exists>object \<in> set objects. eligible_request env object = Inr r)"
  by (induction objects) (auto split: sum.splits)

abbreviation cursor_room :: "plan_cursor \<Rightarrow> nat" where
  "cursor_room c \<equiv> gp_max_requests (pe_policy (pc_env c)) - pc_emitted c"

lemma cursor_scan_wanted:
  assumes "cursor_scan c objects = (res, c')" "\<not> pc_truncated c"
  shows "case res of
      None \<Rightarrow> (if cursor_room c = 0 then pc_truncated c' \<longleftrightarrow> wanted (pc_env c) objects \<noteq> []
               else wanted (pc_env c) objects = [] \<and> \<not> pc_truncated c')
    | Some r \<Rightarrow> 0 < cursor_room c \<and> wanted (pc_env c) objects = r # wanted (pc_env c) (pc_objects c')
        \<and> pc_env c' = pc_env c \<and> cursor_room c' = cursor_room c - 1 \<and> \<not> pc_truncated c'"
  using assms
proof (induction c objects rule: cursor_scan.induct)
  case (2 self object rest)
  then show ?case
    by (cases "eligible_request (pc_env self) object") (auto split: if_splits option.splits)
qed (auto split: option.splits)

lemma plan_collect_wanted:
  assumes "plan_collect c = (rs, c')" "\<not> pc_truncated c"
  shows "rs = take (cursor_room c) (wanted (pc_env c) (pc_objects c))
    \<and> (pc_truncated c' \<longleftrightarrow> cursor_room c < length (wanted (pc_env c) (pc_objects c)))"
  using assms
proof (induction c arbitrary: rs c' rule: plan_collect.induct)
  case one: (1 c)
  obtain res d where nx: "cursor_next c = (res, d)" by fastforce
  then have scan: "cursor_scan c (pc_objects c) = (res, d)" using one.prems by (simp add: cursor_next_def)
  have open_c: "\<not> pc_truncated c" using one.prems by simp
  note facts = cursor_scan_wanted [OF scan open_c]
  show ?case
  proof (cases res)
    case None
    then show ?thesis using facts nx one.prems by (auto simp: plan_collect.simps [of c] split: if_splits)
  next
    case (Some r)
    obtain qs e where rest: "plan_collect d = (qs, e)" by fastforce
    then have c: "rs = r # qs" "c' = e" using Some nx one.prems(1) by (auto simp: plan_collect.simps [of c])
    have "qs = take (cursor_room d) (wanted (pc_env d) (pc_objects d))
      \<and> (pc_truncated e \<longleftrightarrow> cursor_room d < length (wanted (pc_env d) (pc_objects d)))"
      using one.IH [OF nx [symmetric] Some rest] facts Some by simp
    then show ?thesis using facts Some c by (cases "cursor_room c") auto
  qed
qed

lemma gc_plan_wanted:
  assumes "gc_plan env objects = Inr rep"
  shows "rp_requests rep = take (gp_max_requests (pe_policy env)) (wanted env (sorted_listing objects))"
    and "rp_truncated rep \<longleftrightarrow> gp_max_requests (pe_policy env) < length (wanted env (sorted_listing objects))"
    and "gc_policy_validate False (pe_policy env) = Inr ()"
  using assms
  by (auto simp: gc_plan_def plan_cursor_new_def res_simps split: prod.splits dest!: plan_collect_wanted)

lemma gc_plan_total: "gc_policy_validate False (pe_policy env) = Inr () \<Longrightarrow> \<exists>rep. gc_plan env objects = Inr rep"
  by (simp add: gc_plan_def plan_cursor_new_def case_prod_unfold)

lemma dedup_keys_strict:
  "sorted (map lp_key objects) \<Longrightarrow> sorted_wrt (<) (map lp_key (dedup_keys objects)) \<and> set (dedup_keys objects) \<subseteq> set objects"
proof (induction objects rule: dedup_keys.induct)
  case (1 a b rest)
  show ?case
  proof (cases "lp_key a = lp_key b")
    case True
    then show ?thesis using 1 by auto
  next
    case False
    then have IH: "sorted_wrt (<) (map lp_key (dedup_keys (b # rest)))" "set (dedup_keys (b # rest)) \<subseteq> set (b # rest)"
      using 1 by auto
    have "lp_key a < lp_key x" if "x \<in> set (dedup_keys (b # rest))" for x
      using 1(3) False that IH(2) by fastforce
    then show ?thesis using False IH by auto
  qed
qed auto

lemma sorted_listing_strict:
  "sorted_wrt (<) (map lp_key (sorted_listing objects))" "set (sorted_listing objects) \<subseteq> set objects"
  using dedup_keys_strict [of "sort_key lp_key objects"] by (auto simp: sorted_listing_def)

section \<open>What a planned request names\<close>

text \<open>Why a part's file may be deleted, given the entry that removed the part.\<close>

definition removed_reason :: "removal \<Rightarrow> part_file_key \<Rightarrow> int \<Rightarrow> gc_policy \<Rightarrow> delete_reason \<Rightarrow> bool" where
  "removed_reason m k now_ms policy reason \<longleftrightarrow>
     int (gp_grace_seconds policy) * 1000 \<le> sat_sub_i64 now_ms (rm_committed_at_ms m)
     \<and> (reason = Superseded \<and> rm_kind m \<noteq> RRetire \<and> \<not> is_provenance_key k
        \<or> reason = Retention_Delete
          \<and> (\<exists>days. gp_retention_days policy = Some days
               \<and> sat_add_i64 (day_end_ms k) (int days * DAY_MS) \<le> now_ms))"

definition orphan_reason :: "plan_env \<Rightarrow> part_file_key \<Rightarrow> delete_reason \<Rightarrow> bool" where
  "orphan_reason env k reason \<longleftrightarrow>
     reason = Orphan \<and> gv_from_genesis (pe_view env) \<and> \<not> gc_is_known (pe_view env) (fk_part_id k)
     \<and> created_unix_ms (fk_part_id k) + ID_MEMORY_MS + ORPHAN_ID_MEMORY_MARGIN_MS \<le> pe_now_ms env"

definition deletable :: "plan_env \<Rightarrow> part_file_key \<Rightarrow> delete_reason \<Rightarrow> bool" where
  "deletable env k reason \<longleftrightarrow>
     (case gc_removal (pe_view env) (fk_part_id k) of
        Some m \<Rightarrow> removed_reason m k (pe_now_ms env) (pe_policy env) reason
      | None \<Rightarrow> orphan_reason env k reason)"

lemma base_key: "dr_key (request_base a b key c d e) = key" "dr_reason (request_base a b key c d e) = e"
  "dr_tenant_uuid (request_base a b key c d e) = b"
  by (simp_all add: request_base_def)

lemma plan_removed_Inr:
  assumes "plan_removed cal (request_base a b key c d) k m now_ms policy (int (gp_grace_seconds policy) * 1000) = Inr r"
  shows "removed_reason m k now_ms policy (dr_reason r) \<and> dr_key r = key \<and> dr_tenant_uuid r = b"
  using assms
  by (cases "rm_kind m")
    (auto simp: plan_removed_def removed_reason_def with_removal_def base_key not_less split: if_splits option.splits)

lemma eligible_request_Inr:
  assumes "eligible_request_with_local env loc object = Inr r"
  shows "\<exists>k. parse_part_file_key (pe_cal env) (dr_key r) = Some k \<and> dr_key r = lp_key object
    \<and> fk_tenant_uuid k = pe_tenant_uuid env \<and> dr_tenant_uuid r = pe_tenant_uuid env
    \<and> \<not> gc_is_live (pe_view env) (fk_part_id k) \<and> \<not> bhas (pe_live_keys env) (dr_key r)
    \<and> validate_with_local (pe_cal env) loc r = Inr () \<and> deletable env k (dr_reason r)"
proof -
  let ?ms = "int (gp_grace_seconds (pe_policy env)) * 1000" and ?os = "int (gp_orphan_min_age_seconds (pe_policy env)) * 1000"
  have one: "plan_one (pe_cal env) (pe_tenant_id env) (pe_tenant_uuid env) (pe_view env) object (pe_now_ms env)
      (pe_policy env) ?ms ?os = Inr r"
    and rest: "\<not> bhas (pe_live_keys env) (dr_key r)" "validate_with_local (pe_cal env) loc r = Inr ()"
    using assms by (auto simp: eligible_request_with_local_def is_ok_iff split: sum.splits if_splits)
  obtain k where k: "parse_part_file_key (pe_cal env) (lp_key object) = Some k" "fk_tenant_uuid k = pe_tenant_uuid env"
    "\<not> gc_is_live (pe_view env) (fk_part_id k)"
    using one by (auto simp: plan_one_def split: if_splits option.splits)
  have "dr_key r = lp_key object \<and> dr_tenant_uuid r = pe_tenant_uuid env \<and> deletable env k (dr_reason r)"
  proof (cases "gc_removal (pe_view env) (fk_part_id k)")
    case (Some m)
    then show ?thesis
      using one k plan_removed_Inr by (fastforce simp: plan_one_def deletable_def split: if_splits)
  next
    case None
    then show ?thesis
      using one k by (auto simp: plan_one_def deletable_def orphan_reason_def base_key split: if_splits)
  qed
  then show ?thesis using k rest by metis
qed

lemma gc_plan_eligible:
  assumes "gc_plan env objects = Inr rep" "r \<in> set (rp_requests rep)"
  shows "\<exists>object \<in> set objects. eligible_request env object = Inr r"
  using assms sorted_listing_strict(2) [of objects]
  by (auto simp: gc_plan_wanted(1) wanted_member dest!: in_set_takeD) blast

lemma wanted_keys_strict:
  assumes "sorted_wrt (<) (map lp_key objects)"
  shows "sorted_wrt (<) (map dr_key (wanted env objects))"
  using assms
proof (induction objects)
  case (Cons object rest)
  have key: "eligible_request env x = Inr r \<Longrightarrow> dr_key r = lp_key x" for x r
    using eligible_request_Inr by (fastforce simp: eligible_request_def)
  show ?case
    using Cons by (auto simp: wanted_member key split: sum.splits)
qed simp

text \<open>
  A plan is bounded and ordered: at most \<open>max_requests\<close> requests, in strictly increasing key order,
  being the first eligible objects of the listing in key order; it is marked truncated exactly when
  more eligible objects remain.
\<close>

lemma plan_bounded_ordered:
  assumes "gc_plan env objects = Inr rep"
  shows "length (rp_requests rep) \<le> gp_max_requests (pe_policy env)
    \<and> sorted_wrt (<) (map dr_key (rp_requests rep))
    \<and> rp_requests rep = take (gp_max_requests (pe_policy env)) (wanted env (sorted_listing objects))
    \<and> (rp_truncated rep \<longleftrightarrow> gp_max_requests (pe_policy env) < length (wanted env (sorted_listing objects)))"
  using gc_plan_wanted [OF assms] sorted_wrt_take [OF wanted_keys_strict [OF sorted_listing_strict(1)]]
  by (simp add: take_map)

section \<open>Selecting from a complete listing\<close>

definition not_refused :: "inventory_selection \<Rightarrow> listed_part_object \<Rightarrow> bool" where
  "not_refused sel object \<longleftrightarrow>
     \<not> opt_is (\<lambda>refused. rk_is_refused refused (lp_key object) (pe_now_ms (is_env sel))) (is_refused sel)"

lemma fold_selection: "fold (selection_step sel) listing out = out @ take (selection_limit sel - length out) (filter (selection_eligible sel) listing)"
proof (induction listing arbitrary: out)
  case (Cons object rest)
  show ?case
    using Cons [of "selection_step sel object out"]
    by (auto simp: selection_step_def take_Cons')
qed simp

lemma selected_wanted:
  "wanted (is_env sel) (take n (filter (selection_eligible sel) listing)) = take n (wanted (is_env sel) (filter (not_refused sel) listing))"
proof (induction listing arbitrary: n)
  case (Cons object rest)
  have "selection_eligible sel object \<longleftrightarrow> not_refused sel object \<and> (\<exists>r. eligible_request (is_env sel) object = Inr r)"
    by (auto simp: selection_eligible_def not_refused_def split: sum.splits)
  then show ?case using Cons by (cases n) (auto split: sum.splits)
qed simp

lemma sorted_listing_id: "sorted_wrt (<) (map lp_key objects) \<Longrightarrow> sorted_listing objects = objects"
proof -
  assume strict: "sorted_wrt (<) (map lp_key objects)"
  have "dedup_keys objects = objects"
    using strict by (induction objects rule: dedup_keys.induct) auto
  moreover have "sort_key lp_key objects = objects"
    using strict by (intro sort_key_id_if_sorted) (metis strict_sorted_imp_sorted)
  ultimately show ?thesis by (simp add: sorted_listing_def)
qed

lemma strict_filter: "sorted_wrt (<) (map f xs) \<Longrightarrow> sorted_wrt (<) (map f (filter P xs))"
  by (simp add: sorted_wrt_map sorted_wrt_filter)

text \<open>
  C24: scanning a listing in key order and keeping only the first eligible objects that are not
  remembered as refused loses nothing: the plan over the kept objects is the prefix, up to the number
  kept, of the plan over the whole listing without the refused keys.
\<close>

theorem selection_is_plan_prefix:
  assumes "sorted_wrt (<) (map lp_key listing)"
    and "gc_plan (is_env sel) (scan_selected sel listing) = Inr rep"
    and "gc_plan (is_env sel) (filter (not_refused sel) listing) = Inr full"
  shows "rp_requests rep = take (selection_limit sel) (rp_requests full)"
proof -
  let ?kept = "take (selection_limit sel) (filter (selection_eligible sel) listing)"
  have strict: "sorted_wrt (<) (map lp_key ?kept)"
    using strict_filter [OF assms(1)] sorted_wrt_take by (metis take_map)
  have "scan_selected sel listing = ?kept"
    using strict_sorted_imp_sorted [OF strict] by (simp add: scan_selected_def fold_selection sort_key_id_if_sorted)
  then show ?thesis
    using gc_plan_wanted(1) [OF assms(2)] gc_plan_wanted(1) [OF assms(3)] sorted_listing_id [OF strict]
      sorted_listing_id [OF strict_filter [OF assms(1)]] selected_wanted [of sel]
    by (simp add: min.commute)
qed

section \<open>The view of a log\<close>

fun gc_replay :: "log_crates \<Rightarrow> log_view \<Rightarrow> (log_entry \<times> string) list \<Rightarrow> log_view res" where
  "gc_replay lc view [] = Inr view"
| "gc_replay lc view ((entry, sha) # rest) =
     (case gc_apply lc view entry sha of (Inl e, _) \<Rightarrow> Inl e | (Inr _, view') \<Rightarrow> gc_replay lc view' rest)"

lemma gc_apply_Inr:
  "gc_apply lc view entry sha = (Inr u, view') \<longleftrightarrow>
     (\<exists>live. live_apply lc (gv_live view) entry sha = (Inr (), live)
        \<and> view' = view\<lparr> gv_live := live, gv_removals := gc_removals_of entry sha (gv_removals view),
                          gv_known := gc_known_of entry (gv_known view) \<rparr>)"
  by (auto simp: gc_apply_def split: prod.splits sum.splits)

lemma gc_apply_Inl: "gc_apply lc view entry sha = (Inl e, view') \<Longrightarrow> fst (live_apply lc (gv_live view) entry sha) = Inl e"
  by (auto simp: gc_apply_def split: prod.splits sum.splits)

lemma gc_replay_append: "gc_replay lc view (es @ fs) = bind_res (gc_replay lc view es) (\<lambda>view'. gc_replay lc view' fs)"
  by (induction lc view es rule: gc_replay.induct) (auto split: prod.splits sum.splits)

lemma fold_bput_has: "bhas (fold (\<lambda>x. bput (f x) v) xs m) k \<longleftrightarrow> k \<in> f ` set xs \<or> bhas m k"
  by (induction xs arbitrary: m) (auto simp: bmap_simps)

lemma fold_bput_get: "map_of (fold (\<lambda>x. bput x v) xs m) k = (if k \<in> set xs then Some v else map_of m k)"
  by (induction xs arbitrary: m) (auto simp: bmap_simps)

lemma gc_known_of_has: "bhas (gc_known_of e known) pid \<longleftrightarrow> pid \<in> pt_part_id ` set (op_added (le_op e)) \<or> bhas known pid"
  by (cases "le_op e") (auto simp: gc_known_of_def fold_bput_has bmap_simps)

fun removal_kind_of :: "log_op \<Rightarrow> removal_kind" where
  "removal_kind_of (Merge _ _) = RMerge"
| "removal_kind_of (Rewrite _ _ _) = RRewrite"
| "removal_kind_of _ = RRetire"

definition removal_by :: "log_entry \<Rightarrow> string \<Rightarrow> removal" where
  "removal_by e sha = \<lparr> rm_seq = le_seq e, rm_entry_sha256 = sha, rm_kind = removal_kind_of (le_op e),
     rm_committed_at_ms = le_appended_at_ms e \<rparr>"

lemma gc_removals_of_get:
  "map_of (gc_removals_of e sha removals) pid =
     (if pid \<in> set (op_removed (le_op e)) then Some (removal_by e sha) else map_of removals pid)"
  by (cases "le_op e") (auto simp: gc_removals_of_def gc_remove_def fold_bput_get removal_by_def Let_def)

text \<open>What a view folded from the first entry knows of the log.\<close>

definition view_of :: "log_crates \<Rightarrow> (log_entry \<times> string) list \<Rightarrow> log_view \<Rightarrow> bool" where
  "view_of lc es view \<longleftrightarrow>
     gv_from_genesis view \<and> replay lc empty_live_set es = Inr (gv_live view)
     \<and> (\<forall>pid. bhas (gv_known view) pid \<longleftrightarrow> pid \<in> pt_part_id ` set (log_added es))
     \<and> (\<forall>pid. gc_removal view pid = None \<longleftrightarrow> pid \<notin> set (log_removed es))
     \<and> (\<forall>pid m. gc_removal view pid = Some m \<longrightarrow>
          (\<exists>(e, sha) \<in> set es. pid \<in> set (op_removed (le_op e)) \<and> m = removal_by e sha))"

lemma view_of_step:
  assumes "view_of lc es view" "gc_apply lc view e sha = (Inr u, view')"
  shows "view_of lc (es @ [(e, sha)]) view'"
proof -
  obtain live where live: "live_apply lc (gv_live view) e sha = (Inr (), live)"
    and view': "view' = view\<lparr> gv_live := live, gv_removals := gc_removals_of e sha (gv_removals view),
        gv_known := gc_known_of e (gv_known view) \<rparr>"
    using assms(2) by (auto simp: gc_apply_Inr)
  show ?thesis
    unfolding view_of_def
  proof (intro conjI)
    show "replay lc empty_live_set (es @ [(e, sha)]) = Inr (gv_live view')"
      using assms(1) live by (simp add: view_of_def replay_append view')
    show "\<forall>pid m. gc_removal view' pid = Some m \<longrightarrow>
        (\<exists>(e, sha) \<in> set (es @ [(e, sha)]). pid \<in> set (op_removed (le_op e)) \<and> m = removal_by e sha)"
      using assms(1) by (auto simp: view_of_def gc_removal_def view' gc_removals_of_get split: if_splits)
  qed (use assms(1) in \<open>auto simp: view_of_def gc_removal_def view' gc_removals_of_get gc_known_of_has\<close>)
qed

lemma gc_replay_view: "gc_replay lc gc_genesis es = Inr view \<Longrightarrow> view_of lc es view"
proof (induction es arbitrary: view rule: rev_induct)
  case Nil
  then show ?case
    by (auto simp: view_of_def gc_genesis_def gc_removal_def log_added_def log_removed_def)
next
  case (snoc x es)
  obtain e sha where x: "x = (e, sha)" by fastforce
  obtain v where v: "gc_replay lc gc_genesis es = Inr v" "gc_replay lc v [(e, sha)] = Inr view"
    using snoc.prems by (auto simp: x gc_replay_append bind_res_Inr)
  moreover have "gc_apply lc v e sha = (Inr (), view)"
    using v(2) by (cases "gc_apply lc v e sha") (auto split: sum.splits)
  ultimately show ?case using snoc.IH view_of_step by (simp add: x)
qed

section \<open>Safety of a plan\<close>

text \<open>
  C6: a plan never names what is in use. Every request of a plan names an exact part file of the
  tenant that is no log key, belongs to no live part, is none of the live keys, and may go for its
  stated reason: a superseded or retired part whose removing entry is at least the grace old (the
  provenance only under retention), or a part no entry ever added. In particular no file under the
  directory a live part's writer built is ever named, whatever the file's name.
\<close>

theorem plan_spares_live:
  assumes "gc_plan env objects = Inr rep" "r \<in> set (rp_requests rep)"
  shows "\<exists>k. parse_part_file_key (pe_cal env) (dr_key r) = Some k \<and> fk_tenant_uuid k = pe_tenant_uuid env
    \<and> \<not> is_log_key (dr_key r) \<and> \<not> gc_is_live (pe_view env) (fk_part_id k)
    \<and> \<not> bhas (pe_live_keys env) (dr_key r) \<and> deletable env k (dr_reason r)
    \<and> (\<forall>p canon dir name. gc_is_live (pe_view env) (pt_part_id p) \<and> part_id_ok (pt_part_id p)
         \<and> part_keys_new canon (cal_civil (pe_cal env)) (pe_tenant_uuid env) (pt_level p) (pt_event_hour p) (pt_part_id p)
             = Inr dir
         \<longrightarrow> dr_key r \<noteq> part_file dir name)"
proof -
  obtain object where "eligible_request env object = Inr r" using gc_plan_eligible [OF assms] by blast
  then obtain k where k: "parse_part_file_key (pe_cal env) (dr_key r) = Some k" "fk_tenant_uuid k = pe_tenant_uuid env"
    "\<not> gc_is_live (pe_view env) (fk_part_id k)" "\<not> bhas (pe_live_keys env) (dr_key r)" "deletable env k (dr_reason r)"
    using eligible_request_Inr unfolding eligible_request_def by blast
  have uuid: "is_uuid_v4 (pe_tenant_uuid env)" using parse_part_file_key_Some(1) [OF k(1)] k(2) by simp
  have "dr_key r \<noteq> part_file dir name"
    if "gc_is_live (pe_view env) (pt_part_id p)" "part_id_ok (pt_part_id p)"
      "part_keys_new canon (cal_civil (pe_cal env)) (pe_tenant_uuid env) (pt_level p) (pt_event_hour p) (pt_part_id p) = Inr dir"
    for p canon dir name
    using own_key_part [OF that(3) uuid that(2), of "pe_cal env" name k] k that(1) by auto
  then show ?thesis using k log_key_not_part_file [OF k(1)] by blast
qed

lemma added_in_memory:
  assumes "replay lc ls fs = Inr ls'" "ls_wf ls"
  shows "\<forall>p \<in> set (log_added fs). \<exists>t \<in> set (log_times fs). sat_sub_i64 t ID_MEMORY_MS \<le> created_unix_ms (pt_part_id p)"
  using assms
proof (rule replay_induct)
  show "\<forall>p \<in> set (log_added (pre @ [(e, sha)])). \<exists>t \<in> set (log_times (pre @ [(e, sha)])).
      sat_sub_i64 t ID_MEMORY_MS \<le> created_unix_ms (pt_part_id p)"
    if "ls_wf a" "\<forall>p \<in> set (log_added pre). \<exists>t \<in> set (log_times pre). sat_sub_i64 t ID_MEMORY_MS \<le> created_unix_ms (pt_part_id p)"
      "spec_apply lc a e sha = Inr b" for pre e sha a b
    using that(2) apply_effect(4) [OF that(1,3)] by (auto simp: log_times_def add_ok_def)
qed (simp add: log_added_def)

lemma log_added_append: "log_added (es @ fs) = log_added es @ log_added fs"
  "log_removed (es @ fs) = log_removed es @ log_removed fs" "log_times (es @ fs) = log_times es @ log_times fs"
  by (simp_all add: log_added_def log_removed_def log_times_def)

lemma orphan_not_added_later:
  assumes "replay lc ls fs = Inr ls'" "ls_wf ls" "part_id_ok pid"
    and "created_unix_ms pid + ID_MEMORY_MS + ORPHAN_ID_MEMORY_MARGIN_MS \<le> now"
    and "\<forall>t \<in> set (log_times fs). now - ORPHAN_ID_MEMORY_MARGIN_MS < t"
  shows "pid \<notin> pt_part_id ` set (log_added fs)"
proof
  assume "pid \<in> pt_part_id ` set (log_added fs)"
  then obtain t where t: "t \<in> set (log_times fs)" "sat_sub_i64 t ID_MEMORY_MS \<le> created_unix_ms pid"
    using added_in_memory [OF assms(1,2)] by blast
  then have "now - ORPHAN_ID_MEMORY_MARGIN_MS < t" using assms(5) by blast
  then show False
    using t(2) assms(4) created_unix_ms_bounds [OF assms(3)] by (auto simp: sat_sub_i64_def int_bounds)
qed

lemma planned_part_stays_dead:
  assumes v: "view_of lc es (pe_view env)"
    and k: "parse_part_file_key cal key = Some k" "deletable env k reason"
    and log: "replay lc empty_live_set (es @ fs) = Inr ls" "sorted (log_times (es @ fs))"
    and later: "\<forall>t \<in> set (log_times fs). pe_now_ms env - ORPHAN_ID_MEMORY_MARGIN_MS < t"
  shows "map_of (ls_live ls) (fk_part_id k) = None"
proof -
  have live: "p \<in> set (log_added (es @ fs)) \<and> pt_part_id p = fk_part_id k \<and> fk_part_id k \<notin> set (log_removed (es @ fs))"
    if "map_of (ls_live ls) (fk_part_id k) = Some p" for p
    using replay_log_inv [OF log] that unfolding log_inv_def by blast
  show ?thesis
  proof (cases "gc_removal (pe_view env) (fk_part_id k)")
    case (Some m)
    then have "fk_part_id k \<in> set (log_removed es)" using v unfolding view_of_def by (metis option.distinct(1))
    then show ?thesis using live by (cases "map_of (ls_live ls) (fk_part_id k)") (auto simp: log_added_append)
  next
    case None
    then have orphan: "fk_part_id k \<notin> pt_part_id ` set (log_added es)"
      "created_unix_ms (fk_part_id k) + ID_MEMORY_MS + ORPHAN_ID_MEMORY_MARGIN_MS \<le> pe_now_ms env"
      using v k(2) by (auto simp: deletable_def orphan_reason_def view_of_def gc_is_known_def)
    have "replay lc (gv_live (pe_view env)) fs = Inr ls" "ls_wf (gv_live (pe_view env))"
      using log(1) v replay_wf [OF _ ls_wf_empty] by (auto simp: view_of_def replay_append)
    then have "fk_part_id k \<notin> pt_part_id ` set (log_added fs)"
      using parse_part_file_key_Some(2) [OF k(1)] orphan(2) later by (rule orphan_not_added_later)
    then show ?thesis
      using orphan(1) live by (cases "map_of (ls_live ls) (fk_part_id k)") (auto simp: log_added_append image_iff)
  qed
qed

text \<open>
  What a plan deletes is never needed again. Take a view folded from the first entry of a log, a
  plan made from it at some time, and any continuation of the log, with non-decreasing times, whose
  entries are dated after that time less the hour of clock margin. The part of a planned request is
  not live at the end of the continued log, so no reader of the log ever asks for the deleted file.
\<close>

lemma deleted_part_stays_dead:
  assumes "gc_replay lc gc_genesis es = Inr (pe_view env)"
    and "gc_plan env objects = Inr rep" "r \<in> set (rp_requests rep)"
    and "replay lc empty_live_set (es @ fs) = Inr ls" "sorted (log_times (es @ fs))"
    and "\<forall>t \<in> set (log_times fs). pe_now_ms env - ORPHAN_ID_MEMORY_MARGIN_MS < t"
  shows "\<exists>k. parse_part_file_key (pe_cal env) (dr_key r) = Some k \<and> map_of (ls_live ls) (fk_part_id k) = None"
proof -
  obtain object where "eligible_request env object = Inr r" using gc_plan_eligible [OF assms(2,3)] by blast
  then obtain k where "parse_part_file_key (pe_cal env) (dr_key r) = Some k" "deletable env k (dr_reason r)"
    using eligible_request_Inr unfolding eligible_request_def by blast
  then show ?thesis using planned_part_stays_dead [OF gc_replay_view [OF assms(1)] _ _ assms(4-6)] by blast
qed

section \<open>Keys of live parts\<close>

lemma insert_all_has: "bhas (insert_all names keys) k \<longleftrightarrow> k \<in> set names \<or> bhas keys k"
  by (simp add: insert_all_def fold_bput_has [where f = "\<lambda>x. x", simplified])

lemma adopted_key_Inr:
  assumes "adopted_key reader part dir adopted = Inr (key, adopted')"
  shows "map_of adopted' (pt_part_id part) = Some key" and "map_of adopted \<subseteq>\<^sub>m map_of adopted'"
  using assms by (auto simp: adopted_key_def map_le_def bmap_simps res_simps split: option.splits)

lemma live_keys_loop_keeps:
  "live_keys_loop keys_new reader parts keys adopted = (Inr ks, adopted') \<Longrightarrow>
     (\<forall>k. bhas keys k \<longrightarrow> bhas ks k) \<and> map_of adopted \<subseteq>\<^sub>m map_of adopted'"
proof (induction keys_new reader parts keys adopted rule: live_keys_loop.induct)
  case (2 keys_new reader part rest keys adopted)
  then show ?case
    by (auto simp: Let_def insert_all_has bmap_simps split: sum.splits if_splits dest: adopted_key_Inr(2) intro: map_le_trans)
qed simp

lemma live_keys_loop_covers:
  assumes "live_keys_loop keys_new reader parts keys adopted = (Inr ks, adopted')" "part \<in> set parts"
  shows "\<exists>dir. keys_new (pt_level part) (pt_event_hour part) (pt_part_id part) = Inr dir
    \<and> (\<forall>k \<in> set (part_dir_keys dir (pt_data_files part)). bhas ks k)
    \<and> (\<not> pt_sorted part \<longrightarrow> (\<exists>key. map_of adopted' (pt_part_id part) = Some key \<and> bhas ks key))"
  using assms
proof (induction keys_new reader parts keys adopted rule: live_keys_loop.induct)
  case (2 keys_new reader p rest keys adopted)
  obtain dir where dir: "keys_new (pt_level p) (pt_event_hour p) (pt_part_id p) = Inr dir"
    using 2(3) by (auto split: sum.splits)
  let ?keys = "insert_all (part_dir_keys dir (pt_data_files p)) keys"
  show ?case
  proof (cases "pt_sorted p")
    case True
    then have run: "live_keys_loop keys_new reader rest ?keys adopted = (Inr ks, adopted')"
      using 2(3) dir by (simp add: Let_def)
    then show ?thesis
      using 2(1) [OF dir refl True run] 2(4) dir True live_keys_loop_keeps [OF run] by (auto simp: insert_all_has)
  next
    case False
    then obtain key m where ad: "adopted_key reader p dir adopted = Inr (key, m)"
      and run: "live_keys_loop keys_new reader rest (bput key () ?keys) m = (Inr ks, adopted')"
      using 2(3) dir by (auto simp: Let_def split: sum.splits)
    have "map_of adopted' (pt_part_id p) = Some key"
      using adopted_key_Inr(1) [OF ad] live_keys_loop_keeps [OF run] by (auto simp: map_le_def dom_def)
    then show ?thesis
      using 2(2) [OF dir refl False ad refl run] 2(4) dir live_keys_loop_keeps [OF run]
      by (auto simp: insert_all_has bmap_simps)
  qed
qed simp

text \<open>Every file of a live part's directory, and the object an adopted part serves, is a live key.\<close>

lemma live_part_keys_cover:
  assumes "live_part_keys canon cal tenant view reader = (Inr ks, view')" "(pid, part) \<in> set (ls_live (gv_live view))"
  shows "\<exists>dir. part_keys_new canon (cal_civil cal) tenant (pt_level part) (pt_event_hour part) (pt_part_id part) = Inr dir
    \<and> (\<forall>k \<in> set (part_dir_keys dir (pt_data_files part)). bhas ks k)
    \<and> (\<not> pt_sorted part \<longrightarrow> (\<exists>key. map_of (gv_adopted_keys view') (pt_part_id part) = Some key \<and> bhas ks key))"
proof -
  let ?cached = "bretain (\<lambda>pid _. map_of (ls_live (gv_live view)) pid \<noteq> None) (gv_adopted_keys view)"
  obtain r m where loop: "live_keys_loop (part_keys_new canon (cal_civil cal) tenant) reader (map snd (ls_live (gv_live view))) [] ?cached = (r, m)"
    by fastforce
  then have "r = Inr ks" "gv_adopted_keys view' = m" using assms(1) by (auto simp: live_part_keys_def)
  moreover have "part \<in> set (map snd (ls_live (gv_live view)))" using assms(2) by force
  ultimately show ?thesis using live_keys_loop_covers loop by simp
qed

section \<open>A concrete plan\<close>

definition demo_prefix :: "(log_entry \<times> string) list" where "demo_prefix = take 3 demo_log"

definition demo_rest :: "(log_entry \<times> string) list" where "demo_rest = drop 3 demo_log"

definition demo_view :: log_view where
  "demo_view = (case gc_replay demo_lc gc_genesis demo_prefix of Inr v \<Rightarrow> v | Inl _ \<Rightarrow> gc_genesis)"

lemma gc_replay_ok: "replay lc (gv_live view) es = Inr ls \<Longrightarrow> \<exists>view'. gc_replay lc view es = Inr view'"
proof (induction lc view es rule: gc_replay.induct)
  case (2 lc view e sha rest)
  then show ?case
    by (cases "live_apply lc (gv_live view) e sha") (fastforce simp: gc_apply_def split: sum.splits)
qed simp

lemma demo_split: "demo_log = demo_prefix @ demo_rest"
  by (simp add: demo_prefix_def demo_rest_def)

lemma demo_view_replay: "gc_replay demo_lc gc_genesis demo_prefix = Inr demo_view"
proof -
  obtain ls where "replay demo_lc empty_live_set demo_prefix = Inr ls"
    using demo_replay by (auto simp: demo_split replay_append bind_res_Inr)
  then have "\<exists>v. gc_replay demo_lc gc_genesis demo_prefix = Inr v"
    using gc_replay_ok [of demo_lc gc_genesis] by (simp add: gc_genesis_def)
  then show ?thesis by (auto simp: demo_view_def)
qed

definition demo_object :: listed_part_object where
  "demo_object = \<lparr> lp_key = part_file (demo_dir L0 (demo_pid ''01'')) ''data-00007.parquet'', lp_strong_etag = CHR 0x22 # ''a'' @ [CHR 0x22],
     lp_content_length = 5, lp_uploaded_at_ms = 20 \<rparr>"

definition demo_env :: plan_env where
  "demo_env = \<lparr> pe_cal = demo_calendar, pe_tenant_id = ''acme'', pe_tenant_uuid = demo_tenant, pe_view = demo_view,
     pe_live_keys = [], pe_now_ms = 3600035, pe_policy = default_gc_policy \<rparr>"

definition demo_removal :: removal where
  "demo_removal = \<lparr> rm_seq = 2, rm_entry_sha256 = demo_sha [], rm_kind = RMerge, rm_committed_at_ms = 30 \<rparr>"

lemma view_of_removed:
  assumes "view_of lc es view" "pid \<in> set (log_removed es)" "sorted (log_times es)"
  shows "\<not> gc_is_live view pid"
    and "\<exists>(e, sha) \<in> set es. pid \<in> set (op_removed (le_op e)) \<and> gc_removal view pid = Some (removal_by e sha)"
proof -
  have "replay lc empty_live_set es = Inr (gv_live view)" using assms(1) by (simp add: view_of_def)
  then have "map_of (ls_live (gv_live view)) pid = Some p \<longrightarrow> pid \<notin> set (log_removed es)" for p
    using replay_log_inv [OF _ assms(3)] unfolding log_inv_def by blast
  then show "\<not> gc_is_live view pid" using assms(2) by (auto simp: gc_is_live_def)
  have "gc_removal view pid \<noteq> None" using assms(1,2) unfolding view_of_def by blast
  then obtain m where m: "gc_removal view pid = Some m" by blast
  then have "\<exists>(e, sha) \<in> set es. pid \<in> set (op_removed (le_op e)) \<and> m = removal_by e sha"
    using assms(1) unfolding view_of_def by blast
  then show "\<exists>(e, sha) \<in> set es. pid \<in> set (op_removed (le_op e)) \<and> gc_removal view pid = Some (removal_by e sha)"
    using m by auto
qed

lemma demo_view_facts:
  "\<not> gc_is_live demo_view (demo_pid ''01'')" "gc_removal demo_view (demo_pid ''01'') = Some demo_removal"
proof -
  have gone: "demo_pid ''01'' \<in> set (log_removed demo_prefix)" and times: "sorted (log_times demo_prefix)"
    by (simp_all add: demo_prefix_def demo_log_def demo_entry_def log_removed_def log_times_def)
  note facts = view_of_removed [OF gc_replay_view [OF demo_view_replay] gone times]
  show "\<not> gc_is_live demo_view (demo_pid ''01'')" by (rule facts(1))
  show "gc_removal demo_view (demo_pid ''01'') = Some demo_removal"
    using facts(2) by (auto simp: demo_prefix_def demo_log_def demo_entry_def removal_by_def demo_removal_def)
qed

lemma demo_id_ok: "part_id_ok (demo_pid ''01'')"
  by code_simp

lemmas demo_parsed = parse_built_key [OF demo_calendar_ok demo_tenant_ok demo_id_ok demo_file_ok demo_part_keys demo_civil, of L0, simplified]

definition demo_planned :: delete_request where
  "demo_planned = with_removal demo_removal default_gc_policy
     (request_base ''acme'' demo_tenant (lp_key demo_object) (lp_strong_etag demo_object) 5 Superseded)"

lemma demo_planned_fields:
  "dr_key demo_planned = lp_key demo_object" "dr_reason demo_planned = Superseded"
  "dr_tenant_uuid demo_planned = demo_tenant" "dr_orphan_min_age_seconds demo_planned = None"
  "dr_retention_day demo_planned = None" "dr_retention_days demo_planned = None"
  "dr_quarantine_min_age_seconds demo_planned = None"
  by (simp_all add: demo_planned_def request_base_def with_removal_def)

lemma demo_planned_valid: "validate_with_local demo_calendar False demo_planned = Inr ()"
proof -
  have "length (lp_key demo_object) \<le> MAX_KEY_BYTES" "lp_key demo_object \<noteq> []"
    by (simp_all add: demo_object_def part_file_def demo_dir_def demo_tenant_def demo_pid_def MAX_KEY_BYTES_def)
  then have "validate_head demo_planned = Inr ()"
    using demo_tenant_ok
    by (simp add: validate_head_def demo_planned_def request_base_def with_removal_def is_slug_def slug_char_def is_digit_def
        is_strong_etag_def is_control_def demo_object_def)
  moreover have "removal_ok demo_planned"
    by (simp add: removal_ok_def demo_planned_def request_base_def with_removal_def opt_is_def is_sha256_hex_def
        is_lower_hex_def list_all_iff MIN_GRACE_SECONDS_def MAX_GRACE_SECONDS_def demo_removal_def demo_sha_def
        default_gc_policy_def)
  ultimately show ?thesis
    using demo_parsed log_key_not_part_file [OF demo_parsed]
    by (simp add: validate_with_local_def validate_reason_def is_provenance_key_def PROVENANCE_FILE_def demo_planned_fields
        demo_object_def)
qed

lemma demo_plan_one:
  "plan_one demo_calendar ''acme'' demo_tenant demo_view demo_object 3600035 default_gc_policy (3600 * 1000) orphan_ms
     = Inr demo_planned"
  using demo_parsed log_key_not_part_file [OF demo_parsed] demo_view_facts
  by (simp add: plan_one_def demo_object_def plan_removed_def demo_removal_def sat_sub_i64_def int_bounds
      is_provenance_key_def PROVENANCE_FILE_def demo_planned_def)

lemma demo_eligible: "eligible_request demo_env demo_object = Inr demo_planned"
  using demo_plan_one demo_planned_valid
  by (simp add: eligible_request_def eligible_request_with_local_def demo_env_def default_gc_policy_def
      MIN_GRACE_SECONDS_def starts_with_def PARTS_ROOT_def demo_planned_fields demo_object_def part_file_def demo_dir_def
      demo_tenant_def)

lemma demo_policy_ok: "gc_policy_validate False default_gc_policy = Inr ()"
  by (simp add: gc_policy_validate_def default_gc_policy_def opt_is_def MIN_GRACE_SECONDS_def MAX_GRACE_SECONDS_def
      MIN_ORPHAN_AGE_SECONDS_def MAX_ORPHAN_AGE_SECONDS_def)

lemma demo_gc_plan: "\<exists>rep. gc_plan demo_env [demo_object] = Inr rep \<and> rp_requests rep = [demo_planned]"
proof -
  obtain rep where rep: "gc_plan demo_env [demo_object] = Inr rep"
    using gc_plan_total [of demo_env] demo_policy_ok by (auto simp: demo_env_def)
  then show ?thesis
    using gc_plan_wanted(1) [OF rep] demo_eligible
    by (simp add: sorted_listing_def demo_env_def default_gc_policy_def)
qed

theorem plan_spares_live_witness:
  "\<exists>rep r. gc_plan demo_env [demo_object] = Inr rep \<and> r \<in> set (rp_requests rep) \<and> \<not> is_log_key (dr_key r)"
proof -
  obtain rep where rep: "gc_plan demo_env [demo_object] = Inr rep" "demo_planned \<in> set (rp_requests rep)"
    using demo_gc_plan by auto
  then show ?thesis using plan_spares_live [OF rep] by blast
qed

theorem selection_is_plan_prefix_witness:
  "\<exists>rep. gc_plan demo_env (scan_selected \<lparr> is_env = demo_env, is_refused = None, is_retain = Some 1 \<rparr> [demo_object]) = Inr rep
     \<and> rp_requests rep = [demo_planned]"
proof -
  let ?sel = "\<lparr> is_env = demo_env, is_refused = None, is_retain = Some 1 \<rparr>"
  have total: "\<exists>rep. gc_plan demo_env objects = Inr rep" for objects
    using gc_plan_total [of demo_env] demo_policy_ok by (simp add: demo_env_def)
  obtain rep where rep: "gc_plan (is_env ?sel) (scan_selected ?sel [demo_object]) = Inr rep" using total by auto
  obtain full where full: "gc_plan (is_env ?sel) (filter (not_refused ?sel) [demo_object]) = Inr full"
    "rp_requests full = [demo_planned]"
    using demo_gc_plan by (auto simp: not_refused_def opt_is_def)
  show ?thesis using selection_is_plan_prefix [OF _ rep full(1)] rep full(2) by (simp add: selection_limit_def)
qed

end
