(* ===== verification/Gc_Index_Props.thy ===== *)
theory Gc_Index_Props
  imports Gc_Index
begin

text \<open>
  What the index synchronisation guarantees: the receipted watermark only admits entries that are
  receipted or settled by age, a sync that reports control caught up leaves no entry of the log
  unindexed, published batches are bounded runs of the chain, calls are retried a bounded number of
  times, and a failed report of deleted keys keeps exactly the unreported ones.
\<close>

section \<open>The receipted watermark\<close>

definition receipted_calls :: "(nat \<Rightarrow> int) \<Rightarrow> nat list \<Rightarrow> receipted_run" where
  "receipted_calls at seqs = fold (\<lambda>seq run. receipted_record run seq (at seq)) seqs receipted_default"

text \<open>The watermark ends a run of recorded entries whose first one is no younger than the run.\<close>

definition receipted_inv :: "(nat \<Rightarrow> int) \<Rightarrow> nat list \<Rightarrow> receipted_run \<Rightarrow> bool" where
  "receipted_inv at seqs run \<longleftrightarrow>
     (\<forall>t. rr_through run = Some t \<longrightarrow> t \<in> set seqs \<and>
        (\<exists>a \<le> t. (\<forall>s. a \<le> s \<and> s \<le> t \<longrightarrow> s \<in> set seqs) \<and> at a \<le> rr_started_at_ms run))"

lemma receipted_inv_record:
  assumes "receipted_inv at seqs run" "\<forall>s \<in> set seqs. s < u64_max"
  shows "receipted_inv at (seqs @ [seq]) (receipted_record run seq (at seq))"
proof (cases "\<exists>t. rr_through run = Some t \<and> seq = t + 1")
  case True
  then obtain t a where t: "rr_through run = Some t" "seq = t + 1" "t \<in> set seqs" "a \<le> t"
    "\<forall>s. a \<le> s \<and> s \<le> t \<longrightarrow> s \<in> set seqs" "at a \<le> rr_started_at_ms run"
    using assms(1) unfolding receipted_inv_def by blast
  have "t < u64_max" using t(3) assms(2) by blast
  then have "receipted_record run seq (at seq) = run\<lparr> rr_through := Some seq \<rparr>"
    using t(1,2) by (simp add: receipted_record_def sat_add_u64_def)
  moreover have "\<exists>b \<le> seq. (\<forall>s. b \<le> s \<and> s \<le> seq \<longrightarrow> s \<in> set (seqs @ [seq])) \<and> at b \<le> rr_started_at_ms run"
    using t(2,4-6) by (intro exI [of _ a]) (auto simp: le_Suc_eq)
  ultimately show ?thesis by (simp add: receipted_inv_def)
next
  case False
  have "rr_started_at_ms (receipted_record run seq (at seq)) = max (rr_started_at_ms run) (at seq)"
    if "rr_through run = None \<or> (\<exists>t. rr_through run = Some t \<and> t < u64_max)"
    using that False by (auto simp: receipted_record_def sat_add_u64_def split: option.splits)
  moreover have "rr_through run = None \<or> (\<exists>t. rr_through run = Some t \<and> t < u64_max)"
    using assms by (cases "rr_through run") (auto simp: receipted_inv_def)
  moreover have "rr_through (receipted_record run seq (at seq)) = Some seq"
    by (simp add: receipted_record_def Let_def)
  ultimately show ?thesis unfolding receipted_inv_def by (auto intro!: exI [of _ seq])
qed

lemma receipted_calls_inv:
  "\<forall>s \<in> set seqs. s < u64_max \<Longrightarrow> receipted_inv at seqs (receipted_calls at seqs)"
proof (induction seqs rule: rev_induct)
  case Nil
  then show ?case by (simp add: receipted_inv_def receipted_calls_def receipted_default_def)
next
  case (snoc seq seqs)
  then show ?case
    using receipted_inv_record [of at seqs "receipted_calls at seqs" seq] by (simp add: receipted_calls_def)
qed

text \<open>
  C20: the receipted watermark is safe. Whatever appends the writer recorded, in any order and with any
  gaps, an entry at or below the watermark was itself recorded (its receipt is with control) or is at
  least the settle time old, as long as entries are dated in the order of the log.
\<close>

theorem receipted_watermark_safe:
  assumes "\<forall>s \<in> set seqs. s < u64_max" "mono at"
    and "receipted_through (receipted_calls at seqs) now_ms = Some through" "s \<le> through"
  shows "s \<in> set seqs \<or> INDEX_SETTLE_MS \<le> now_ms - at s"
proof -
  let ?run = "receipted_calls at seqs"
  have run: "rr_through ?run = Some through" "INDEX_SETTLE_MS \<le> sat_sub_i64 now_ms (rr_started_at_ms ?run)"
    using assms(3) by (auto simp: receipted_through_def split: option.splits if_splits)
  then obtain a where a: "\<forall>s. a \<le> s \<and> s \<le> through \<longrightarrow> s \<in> set seqs" "at a \<le> rr_started_at_ms ?run"
    using receipted_calls_inv [OF assms(1)] unfolding receipted_inv_def by blast
  show ?thesis
  proof (cases "a \<le> s")
    case False
    then have "at s \<le> rr_started_at_ms ?run" using a(2) monoD [OF assms(2), of s a] by simp
    then show ?thesis using run(2) by (auto simp: sat_sub_i64_def INDEX_SETTLE_MS_def int_bounds)
  qed (use a assms(4) in auto)
qed

theorem receipted_watermark_safe_witness:
  "receipted_through (receipted_calls (\<lambda>s. int s * 20000) [4, 5]) 150000 = Some 5
     \<and> (2 \<in> set [4, 5] \<or> INDEX_SETTLE_MS \<le> 150000 - int 2 * 20000)"
proof -
  have through: "receipted_through (receipted_calls (\<lambda>s. int s * 20000) [4, 5]) 150000 = Some 5"
    by (simp add: receipted_calls_def receipted_record_def receipted_default_def receipted_through_def sat_add_u64_def
        sat_sub_i64_def int_bounds INDEX_SETTLE_MS_def)
  have "mono (\<lambda>s. int s * 20000)" by (simp add: mono_def)
  then show ?thesis
    using receipted_watermark_safe [OF _ _ through, of 2] through by (simp add: u64_max_def)
qed

section \<open>Calls\<close>

lemma call_answer_not_synced: "call_answer request answer = CallStop out \<Longrightarrow> out \<noteq> Synced a b c d e f"
  by (auto simp: call_answer_def split: sum.splits gc_error.splits if_splits)

lemma call_retry_not_synced: "call_retry_loop iw request left w = (CallStop out, w') \<Longrightarrow> out \<noteq> Synced a b c d e f"
proof (induction left arbitrary: w)
  case 0
  obtain answer v where "iw_index iw request w = (answer, v)" by fastforce
  then show ?case
    using 0 call_answer_not_synced [of request answer]
    by (cases "call_answer request answer") (auto simp: call_retry_loop.simps [of iw request] split: index_sync_outcome.splits)
next
  case (Suc n)
  obtain answer v where "iw_index iw request w = (answer, v)" by fastforce
  then show ?case
    using Suc call_answer_not_synced [of request answer]
    by (cases "call_answer request answer") (auto simp: call_retry_loop.simps [of iw request] split: index_sync_outcome.splits)
qed

lemma call_retrying_not_synced: "call_retrying iw request w = (CallStop out, w') \<Longrightarrow> out \<noteq> Synced a b c d e f"
  unfolding call_retrying_def by (rule call_retry_not_synced)

section \<open>A batch is a run of the chain\<close>

text \<open>What a batch filled from \<open>next_seq\<close> holds.\<close>

definition batch_inv :: "sync_env \<Rightarrow> nat \<Rightarrow> batch \<Rightarrow> bool" where
  "batch_inv se n b \<longleftrightarrow>
     map ie_seq (bt_entries b) = [n..<n + length (bt_entries b)] \<and> map fst (bt_meta b) = map ie_seq (bt_entries b)
     \<and> (case bt_last b of None \<Rightarrow> bt_entries b = [] | Some (seq, _, _) \<Rightarrow> bt_entries b \<noteq> [] \<and> seq + 1 = n + length (bt_entries b))
     \<and> (length (bt_entries b) \<le> 1 \<or> bt_bytes b \<le> MAX_INDEX_BATCH_BASE64_BYTES \<and> bt_refs b \<le> MAX_INDEX_BATCH_PART_REFS)"

lemma batch_inv_new: "batch_inv se n (batch_new prev)"
  by (simp add: batch_inv_def batch_new_def)

lemma batch_inv_flags [simp]:
  "batch_inv se n (b\<lparr> bt_exhausted := x \<rparr>) = batch_inv se n b"
  "batch_inv se n (b\<lparr> bt_unsettled := y \<rparr>) = batch_inv se n b"
  "batch_inv se n (b\<lparr> bt_read_error := z \<rparr>) = batch_inv se n b"
  by (simp_all add: batch_inv_def cong: option.case_cong)

lemma batch_inv_push:
  assumes "batch_inv se n b"
    and "bt_entries b = [] \<or> bt_bytes b + entry_size v claims \<le> MAX_INDEX_BATCH_BASE64_BYTES
      \<and> bt_refs b + part_refs (le_op (ve_entry v)) \<le> MAX_INDEX_BATCH_PART_REFS"
  shows "batch_inv se n (batch_push se (n + length (bt_entries b)) v claims b)"
  using assms by (auto simp: batch_inv_def batch_push_def Let_def)

text \<open>A batch that stopped at the end of what there is to publish.\<close>

definition nothing_left :: "sync_env \<Rightarrow> nat \<Rightarrow> bool" where
  "nothing_left se seq \<longleftrightarrow> target_reached se seq \<or> se_view_target se = None \<and> se_reader se seq = Inr None"

lemma fill_batch_inv:
  assumes "fill_batch se n left b = Inr (Inr b')" "batch_inv se n b" "\<not> bt_exhausted b" "length (bt_entries b) + left = m"
  shows "batch_inv se n b' \<and> length (bt_entries b') \<le> m
    \<and> (bt_exhausted b' \<and> \<not> bt_unsettled b' \<longrightarrow> nothing_left se (n + length (bt_entries b')))"
  using assms
proof (induction se n left b rule: fill_batch.induct)
  case (2 se n left b)
  let ?seq = "n + length (bt_entries b)"
  show ?case
  proof (cases "target_reached se ?seq \<or> (\<forall>v. se_reader se ?seq \<noteq> Inr (Some v))")
    case True
    then show ?thesis
      using "2.prems" by (auto simp: nothing_left_def Let_def split: if_splits sum.splits option.splits)
  next
    case False
    then obtain v where v: "se_reader se ?seq = Inr (Some v)" "\<not> target_reached se ?seq" by auto
    show ?thesis
    proof (cases "entry_unsettled se ?seq v")
      case True
      then show ?thesis
        using "2.prems" v by (auto simp: Let_def split: if_splits)
    next
      case settled: False
      obtain claims where claims: "entry_claims se (le_op (ve_entry v)) = Inr claims"
        using "2.prems"(1) v settled by (auto simp: Let_def res_simps split: if_splits)
      show ?thesis
        using "2.prems" v settled claims "2.IH" [OF refl v(2) v(1) refl _ settled] batch_inv_push [OF "2.prems"(2), of v claims]
        by (auto simp: Let_def not_less batch_push_def [of se ?seq] split: if_splits)
    qed
  qed
qed simp

section \<open>Caught up means complete\<close>

text \<open>Control has indexed all there is to index: every entry the reader has, or the whole view.\<close>

definition index_complete :: "sync_env \<Rightarrow> index_status \<Rightarrow> bool" where
  "index_complete se status \<longleftrightarrow>
     (case se_view_target se of
        None \<Rightarrow> \<forall>seq v. se_reader se seq = Inr (Some v) \<longrightarrow> seq < next_seq_of status
      | Some None \<Rightarrow> True
      | Some (Some head) \<Rightarrow> head < next_seq_of status)"

text \<open>The log has no holes: past an absent entry there is none.\<close>

definition reader_contiguous :: "sync_env \<Rightarrow> bool" where
  "reader_contiguous se \<longleftrightarrow> (\<forall>s t. se_reader se s = Inr None \<and> s \<le> t \<longrightarrow> se_reader se t = Inr None)"

lemma nothing_left_complete:
  assumes "nothing_left se seq" "seq \<le> next_seq_of status" "reader_contiguous se"
  shows "index_complete se status"
proof (cases "se_view_target se")
  case None
  then have "se_reader se seq = Inr None" using assms(1) by (simp add: nothing_left_def target_reached_def opt_is_def)
  then have "se_reader se t \<noteq> Inr (Some v)" if "next_seq_of status \<le> t" for t v
    using assms(2,3) that unfolding reader_contiguous_def by (metis le_trans old.sum.inject(2) option.distinct(1))
  then show ?thesis using None by (auto simp: index_complete_def not_le [symmetric])
next
  case (Some head)
  then show ?thesis
    using assms(1,2) by (auto simp: nothing_left_def index_complete_def target_reached_def opt_is_def split: option.splits)
qed

text \<open>Only two places of the code report control caught up.\<close>

lemma accept_answer_caught_up:
  assumes "accept_answer checkpoint st err sn status = SyncDone (Inr (Synced s True p g h e))"
  shows "s = status \<and> \<not> e \<and> sn_exhausted sn \<and> \<not> sn_unsettled sn \<and> 0 < sn_count sn \<and> \<not> response_mismatch status (sn_last sn)"
  using assms by (auto simp: accept_answer_def synced_def Let_def split: if_splits option.splits)

lemma send_batch_first:
  assumes "send_batch iw se st b claim w = (Inr sn, w')" "\<not> sn_unsettled sn"
  shows "sn_last sn = bt_last b \<and> sn_count sn = length (bt_entries b) \<and> sn_exhausted sn = bt_exhausted b
    \<and> sn_unsettled sn = bt_unsettled b"
  using assms
  by (auto simp: send_batch_def send_shorter_def Let_def split: prod.splits if_splits)

lemma send_batch_stop: "send_batch iw se st b claim w = (Inl out, w') \<Longrightarrow> out = synced st False True"
  by (auto simp: send_batch_def send_shorter_def Let_def split: prod.splits if_splits)

lemma send_batch_answer:
  "send_batch iw se st b claim w = (Inr sn, w') \<Longrightarrow> sn_answer sn = CallStop out \<Longrightarrow> out \<noteq> Synced a c d e f g"
  by (auto simp: send_batch_def send_shorter_def Let_def split: prod.splits if_splits dest: call_retrying_not_synced)

lemma recover_gap_not_caught_up: "recover_gap iw se st w = (SyncDone (Inr (Synced s c p g h e)), w') \<Longrightarrow> False"
  by (auto simp: recover_gap_def Let_def split: prod.splits if_splits index_call.splits dest: call_retrying_not_synced)

lemma settle_sent_caught_up:
  assumes "send_batch iw se st b claim v = (Inr sn, w)"
    and "settle_sent iw se checkpoint st b sn w = (SyncDone (Inr (Synced s True p g h e)), w')"
  shows "\<not> e \<and> bt_exhausted b \<and> \<not> bt_unsettled b \<and> bt_entries b \<noteq> [] \<and> \<not> response_mismatch s (bt_last b)"
proof -
  have "accept_answer checkpoint st (bt_read_error b) sn s = SyncDone (Inr (Synced s True p g h e))"
  proof (cases "sn_answer sn")
    case (CallOk status)
    then have run: "accept_answer checkpoint st (bt_read_error b) sn status = SyncDone (Inr (Synced s True p g h e))"
      using assms(2) by (simp add: settle_sent_def)
    then show ?thesis using accept_answer_caught_up [OF run] by simp
  next
    case CallGap
    then show ?thesis using assms(2) by (auto simp: settle_sent_def dest: recover_gap_not_caught_up)
  next
    case (CallStop out)
    then show ?thesis using assms(2) send_batch_answer [OF assms(1) CallStop] by (auto simp: settle_sent_def)
  qed
  note a = accept_answer_caught_up [OF this]
  then show ?thesis using send_batch_first [OF assms(1)] by auto
qed

lemma publish_batch_caught_up:
  assumes "publish_batch iw se checkpoint st b w = (SyncDone (Inr (Synced s True p g h e)), w')"
  shows "\<not> e \<and> bt_exhausted b \<and> \<not> bt_unsettled b
    \<and> (bt_entries b = [] \<and> s = sy_status st \<or> bt_entries b \<noteq> [] \<and> \<not> response_mismatch s (bt_last b))"
proof -
  let ?claim = "claim_due checkpoint (sy_status st)
    (case bt_last b of Some (seq, _, _) \<Rightarrow> Some seq | None \<Rightarrow> ix_indexed_through_seq (sy_status st))"
  show ?thesis
  proof (cases "bt_entries b = [] \<and> ?claim = None")
    case True
    then show ?thesis using assms by (auto simp: publish_batch_def synced_def split: option.splits)
  next
    case False
    obtain r v where send: "send_batch iw se st b ?claim w = (r, v)" by fastforce
    show ?thesis
    proof (cases r)
      case (Inl out)
      then show ?thesis
        using assms False send send_batch_stop [of iw se st b ?claim w out v] by (auto simp: publish_batch_def synced_def)
    next
      case (Inr sn)
      then have run: "settle_sent iw se checkpoint st b sn v = (SyncDone (Inr (Synced s True p g h e)), w')"
        using assms False send by (auto simp: publish_batch_def)
      show ?thesis using settle_sent_caught_up [OF send [unfolded Inr] run] by blast
    qed
  qed
qed

lemma fill_batch_stop: "fill_batch se n left b = Inr (Inl out) \<Longrightarrow> out \<noteq> Synced a c d e f g"
  by (induction se n left b rule: fill_batch.induct)
    (auto simp: Let_def res_simps split: if_splits sum.splits option.splits)

lemma sync_round_caught_up:
  assumes "sync_round iw se checkpoint st w = (SyncDone (Inr (Synced s True p g h e)), w')" "reader_contiguous se"
  shows "\<not> e \<and> index_complete se s"
proof -
  let ?n = "next_seq_of (sy_status st)"
  obtain prev b where b: "fill_batch se ?n MAX_INDEX_ENTRIES (batch_new prev) = Inr (Inr b)"
    "publish_batch iw se checkpoint st b w = (SyncDone (Inr (Synced s True p g h e)), w')"
    using assms(1) by (auto simp: sync_round_def split: option.splits sum.splits dest: fill_batch_stop)
  have inv: "batch_inv se ?n b" "bt_exhausted b \<and> \<not> bt_unsettled b \<longrightarrow> nothing_left se (?n + length (bt_entries b))"
    using fill_batch_inv [OF b(1) batch_inv_new _ refl] by (simp_all add: batch_new_def)
  note pub = publish_batch_caught_up [OF b(2)]
  have "?n + length (bt_entries b) \<le> next_seq_of s"
    using pub inv(1)
    by (auto simp: batch_inv_def response_mismatch_def opt_is_def next_seq_of_def split: option.splits prod.splits)
  then show ?thesis using pub inv(2) nothing_left_complete [OF _ _ assms(2)] by blast
qed

lemma sync_loop_caught_up:
  assumes "sync_loop iw se checkpoint left st w = (Inr (Synced s True p g h e), w')" "reader_contiguous se"
  shows "\<not> e \<and> index_complete se s"
  using assms
proof (induction iw se checkpoint left st w rule: sync_loop.induct)
  case (2 iw se checkpoint left st w)
  obtain r v where round: "sync_round iw se checkpoint st w = (r, v)" by fastforce
  show ?case
  proof (cases r)
    case (SyncDone q)
    then have "sync_round iw se checkpoint st w = (SyncDone (Inr (Synced s True p g h e)), w')"
      using round "2.prems"(1) by simp
    then show ?thesis using "2.prems"(2) by (rule sync_round_caught_up)
  next
    case (SyncAgain st')
    then show ?thesis using round "2.prems" "2.IH" [OF round [symmetric] SyncAgain] by simp
  qed (use round "2.prems" in \<open>auto simp: synced_def\<close>)
qed (simp add: synced_def)

lemma sync_caught_up_complete:
  assumes "sync_index_inner iw se w = (Inr (Synced status True pushed gaps head_ms settling), w')" "reader_contiguous se"
  shows "\<not> settling \<and> index_complete se status"
proof -
  obtain read v where read: "status_read iw (se_tenant_uuid se) w = (read, v)" by fastforce
  obtain answer u where call: "call_retrying iw read v = (answer, u)" by fastforce
  show ?thesis
    using assms read call
    by (cases answer)
      (auto simp: sync_index_inner_def split: sum.splits dest: sync_loop_caught_up call_retrying_not_synced)
qed

text \<open>
  C9: when a sync reports control caught up, control has indexed everything: every entry the log
  reader has (or the whole view that was to be published), whatever control answered on the way,
  with gaps, refusals, retries and shortened batches. So no delete is ever asked for while an entry
  control should know of is missing from its index.
\<close>

theorem sync_caught_up:
  assumes "sync_index_inner iw se w = (Inr (Synced status True pushed gaps head_ms settling), w')" "reader_contiguous se"
  shows "\<not> settling \<and> index_complete se status"
  using assms by (rule sync_caught_up_complete)

text \<open>A control that indexes what it is sent, and a log of one old entry.\<close>

definition demo_status :: index_status where
  "demo_status = \<lparr> ix_tenant_uuid = ''t'', ix_indexed_through_seq = None, ix_head_entry_sha256 = None,
     ix_checkpoint_seq = None, ix_folded_through_seq = None \<rparr>"

definition demo_control :: "index_status index_world" where
  "demo_control =
     \<lparr> iw_index = (\<lambda>request st.
         let st = (if iq_entries request = [] then st
           else st\<lparr> ix_indexed_through_seq := Some (ie_seq (last (iq_entries request))), ix_head_entry_sha256 := Some (demo_sha []) \<rparr>)
         in (Inr st, st)),
       iw_sleep = (\<lambda>_ st. st), iw_uuid = (\<lambda>st. (''r'', st)) \<rparr>"

definition demo_verified :: verified_entry where
  "demo_verified = \<lparr> ve_bytes = ''x'', ve_sha256 = demo_sha [], ve_entry = fst (demo_entry 0 0 (Genesis demo_log_schema)) \<rparr>"

definition demo_sync :: sync_env where
  "demo_sync = \<lparr> se_reader = (\<lambda>seq. if seq = 0 then Inr (Some demo_verified) else Inr None), se_checkpoint = Inr None,
     se_provenance = (\<lambda>_. Inl (Bail [])), se_b64 = (\<lambda>s. s), se_tenant_uuid = ''t'', se_view_target = None,
     se_now_ms = 60000, se_receipted_through = None \<rparr>"

lemma demo_call:
  "call_retrying demo_control request st =
     (case iw_index demo_control request st of (answer, st') \<Rightarrow> (call_answer request answer, st'))"
  if "iq_tenant_uuid request = ix_tenant_uuid st"
  using that unfolding call_retrying_def
  by (subst call_retry_loop.simps) (simp add: demo_control_def call_answer_def Let_def)

definition demo_batch :: batch where
  "demo_batch = (batch_push demo_sync 0 demo_verified [] (batch_new GENESIS_PREV))\<lparr> bt_exhausted := True \<rparr>"

lemma demo_fill: "fill_batch demo_sync 0 (Suc (Suc n)) (batch_new GENESIS_PREV) = Inr (Inr demo_batch)"
  by (simp add: demo_sync_def demo_verified_def demo_entry_def batch_new_def demo_batch_def batch_push_def Let_def
      target_reached_def opt_is_def entry_unsettled_def sat_sub_i64_def int_bounds INDEX_SETTLE_MS_def entry_claims_def)

lemma demo_sync_run: "\<exists>status w. sync_index_inner demo_control demo_sync demo_status = (Inr (Synced status True 1 0 (Some 0) False), w)"
proof -
  obtain n where n: "(if se_view_target demo_sync \<noteq> None then MAX_VIEW_INDEX_REQUESTS_PER_SYNC else MAX_INDEX_REQUESTS_PER_SYNC) = Suc n"
    by (rule that [of 7]) (simp add: demo_sync_def MAX_INDEX_REQUESTS_PER_SYNC_def)
  have fill: "fill_batch demo_sync 0 MAX_INDEX_ENTRIES (batch_new GENESIS_PREV) = Inr (Inr demo_batch)"
    using demo_fill [of 254] by (simp add: MAX_INDEX_ENTRIES_def)
  have env: "se_tenant_uuid demo_sync = ''t''" "se_checkpoint demo_sync = Inr None" by (simp_all add: demo_sync_def)
  have ctl: "iw_uuid demo_control w = (''r'', w)"
    "iw_index demo_control request w =
       (let st = (if iq_entries request = [] then w
           else w\<lparr> ix_indexed_through_seq := Some (ie_seq (last (iq_entries request))), ix_head_entry_sha256 := Some (demo_sha []) \<rparr>)
         in (Inr st, st))" for w request
    by (simp_all add: demo_control_def)
  have batch: "bt_entries demo_batch = [\<lparr> ie_seq = 0, ie_entry_base64 = ''x'' \<rparr>]" "bt_last demo_batch = Some (0, demo_sha [], 0)"
    "bt_exhausted demo_batch" "\<not> bt_unsettled demo_batch" "bt_read_error demo_batch = None"
    by (simp_all add: demo_batch_def batch_push_def batch_new_def Let_def demo_verified_def demo_entry_def demo_sync_def)
  show ?thesis
    unfolding sync_index_inner_def n
    by (simp add: status_read_def ctl env demo_call demo_status_def call_answer_def Let_def sync_round_def expected_prev_of_def
        next_seq_of_def fill publish_batch_def batch claim_due_def send_batch_def receipt_missing_def settle_sent_def
        accept_answer_def response_mismatch_def opt_is_def synced_def)
qed

theorem sync_caught_up_witness:
  "\<exists>status w. sync_index_inner demo_control demo_sync demo_status = (Inr (Synced status True 1 0 (Some 0) False), w)
     \<and> index_complete demo_sync status"
proof -
  have "reader_contiguous demo_sync" by (auto simp: reader_contiguous_def demo_sync_def)
  then show ?thesis using demo_sync_run by (auto dest: sync_caught_up)
qed

section \<open>Retries and reports\<close>

text \<open>A world that counts the calls it serves.\<close>

definition counting :: "'w index_world \<Rightarrow> (nat \<times> 'w) index_world" where
  "counting iw =
     \<lparr> iw_index = (\<lambda>request (n, w). case iw_index iw request w of (a, w) \<Rightarrow> (a, n + 1, w)),
       iw_sleep = (\<lambda>d (n, w). (n, iw_sleep iw d w)), iw_uuid = (\<lambda>(n, w). case iw_uuid iw w of (r, w) \<Rightarrow> (r, n, w)) \<rparr>"

lemma counting_simps [simp]:
  "iw_index (counting iw) request (n, w) = (case iw_index iw request w of (a, w) \<Rightarrow> (a, n + 1, w))"
  "iw_sleep (counting iw) d (n, w) = (n, iw_sleep iw d w)"
  by (simp_all add: counting_def)

lemma call_retry_bounded:
  "call_retry_loop (counting iw) request left (n, w) = (answer, m, w') \<Longrightarrow> m \<le> n + left + 1"
proof (induction left arbitrary: n w)
  case 0
  then show ?case
    by (auto simp: call_retry_loop.simps [of "counting iw" request 0] split: prod.splits index_call.splits index_sync_outcome.splits)
next
  case (Suc left)
  obtain a v where step: "iw_index iw request w = (a, v)" by fastforce
  show ?case
    using Suc.prems step
    by (auto simp: call_retry_loop.simps [of "counting iw" request "Suc left"]
        split: prod.splits index_call.splits index_sync_outcome.splits dest!: Suc.IH)
qed

lemma call_retrying_bounded: "call_retrying (counting iw) request (n, w) = (answer, m, w') \<Longrightarrow> m \<le> n + 5"
  using call_retry_bounded [of iw request INDEX_BACKOFF_RETRIES n w answer m w']
  by (simp add: call_retrying_def INDEX_BACKOFF_RETRIES_def)

lemma report_loop_prefix:
  assumes "report_loop iw tenant reported queue w = (r, queue', w')"
  shows "\<exists>n. queue' = drop n queue \<and> (case r of Inr k \<Rightarrow> queue' = [] \<and> k = reported + length queue | Inl _ \<Rightarrow> queue' \<noteq> [])"
  using assms
proof (induction iw tenant reported queue w rule: report_loop.induct)
  case (1 iw tenant reported queue w)
  show ?case
  proof (cases "queue = []")
    case True
    then show ?thesis using "1.prems" by (auto simp: report_loop.simps)
  next
    case False
    obtain read v where read: "status_read iw tenant w = (read, v)" by fastforce
    let ?b = "min (length queue) MAX_DELETED_PER_REQUEST"
    obtain answer u where call: "client_call iw (read\<lparr> iq_deleted := take ?b queue \<rparr>) v = (answer, u)" by fastforce
    show ?thesis
    proof (cases "\<exists>st. answer = CallOk st")
      case True
      then obtain st where st: "answer = CallOk st" by blast
      then have run: "report_loop iw tenant (reported + ?b) (drop ?b queue) u = (r, queue', w')"
        using "1.prems" False read call by (simp add: report_loop.simps [of iw tenant reported] Let_def)
      show ?thesis
        using "1.IH" [OF False refl read [symmetric] call [symmetric] st run]
        by (auto split: sum.splits intro: exI [of _ "_ + ?b"])
    next
      case other: False
      then have "queue' = queue \<and> (\<exists>code. r = Inl code)"
        using "1.prems" False read call
        by (cases answer) (auto simp: report_loop.simps [of iw tenant reported] Let_def split: index_sync_outcome.splits)
      then show ?thesis using False by (auto intro!: exI [of _ 0])
    qed
  qed
qed

lemma report_deleted_prefix:
  assumes "report_deleted iw tenant queue w = (r, queue', w')"
  shows "\<exists>n. queue' = drop n queue \<and> (case r of Inr k \<Rightarrow> queue' = [] \<and> k = length queue | Inl _ \<Rightarrow> queue' \<noteq> [])"
  using report_loop_prefix [OF assms [unfolded report_deleted_def]] by (cases r) auto

end
