(* ===== verification/Gc_Executor_Props.thy ===== *)
theory Gc_Executor_Props
  imports Gc_Executor Gc_Safety Gc_Index_Props
begin

text \<open>
  What a delete pass guarantees: a key counts as deleted only under a permit for exactly its request
  and an exact absence receipt, the owner is asked at most once per key and never for a key it
  recently refused, calls are paced, and the pass deletes only what the planner may delete, after
  control's index covers the log.
\<close>

section \<open>Deleted means receipted\<close>

text \<open>The owner's permit and the Worker's receipt behind one record of a deleted key.\<close>

definition receipted_delete ::
  "'w gc_world \<Rightarrow> gc_crates \<Rightarrow> bool \<Rightarrow> delete_request \<Rightarrow> deleted_key \<Rightarrow> bool" where
  "receipted_delete gw gx loc request dk \<longleftrightarrow>
     validate_with_local (gx_cal gx) loc request = Inr ()
     \<and> (\<exists>permit receipt w1 w2 w3 now. fst (gw_authorize gw request w1) = Inr permit
          \<and> permit_verify gx permit request now loc = Inr () \<and> fst (gw_prepare gw permit w2) = Inr permit
          \<and> fst (gw_retire gw permit w3) = Inr receipt \<and> receipt_verify gx receipt permit loc = Inr ()
          \<and> dk = \<lparr> dk_key = dr_key request, dk_permit_id = pm_permit_id permit, dk_receipt_sha256 = rc_receipt_sha256 receipt \<rparr>)"

lemma retire_one_Deleted:
  assumes "retire_one gw gx request loc permit w = (Deleted dk, w')"
  shows "\<exists>receipt. fst (gw_retire gw permit w) = Inr receipt \<and> receipt_verify gx receipt permit loc = Inr ()
    \<and> dk = \<lparr> dk_key = dr_key request, dk_permit_id = pm_permit_id permit, dk_receipt_sha256 = rc_receipt_sha256 receipt \<rparr>"
  using assms
  by (auto simp: retire_one_def is_ok_iff worker_failed_def custody_held_def
      split: prod.splits sum.splits if_splits option.splits gc_error.splits)

lemma prepare_one_Deleted:
  assumes "prepare_one gw gx request loc permit w = (Deleted dk, w')"
  shows "fst (gw_prepare gw permit w) = Inr permit \<and> (\<exists>w2. retire_one gw gx request loc permit w2 = (Deleted dk, w'))"
  using assms
  by (auto simp: prepare_one_def worker_failed_def custody_held_def
      split: prod.splits sum.splits if_splits option.splits gc_error.splits)

lemma delete_one_Deleted:
  assumes "delete_one gw gx request loc w = (Deleted dk, w')"
  shows "receipted_delete gw gx loc request dk"
proof -
  obtain permit v where v: "gw_authorize gw request w = (Inr permit, v)"
    "permit_verify gx permit request (gw_now gw v) loc = Inr ()" "prepare_one gw gx request loc permit v = (Deleted dk, w')"
    and valid: "validate_with_local (gx_cal gx) loc request = Inr ()"
    using assms
    by (auto simp: delete_one_def is_ok_iff authorize_refused_def
        split: prod.splits sum.splits if_splits gc_error.splits refusal_action.splits)
  obtain w2 where p: "fst (gw_prepare gw permit v) = Inr permit" "retire_one gw gx request loc permit w2 = (Deleted dk, w')"
    using prepare_one_Deleted [OF v(3)] by blast
  show ?thesis
    unfolding receipted_delete_def using valid v(1,2) p(1) retire_one_Deleted [OF p(2)] by (metis fst_conv)
qed

lemma run_delete_Deleted:
  "run_delete gw ee request ex = (Deleted dk, ex') \<Longrightarrow> receipted_delete gw (ee_crates ee) (ee_trusted_local ee) request dk"
  by (auto simp: run_delete_def split: prod.splits dest: delete_one_Deleted)

lemma resync_Deleted:
  "resync_and_retry gw ee request ex = (Deleted dk, ex') \<Longrightarrow> receipted_delete gw (ee_crates ee) (ee_trusted_local ee) request dk"
  by (auto simp: resync_and_retry_def resync_synced_def resync_failed_def Let_def
      split: prod.splits sum.splits index_sync_outcome.splits if_splits option.splits dest: run_delete_Deleted)

lemma delete_step_Deleted:
  "delete_step gw ee request ex = (Deleted dk, ex') \<Longrightarrow> receipted_delete gw (ee_crates ee) (ee_trusted_local ee) request dk"
  by (auto simp: delete_step_def split: prod.splits if_splits dest: run_delete_Deleted resync_Deleted)

text \<open>What a step before it is applied leaves as it was.\<close>

definition exec_frame :: "'w exec \<Rightarrow> 'w exec \<Rightarrow> bool" where
  "exec_frame ex ex' \<longleftrightarrow> ex_deleted ex' = ex_deleted ex \<and> ex_refused ex' = ex_refused ex
     \<and> pr_deleted (ex_report ex') = pr_deleted (ex_report ex) \<and> pr_planned (ex_report ex') = pr_planned (ex_report ex)"

lemma take_slot_frame: "exec_frame ex (take_slot gw ex)"
  by (simp add: exec_frame_def take_slot_def split: prod.splits)

lemma run_delete_frame: "run_delete gw ee request ex = (st, ex') \<Longrightarrow> exec_frame ex ex'"
  by (auto simp: exec_frame_def run_delete_def split: prod.splits)

lemma resync_synced_frame:
  assumes "resync_synced gw ee request status pushed head_ms ex = (st, ex')"
  shows "exec_frame ex ex'"
proof -
  let ?ex = "take_slot gw (ex\<lparr> ex_report := (ex_report ex)\<lparr> pr_indexed := pr_indexed (ex_report ex) + pushed,
    pr_index_head_seq := ix_indexed_through_seq status, pr_index_head_appended_ms := head_ms \<rparr>,
    ex_through := Some (ix_indexed_through_seq status) \<rparr>)"
  have "exec_frame ex ?ex" by (simp add: exec_frame_def take_slot_def split: prod.splits)
  moreover have "exec_frame ?ex ex'"
    using assms by (auto simp: resync_synced_def Let_def exec_frame_def split: if_splits dest!: run_delete_frame)
  ultimately show ?thesis by (simp add: exec_frame_def)
qed

lemma resync_frame:
  assumes "resync_and_retry gw ee request ex = (st, ex')"
  shows "exec_frame ex ex'"
proof -
  obtain r w where run: "sync_index_inner (gw_index gw) (sync_env_of gw (ee_tenant_uuid ee) None (ee_now_ms ee) (ex_w ex)) (ex_w ex) = (r, w)"
    by fastforce
  have "exec_frame (ex\<lparr> ex_resynced := True, ex_w := w \<rparr>) ex'"
    using assms run
    by (auto simp: resync_and_retry_def resync_failed_def Let_def exec_frame_def
        split: sum.splits index_sync_outcome.splits if_splits option.splits prod.splits dest!: resync_synced_frame)
  then show ?thesis by (simp add: exec_frame_def)
qed

lemma delete_step_frame: "delete_step gw ee request ex = (st, ex') \<Longrightarrow> exec_frame ex ex'"
  by (auto simp: delete_step_def split: prod.splits if_splits dest!: run_delete_frame resync_frame)
    (simp add: exec_frame_def)

text \<open>What the execution of one request adds to the record of deleted keys.\<close>

lemma pace_frame: "exec_frame (count_planned ex) (pace_request gw ee request (count_planned ex))"
  using take_slot_frame by (auto simp: pace_request_def exec_frame_def)

lemma paced_fields:
  "ex_deleted (pace_request gw ee request (count_planned ex)) = ex_deleted ex"
  "ex_refused (pace_request gw ee request (count_planned ex)) = ex_refused ex"
  "pr_deleted (ex_report (pace_request gw ee request (count_planned ex))) = pr_deleted (ex_report ex)"
  using pace_frame [of ex gw ee request] by (simp_all add: exec_frame_def count_planned_def)

lemma ask_cases:
  assumes "ask_and_apply gw ee request ex = (go, ex')"
  obtains (stopped) "ex' = ex\<lparr> ex_report := report_pause (ex_report ex) LOG_CATCHING_UP False \<rparr>"
    | (applied) st ex1 where "delete_step gw ee request ex = (st, ex1)" "apply_step ee request st ex1 = (go, ex')"
  using assms by (auto simp: ask_and_apply_def split: if_splits prod.splits)

lemma execute_one_cases:
  assumes "execute_one gw ee request ex = (go, ex')"
  obtains (skipped) "rk_is_refused (ex_refused ex) (dr_key request) (ee_now_ms ee)"
      "ex' = (count_planned ex)\<lparr> ex_report := report_skip (ex_report (count_planned ex)) ''recently_refused'' \<rparr>"
    | (asked) "\<not> rk_is_refused (ex_refused ex) (dr_key request) (ee_now_ms ee)"
      "ask_and_apply gw ee request (pace_request gw ee request (count_planned ex)) = (go, ex')"
  using assms by (auto simp: execute_one_def Let_def count_planned_def split: if_splits)

lemma ask_deleted:
  assumes "ask_and_apply gw ee request ex = (go, ex')"
  shows "ex_deleted ex' = ex_deleted ex \<and> pr_deleted (ex_report ex') = pr_deleted (ex_report ex)
    \<or> (\<exists>dk. ex_deleted ex' = ex_deleted ex @ [dk] \<and> pr_deleted (ex_report ex') = pr_deleted (ex_report ex) + 1
         \<and> receipted_delete gw (ee_crates ee) (ee_trusted_local ee) request dk)"
  using assms
proof (cases rule: ask_cases)
  case stopped
  then show ?thesis by (simp add: report_pause_def)
next
  case (applied st ex1)
  have "ex_deleted ex1 = ex_deleted ex" "pr_deleted (ex_report ex1) = pr_deleted (ex_report ex)"
    using delete_step_frame [OF applied(1)] by (auto simp: exec_frame_def)
  then show ?thesis
    using applied(2) delete_step_Deleted [of gw ee request ex _ ex1] applied(1)
    by (cases st) (auto simp: apply_step_def report_skip_def report_pause_def Let_def split: if_splits)
qed

lemma execute_one_deleted:
  assumes "execute_one gw ee request ex = (go, ex')"
  shows "ex_deleted ex' = ex_deleted ex \<and> pr_deleted (ex_report ex') = pr_deleted (ex_report ex)
    \<or> (\<exists>dk. ex_deleted ex' = ex_deleted ex @ [dk] \<and> pr_deleted (ex_report ex') = pr_deleted (ex_report ex) + 1
         \<and> receipted_delete gw (ee_crates ee) (ee_trusted_local ee) request dk)"
  using assms
proof (cases rule: execute_one_cases)
  case skipped
  then show ?thesis by (simp add: count_planned_def report_skip_def)
next
  case asked
  then show ?thesis using ask_deleted [OF asked(2)] by (simp add: paced_fields)
qed

lemma execute_loop_deleted:
  "\<exists>new. ex_deleted (execute_loop gw ee requests ex) = ex_deleted ex @ new
     \<and> pr_deleted (ex_report (execute_loop gw ee requests ex)) = pr_deleted (ex_report ex) + length new
     \<and> (\<forall>dk \<in> set new. \<exists>request \<in> set requests. receipted_delete gw (ee_crates ee) (ee_trusted_local ee) request dk)"
proof (induction gw ee requests ex rule: execute_loop.induct)
  case (2 gw ee request rest ex)
  obtain go ex' where one: "execute_one gw ee request ex = (go, ex')" by fastforce
  note first = execute_one_deleted [OF one]
  show ?case
  proof (cases go)
    case True
    obtain new where new: "ex_deleted (execute_loop gw ee rest ex') = ex_deleted ex' @ new"
      "pr_deleted (ex_report (execute_loop gw ee rest ex')) = pr_deleted (ex_report ex') + length new"
      "\<forall>dk \<in> set new. \<exists>request \<in> set rest. receipted_delete gw (ee_crates ee) (ee_trusted_local ee) request dk"
      using "2.IH" [OF one [symmetric] True] by blast
    from first show ?thesis
    proof (elim disjE exE conjE)
      fix dk assume "ex_deleted ex' = ex_deleted ex @ [dk]" "pr_deleted (ex_report ex') = pr_deleted (ex_report ex) + 1"
        "receipted_delete gw (ee_crates ee) (ee_trusted_local ee) request dk"
      then show ?thesis using new one True by (intro exI [of _ "dk # new"]) auto
    qed (use new one True in \<open>intro exI [of _ new], auto\<close>)
  next
    case False
    from first show ?thesis
    proof (elim disjE exE conjE)
      fix dk assume "ex_deleted ex' = ex_deleted ex @ [dk]" "pr_deleted (ex_report ex') = pr_deleted (ex_report ex) + 1"
        "receipted_delete gw (ee_crates ee) (ee_trusted_local ee) request dk"
      then show ?thesis using one False by (intro exI [of _ "[dk]"]) auto
    qed (use one False in \<open>intro exI [of _ "[]"], auto\<close>)
  qed
qed simp

lemma execute_requests_deleted:
  "\<exists>new. ex_deleted (execute_requests gw ee requests deleted refused pacer resync w) = deleted @ new
    \<and> pr_deleted (ex_report (execute_requests gw ee requests deleted refused pacer resync w)) = length new
    \<and> (\<forall>dk \<in> set new. \<exists>request \<in> set requests. receipted_delete gw (ee_crates ee) (ee_trusted_local ee) request dk)"
  using execute_loop_deleted [of gw ee requests "\<lparr> ex_report = pass_report_default, ex_deleted = deleted, ex_refused = refused,
    ex_pacer = pacer, ex_failures = 0, ex_resynced = False, ex_through = resync, ex_w = w \<rparr>"]
  by (simp add: execute_requests_def pass_report_default_def)

text \<open>
  C7: a key counts as deleted only with proof. However the owner and the Worker answer, every record an
  execution adds to the deleted keys, and nothing else is counted as deleted, belongs to a valid
  request of the plan, for which the owner returned a current permit naming exactly that request, the
  Worker prepared exactly that permit, and the Worker returned a receipt bound to the permit and the
  request's digest that states the object is absent.
\<close>

theorem deleted_has_receipt:
  "\<exists>new. ex_deleted (execute_requests gw ee requests deleted refused pacer resync w) = deleted @ new
    \<and> pr_deleted (ex_report (execute_requests gw ee requests deleted refused pacer resync w)) = length new
    \<and> (\<forall>dk \<in> set new. \<exists>request \<in> set requests. receipted_delete gw (ee_crates ee) (ee_trusted_local ee) request dk)"
  by (rule execute_requests_deleted)

text \<open>A concrete owner and Worker that grant and retire what they are asked.\<close>

definition demo_gx :: gc_crates where
  "demo_gx = \<lparr> gx_cal = demo_calendar, gx_scalar = demo_scalar, gx_sha_hex = demo_sha,
     gx_rfc3339 = (\<lambda>s. if s = ''issued'' then Some 0 else Some 60000000000) \<rparr>"

definition demo_permit :: "delete_request \<Rightarrow> delete_permit" where
  "demo_permit request = \<lparr> pm_request = request, pm_permit_id = ''lpd_'' @ demo_sha [],
     pm_owner_authorization = \<lparr> oa_schema_version = 1, oa_signer_key_id = ''k'', oa_issued_at = ''issued'',
       oa_expires_at = ''expires'', oa_identity_sha256 = demo_sha [], oa_signature_base64 = ''s'' \<rparr> \<rparr>"

definition demo_receipt :: "delete_permit \<Rightarrow> delete_receipt" where
  "demo_receipt permit = \<lparr> rc_schema_version = 2, rc_permit_id = pm_permit_id permit, rc_identity_sha256 = demo_sha [],
     rc_receipt_sha256 = replicate 64 CHR ''b'', rc_state = ''receipt_appended'', rc_final_head_absent = True \<rparr>"

text \<open>A verified reader of the first three entries of the sample log.\<close>

definition demo_reader :: "nat \<Rightarrow> verified_entry option res" where
  "demo_reader seq =
     (if seq < 3 then Inr (Some \<lparr> ve_bytes = ''x'', ve_sha256 = snd (demo_log ! seq), ve_entry = fst (demo_log ! seq) \<rparr>)
      else Inr None)"

definition demo_world :: "index_status gc_world" where
  "demo_world = \<lparr> gw_supports = Pair (Inr True), gw_authorize = (\<lambda>request. Pair (Inr (demo_permit request))),
     gw_prepare = (\<lambda>permit. Pair (Inr permit)), gw_retire = (\<lambda>permit. Pair (Inr (demo_receipt permit))),
     gw_now = (\<lambda>_. 1), gw_instant = (\<lambda>_. 0), gw_sleep_until = (\<lambda>_ w. w), gw_receipted = (\<lambda>_. None),
     gw_index = demo_control, gw_reader = (\<lambda>_. demo_reader), gw_checkpoint = (\<lambda>_. Inr None),
     gw_provenance = (\<lambda>_. Inl (Bail [])), gw_b64 = (\<lambda>s. s), gw_fence = (\<lambda>_. None) \<rparr>"

definition demo_ee :: exec_env where
  "demo_ee = \<lparr> ee_crates = demo_gx, ee_iter = (\<lambda>m. m), ee_tenant_uuid = demo_tenant, ee_now_ms = 3600035, ee_trusted_local = False \<rparr>"

definition demo_no_refusals :: refused_keys where
  "demo_no_refusals = \<lparr> rk_keys = [], rk_dirty = False \<rparr>"

definition demo_deleted :: deleted_key where
  "demo_deleted = \<lparr> dk_key = dr_key demo_planned, dk_permit_id = ''lpd_'' @ demo_sha [], dk_receipt_sha256 = replicate 64 CHR ''b'' \<rparr>"

lemma demo_delete_one: "delete_one demo_world demo_gx demo_planned False w = (Deleted demo_deleted, w)"
proof -
  have valid: "validate_with_local (gx_cal demo_gx) False demo_planned = Inr ()"
    using demo_planned_valid by (simp add: demo_gx_def)
  then have digest: "gx_digest demo_gx False demo_planned = Inr (demo_sha [])"
    by (simp add: digest_with_local_def demo_gx_def demo_sha_def)
  have "permit_verify demo_gx (demo_permit demo_planned) demo_planned 1 False = Inr ()"
    unfolding permit_verify_def digest
    by (simp add: demo_permit_def demo_gx_def PERMIT_SKEW_def DELETE_AUTHORIZATION_MAX_TTL_def)
  moreover have "receipt_verify demo_gx (demo_receipt (demo_permit demo_planned)) (demo_permit demo_planned) False = Inr ()"
    unfolding receipt_verify_def using digest
    by (simp add: demo_permit_def demo_receipt_def DELETE_CONTROL_SCHEMA_VERSION_def is_sha256_hex_def is_lower_hex_def list_all_iff)
  ultimately show ?thesis
    using valid
    by (simp add: delete_one_def prepare_one_def retire_one_def demo_world_def demo_deleted_def demo_permit_def demo_receipt_def)
qed

lemma demo_run:
  assumes "ee_crates ee = demo_gx" "\<not> ee_trusted_local ee"
  shows "ex_deleted (execute_requests demo_world ee [demo_planned] [] demo_no_refusals (authorize_pacer_new 240) resync w) = [demo_deleted]"
proof -
  have "rk_is_refused demo_no_refusals key t = False" "writer_advanced demo_world through w = False" for key t through w
    by (simp_all add: rk_is_refused_def demo_no_refusals_def opt_is_def writer_advanced_def demo_world_def)
  then show ?thesis
    using demo_delete_one assms
    by (simp add: execute_requests_def execute_one_def count_planned_def pace_request_def ask_and_apply_def delete_step_def
        run_delete_def apply_step_def Let_def opt_is_def take_slot_def split: prod.splits option.splits)
qed

theorem deleted_has_receipt_witness:
  "receipted_delete demo_world demo_gx False demo_planned demo_deleted"
  using deleted_has_receipt [of demo_world demo_ee "[demo_planned]" "[]" demo_no_refusals "authorize_pacer_new 240" None demo_status]
    demo_run [of demo_ee None demo_status]
  by (simp add: demo_ee_def)

section \<open>Pacing\<close>

text \<open>The times at which slots were granted, one after the other.\<close>

inductive paced :: "authorize_pacer \<Rightarrow> int list \<Rightarrow> authorize_pacer \<Rightarrow> bool" where
  paced_start: "paced p [] p"
| paced_grant: "paced p ts q \<Longrightarrow> \<forall>t \<in> set ts. t \<le> now \<Longrightarrow> pacer_turn q now = Inr q' \<Longrightarrow> paced p (ts @ [now]) q'"

inductive_cases paced_snocE: "paced p (ts @ [t]) q"

lemma acquire_grants:
  "acquire_loop slp instant p now w = (p', t, w') \<Longrightarrow> now \<le> t \<and> pacer_turn p t = Inr p'"
proof (induction slp instant p now w rule: acquire_loop.induct)
  case (1 slp instant p now w)
  show ?case
  proof (cases "pacer_turn p now")
    case (Inl deadline)
    then have "now \<le> deadline"
      by (auto simp: pacer_turn_def Let_def split: option.splits if_splits)
    then show ?thesis using 1(1) [OF Inl refl] 1(2) Inl by (simp add: acquire_loop.simps [of slp instant p now] Let_def)
  next
    case (Inr q)
    then show ?thesis using 1(2) by (simp add: acquire_loop.simps [of slp instant p now])
  qed
qed

definition granted_in :: "int \<Rightarrow> int \<Rightarrow> int list \<Rightarrow> nat" where
  "granted_in a b ts = length (filter (\<lambda>t. a \<le> t \<and> t < b) ts)"

lemma granted_in_snoc [simp]: "granted_in a b (ts @ [t]) = granted_in a b ts + (if a \<le> t \<and> t < b then 1 else 0)"
  by (simp add: granted_in_def)

lemma granted_in_mono: "c \<le> a \<Longrightarrow> b \<le> d \<Longrightarrow> granted_in a b ts \<le> granted_in c d ts"
  unfolding granted_in_def by (induction ts) auto

lemma granted_in_split: "granted_in a b ts \<le> granted_in a c ts + granted_in c b ts"
  unfolding granted_in_def by (induction ts) auto

lemma granted_in_none: "\<forall>t \<in> set ts. t < a \<Longrightarrow> granted_in a b ts = 0"
  by (auto simp: granted_in_def filter_empty_conv)

text \<open>The current window holds the slots used; the minute before it held at most one window's worth.\<close>

definition pacer_inv :: "nat \<Rightarrow> int list \<Rightarrow> authorize_pacer \<Rightarrow> bool" where
  "pacer_inv n ts p \<longleftrightarrow> ap_per_minute p = n
     \<and> (case ap_window_started p of
          None \<Rightarrow> ts = []
        | Some s \<Rightarrow> s \<in> set ts \<and> (\<forall>t \<in> set ts. t < s + PACER_WINDOW) \<and> (\<forall>b. granted_in s b ts \<le> ap_used p)
            \<and> ap_used p \<le> n \<and> granted_in (s - PACER_WINDOW) s ts \<le> n)
     \<and> (\<forall>x. granted_in x (x + PACER_WINDOW) ts \<le> 2 * n)"

lemma pacer_inv_same:
  assumes inv: "pacer_inv n ts p" "ap_window_started p = Some s" and used: "ap_used p < n"
    and now: "\<forall>t \<in> set ts. t \<le> now" "now < s + PACER_WINDOW"
  shows "pacer_inv n (ts @ [now]) (p\<lparr> ap_used := ap_used p + 1 \<rparr>)"
proof -
  have w: "granted_in s b ts \<le> ap_used p" "granted_in (s - PACER_WINDOW) s ts \<le> n" "granted_in x (x + PACER_WINDOW) ts \<le> 2 * n"
    "s \<in> set ts" "\<forall>t \<in> set ts. t < s + PACER_WINDOW" "ap_per_minute p = n" for b x
    using inv by (auto simp: pacer_inv_def)
  have "granted_in x (x + PACER_WINDOW) (ts @ [now]) \<le> 2 * n" for x
  proof (cases "x \<le> now \<and> now < x + PACER_WINDOW")
    case True
    then have "granted_in x s ts \<le> n" using w(2,4) now(1) granted_in_mono [of "s - PACER_WINDOW" x s s ts] by fastforce
    then have "granted_in x (x + PACER_WINDOW) ts \<le> n + ap_used p"
      using granted_in_split [of x "x + PACER_WINDOW" ts s] w(1) [of "x + PACER_WINDOW"] by linarith
    then show ?thesis using used by simp
  qed (use w(3) in auto)
  moreover have "s \<le> now" using w(4) now(1) by blast
  moreover have "granted_in s b ts \<le> Suc (ap_used p)" for b using w(1) [of b] by simp
  ultimately show ?thesis using w inv(2) now(2) used by (auto simp: pacer_inv_def)
qed

lemma pacer_inv_fresh:
  assumes inv: "pacer_inv n ts p" and n: "1 \<le> n"
    and now: "case ap_window_started p of None \<Rightarrow> True | Some s \<Rightarrow> s + PACER_WINDOW \<le> now"
  shows "pacer_inv n (ts @ [now]) (p\<lparr> ap_window_started := Some now, ap_used := 1 \<rparr>)"
proof (cases "ap_window_started p")
  case None
  then have "ts = []" "ap_per_minute p = n" using inv by (auto simp: pacer_inv_def)
  then show ?thesis using n by (auto simp: pacer_inv_def granted_in_def PACER_WINDOW_def)
next
  case (Some s)
  then have w: "granted_in s b ts \<le> n" "granted_in x (x + PACER_WINDOW) ts \<le> 2 * n"
    "\<forall>t \<in> set ts. t < s + PACER_WINDOW" "ap_per_minute p = n" for b x
    using inv by (auto simp: pacer_inv_def intro: le_trans)
  have after: "s \<le> a \<Longrightarrow> granted_in a b ts \<le> n" for a b
    using w(1) [of b] granted_in_mono [of s a b b ts] by linarith
  have late: "s \<le> now - PACER_WINDOW" "\<forall>t \<in> set ts. t < now" using now Some w(3) by auto
  have "granted_in x (x + PACER_WINDOW) (ts @ [now]) \<le> 2 * n" for x
  proof (cases "x \<le> now \<and> now < x + PACER_WINDOW")
    case True
    then show ?thesis using after [of x "x + PACER_WINDOW"] late(1) n by simp
  qed (use w(2) in auto)
  moreover have "0 < PACER_WINDOW" by (simp add: PACER_WINDOW_def)
  ultimately show ?thesis
    using w(4) n late after [of "now - PACER_WINDOW" now] granted_in_none [OF late(2)]
    by (fastforce simp: pacer_inv_def)
qed

lemma paced_inv:
  assumes "paced p ts q" "p = authorize_pacer_new per_minute"
  shows "pacer_inv (max per_minute 1) ts q"
  using assms
proof induction
  case (paced_start p)
  then show ?case by (simp add: pacer_inv_def authorize_pacer_new_def granted_in_def)
next
  case (paced_grant p ts q now q')
  then have inv: "pacer_inv (max per_minute 1) ts q" by simp
  then have n: "ap_per_minute q = max per_minute 1" by (simp add: pacer_inv_def)
  show ?case
  proof (cases "\<exists>s. ap_window_started q = Some s \<and> now < s + PACER_WINDOW")
    case True
    then obtain s where s: "ap_window_started q = Some s" "now < s + PACER_WINDOW" by blast
    then have "ap_used q < max per_minute 1" "q' = q\<lparr> ap_used := ap_used q + 1 \<rparr>"
      using paced_grant.hyps(3) n by (auto simp: pacer_turn_def Let_def split: if_splits)
    then show ?thesis using pacer_inv_same [OF inv s(1) _ paced_grant.hyps(2) s(2)] by simp
  next
    case False
    then have "q' = q\<lparr> ap_window_started := Some now, ap_used := 1 \<rparr>"
      using paced_grant.hyps(3) by (auto simp: pacer_turn_def Let_def split: option.splits if_splits)
    moreover have "case ap_window_started q of None \<Rightarrow> True | Some s \<Rightarrow> s + PACER_WINDOW \<le> now"
      using False by (auto split: option.splits)
    ultimately show ?thesis using pacer_inv_fresh [OF inv] by simp
  qed
qed

text \<open>Two slots a minute: a slot at 0 s, one at 59 s, and two at 60 s.\<close>

definition demo_grants :: "int list" where
  "demo_grants = [0, 59 * 1000000000, 60 * 1000000000, 60 * 1000000000]"

lemma demo_paced: "\<exists>q. paced (authorize_pacer_new 2) demo_grants q"
proof -
  let ?s = "1000000000 :: int"
  have 1: "paced (authorize_pacer_new 2) [0] \<lparr> ap_per_minute = 2, ap_window_started = Some 0, ap_used = 1 \<rparr>"
    using paced_grant [OF paced_start, of 0] by (simp add: pacer_turn_def authorize_pacer_new_def Let_def)
  have 2: "paced (authorize_pacer_new 2) [0, 59 * ?s] \<lparr> ap_per_minute = 2, ap_window_started = Some 0, ap_used = 2 \<rparr>"
    using paced_grant [OF 1, of "59 * ?s"] by (simp add: pacer_turn_def PACER_WINDOW_def Let_def numeral_2_eq_2)
  have 3: "paced (authorize_pacer_new 2) [0, 59 * ?s, 60 * ?s] \<lparr> ap_per_minute = 2, ap_window_started = Some (60 * ?s), ap_used = 1 \<rparr>"
    using paced_grant [OF 2, of "60 * ?s"] by (simp add: pacer_turn_def PACER_WINDOW_def Let_def)
  show ?thesis
    using paced_grant [OF 3, of "60 * ?s"] by (auto simp: pacer_turn_def PACER_WINDOW_def Let_def demo_grants_def)
qed

text \<open>
  C21: the pacer bounds the owner calls: however the calls come, no 60 seconds contain more than twice
  \<open>per_minute\<close> granted slots. The windows are fixed, so the bound of \<open>per_minute\<close> in every rolling
  minute that the documentation states does not hold: with two slots a minute, three can fall within
  one.
\<close>

theorem pacer_bounds_calls:
  "(\<forall>per_minute ts q x. paced (authorize_pacer_new per_minute) ts q
       \<longrightarrow> granted_in x (x + PACER_WINDOW) ts \<le> 2 * max per_minute 1)
   \<and> (\<exists>ts q x. paced (authorize_pacer_new 2) ts q \<and> 2 < granted_in x (x + PACER_WINDOW) ts)"
proof (intro conjI allI impI)
  fix per_minute ts q x
  assume "paced (authorize_pacer_new per_minute) ts q"
  from paced_inv [OF this refl] show "granted_in x (x + PACER_WINDOW) ts \<le> 2 * max per_minute 1"
    by (simp add: pacer_inv_def)
next
  have "2 < granted_in (59 * 1000000000) (59 * 1000000000 + PACER_WINDOW) demo_grants"
    by (simp add: demo_grants_def granted_in_def PACER_WINDOW_def)
  then show "\<exists>ts q x. paced (authorize_pacer_new 2) ts q \<and> 2 < granted_in x (x + PACER_WINDOW) ts"
    using demo_paced by blast
qed

theorem pacer_bounds_calls_witness:
  "granted_in (59 * 1000000000) (59 * 1000000000 + PACER_WINDOW) demo_grants \<le> 2 * max 2 1"
proof -
  obtain q where "paced (authorize_pacer_new 2) demo_grants q" using demo_paced by blast
  then show ?thesis using pacer_bounds_calls by blast
qed

section \<open>How often the owner is asked\<close>

text \<open>An observation of the world that only authorize calls change: it lists them.\<close>

definition index_keeps :: "'w index_world \<Rightarrow> ('w \<Rightarrow> 'o) \<Rightarrow> bool" where
  "index_keeps iw obs \<longleftrightarrow> (\<forall>r w. obs (snd (iw_index iw r w)) = obs w) \<and> (\<forall>d w. obs (iw_sleep iw d w) = obs w)
     \<and> (\<forall>w. obs (snd (iw_uuid iw w)) = obs w)"

definition observes :: "'w gc_world \<Rightarrow> ('w \<Rightarrow> delete_request list) \<Rightarrow> bool" where
  "observes gw obs \<longleftrightarrow> (\<forall>r w. obs (snd (gw_authorize gw r w)) = obs w @ [r])
     \<and> (\<forall>p w. obs (snd (gw_prepare gw p w)) = obs w) \<and> (\<forall>p w. obs (snd (gw_retire gw p w)) = obs w)
     \<and> (\<forall>d w. obs (gw_sleep_until gw d w) = obs w) \<and> index_keeps (gw_index gw) obs"

lemma index_keepsD:
  assumes "index_keeps iw obs"
  shows "iw_index iw r w = (a, w') \<Longrightarrow> obs w' = obs w" "obs (iw_sleep iw d w) = obs w"
    "iw_uuid iw w = (u, w') \<Longrightarrow> obs w' = obs w" "status_read iw tenant w = (q, w') \<Longrightarrow> obs w' = obs w"
  using assms unfolding index_keeps_def status_read_def by (metis snd_conv, metis, metis snd_conv, auto split: prod.splits)
    (metis snd_conv)

lemma call_retry_keeps:
  assumes "index_keeps iw obs"
  shows "call_retry_loop iw request left w = (a, w') \<Longrightarrow> obs w' = obs w"
proof (induction left arbitrary: w)
  case 0
  then show ?case
    using index_keepsD(1) [OF assms]
    by (fastforce simp: call_retry_loop.simps [of iw request 0] split: prod.splits index_call.splits index_sync_outcome.splits)
next
  case (Suc left)
  obtain r v where v: "iw_index iw request w = (r, v)" by fastforce
  then show ?case
    using Suc.prems Suc.IH index_keepsD(1) [OF assms v] index_keepsD(2) [OF assms]
    by (auto simp: call_retry_loop.simps [of iw request "Suc left"] split: index_call.splits index_sync_outcome.splits)
qed

lemma call_retrying_keeps: "index_keeps iw obs \<Longrightarrow> call_retrying iw request w = (a, w') \<Longrightarrow> obs w' = obs w"
  unfolding call_retrying_def by (rule call_retry_keeps)

lemma send_batch_keeps:
  assumes "index_keeps iw obs" "send_batch iw se st b claim w = (r, w')"
  shows "obs w' = obs w"
  using assms(2)
  by (auto simp: send_batch_def send_shorter_def Let_def split: prod.splits if_splits
      dest!: call_retrying_keeps [OF assms(1)] index_keepsD(3,4) [OF assms(1)])

lemma sync_round_keeps:
  assumes "index_keeps iw obs" "sync_round iw se checkpoint st w = (r, w')"
  shows "obs w' = obs w"
  using assms(2)
  by (auto simp: sync_round_def publish_batch_def settle_sent_def recover_gap_def Let_def
      split: prod.splits if_splits option.splits sum.splits index_call.splits
      dest!: send_batch_keeps [OF assms(1)] call_retrying_keeps [OF assms(1)] index_keepsD(4) [OF assms(1)])

lemma sync_loop_keeps:
  "sync_loop iw se checkpoint left st w = (r, w') \<Longrightarrow> index_keeps iw obs \<Longrightarrow> obs w' = obs w"
  by (induction iw se checkpoint left st w rule: sync_loop.induct)
    (auto split: prod.splits sync_next.splits dest!: sync_round_keeps)

lemma sync_index_keeps:
  assumes "index_keeps iw obs" "sync_index_inner iw se w = (r, w')"
  shows "obs w' = obs w"
  using assms(2)
  by (auto simp: sync_index_inner_def split: prod.splits index_call.splits sum.splits
      dest!: call_retrying_keeps [OF assms(1)] index_keepsD(4) [OF assms(1)] sync_loop_keeps [OF _ assms(1)])

lemma pacer_keeps:
  assumes "\<forall>d w. obs (slp d w) = obs w"
  shows "acquire_loop slp instant p now w = (p', t, w') \<Longrightarrow> obs w' = obs w"
  using assms
proof (induction slp instant p now w rule: acquire_loop.induct)
  case (1 slp instant p now w)
  then show ?case
    by (auto simp: acquire_loop.simps [of slp instant p now] Let_def split: sum.splits)
qed

lemma observesD:
  assumes "observes gw obs"
  shows "gw_authorize gw r w = (a, w') \<Longrightarrow> obs w' = obs w @ [r]" "gw_prepare gw p w = (b, w') \<Longrightarrow> obs w' = obs w"
    "gw_retire gw p w = (c, w') \<Longrightarrow> obs w' = obs w" "index_keeps (gw_index gw) obs" "obs (gw_sleep_until gw d w) = obs w"
  using assms unfolding observes_def by (metis snd_conv)+

lemma take_slot_keeps:
  assumes "observes gw obs"
  shows "obs (ex_w (take_slot gw ex)) = obs (ex_w ex)"
  using pacer_keeps [of obs "gw_sleep_until gw"] observesD(5) [OF assms]
  by (auto simp: take_slot_def pacer_acquire_def split: prod.splits)

lemma delete_one_asks:
  assumes "observes gw obs" "delete_one gw gx request loc w = (st, w')"
  shows "\<exists>calls. obs w' = obs w @ calls \<and> (calls = [] \<or> calls = [request])"
  using assms(2)
  by (auto simp: delete_one_def prepare_one_def retire_one_def split: prod.splits sum.splits if_splits
      dest!: observesD(1-3) [OF assms(1)])

lemma run_delete_asks:
  assumes "observes gw obs" "run_delete gw ee request ex = (st, ex')"
  shows "\<exists>calls. obs (ex_w ex') = obs (ex_w ex) @ calls \<and> (calls = [] \<or> calls = [request])"
    and "ex_resynced ex' = ex_resynced ex \<and> ex_through ex' = ex_through ex"
  using assms delete_one_asks [OF assms(1)] by (auto simp: run_delete_def split: prod.splits)

lemma resync_asks:
  assumes "observes gw obs" "resync_and_retry gw ee request ex = (st, ex')" "ex_through ex \<noteq> None"
  shows "\<exists>calls. obs (ex_w ex') = obs (ex_w ex) @ calls \<and> (calls = [] \<or> calls = [request])"
    and "ex_resynced ex' \<and> ex_through ex' \<noteq> None"
proof -
  obtain r w where run: "sync_index_inner (gw_index gw) (sync_env_of gw (ee_tenant_uuid ee) None (ee_now_ms ee) (ex_w ex)) (ex_w ex) = (r, w)"
    by fastforce
  then have w: "obs w = obs (ex_w ex)" by (rule sync_index_keeps [OF observesD(4) [OF assms(1)]])
  have synced: "(\<exists>calls. obs (ex_w b) = obs (ex_w a) @ calls \<and> (calls = [] \<or> calls = [request]))
      \<and> ex_resynced b = ex_resynced a \<and> ex_through b \<noteq> None"
    if "resync_synced gw ee request status pushed head_ms a = (st, b)" for status pushed head_ms a b
  proof -
    let ?a = "a\<lparr> ex_report := (ex_report a)\<lparr> pr_indexed := pr_indexed (ex_report a) + pushed,
        pr_index_head_seq := ix_indexed_through_seq status, pr_index_head_appended_ms := head_ms \<rparr>,
        ex_through := Some (ix_indexed_through_seq status) \<rparr>"
    have "obs (ex_w (take_slot gw ?a)) = obs (ex_w a)" using take_slot_keeps [OF assms(1), of ?a] by simp
    moreover have "ex_resynced (take_slot gw ?a) = ex_resynced a" "ex_through (take_slot gw ?a) \<noteq> None"
      by (auto simp: take_slot_def split: prod.splits)
    moreover have "(b = take_slot gw ?a) \<or> (\<exists>st'. run_delete gw ee request (take_slot gw ?a) = (st', b))"
      using that by (auto simp: resync_synced_def Let_def split: if_splits)
    ultimately show ?thesis using run_delete_asks [OF assms(1)] by (metis append_Nil2)
  qed
  have step: "(\<exists>status pushed head_ms. resync_synced gw ee request status pushed head_ms (ex\<lparr> ex_resynced := True, ex_w := w \<rparr>) = (st, ex'))
      \<or> (ex_w ex' = w \<and> ex_resynced ex' \<and> ex_through ex' = ex_through ex)"
    using assms(2) run
    by (auto simp: resync_and_retry_def resync_failed_def Let_def split: sum.splits index_sync_outcome.splits if_splits option.splits prod.splits)
  show "\<exists>calls. obs (ex_w ex') = obs (ex_w ex) @ calls \<and> (calls = [] \<or> calls = [request])"
    using step synced [of _ _ _ "ex\<lparr> ex_resynced := True, ex_w := w \<rparr>" ex'] w by fastforce
  show "ex_resynced ex' \<and> ex_through ex' \<noteq> None"
    using step synced [of _ _ _ "ex\<lparr> ex_resynced := True, ex_w := w \<rparr>" ex'] assms(3) by fastforce
qed

text \<open>The one resynchronisation that may still ask a second time for a key.\<close>

definition resync_left :: "'w exec \<Rightarrow> nat" where
  "resync_left ex = (if ex_resynced ex \<or> ex_through ex = None then 0 else 1)"

lemma delete_step_asks:
  assumes "observes gw obs" "delete_step gw ee request ex = (st, ex')"
  shows "\<exists>calls. obs (ex_w ex') = obs (ex_w ex) @ calls \<and> set calls \<subseteq> {request}
    \<and> length calls + resync_left ex' \<le> 1 + resync_left ex"
proof -
  obtain st1 ex1 where one: "run_delete gw ee request ex = (st1, ex1)" by fastforce
  note a = run_delete_asks [OF assms(1) one]
  consider "ex' = ex1" | "resync_and_retry gw ee request ex1 = (st, ex')" "\<not> ex_resynced ex1" "ex_through ex1 \<noteq> None"
    using assms(2) one by (auto simp: delete_step_def split: if_splits)
  then show ?thesis
  proof cases
    case 1
    then show ?thesis using a by (auto simp: resync_left_def)
  next
    case 2
    note b = resync_asks [OF assms(1) 2(1) 2(3)]
    obtain c d where "obs (ex_w ex1) = obs (ex_w ex) @ c" "c = [] \<or> c = [request]"
      "obs (ex_w ex') = obs (ex_w ex1) @ d" "d = [] \<or> d = [request]"
      using a(1) b(1) by blast
    then show ?thesis using a(2) b(2) 2 by (intro exI [of _ "c @ d"]) (auto simp: resync_left_def)
  qed
qed

lemma rk_remember_room:
  assumes "length (rk_keys rk) < MAX_REFUSED_KEYS"
  shows "rk_make_room iter rk key now_ms = rk"
  using assms by (simp add: rk_make_room_def)

lemma rk_remember_keeps:
  assumes "length (rk_keys rk) < MAX_REFUSED_KEYS" "key \<noteq> key'"
  shows "rk_is_refused (rk_remember iter rk key' code now_ms) key t = rk_is_refused rk key t"
  using assms by (simp add: rk_remember_def rk_remember_room rk_is_refused_def bmap_simps)

lemma rk_remember_length:
  "length (rk_keys rk) < MAX_REFUSED_KEYS \<Longrightarrow> length (rk_keys (rk_remember iter rk key code now_ms)) \<le> Suc (length (rk_keys rk))"
  by (simp add: rk_remember_def rk_remember_room length_bput)

text \<open>A remembered key is refused until its time to live has passed.\<close>

lemma rk_remember_refused:
  "rk_is_refused (rk_remember iter rk key code now_ms) key t \<longleftrightarrow> t < sat_add_i64 now_ms (refusal_ttl code)"
  by (simp add: rk_remember_def Let_def rk_is_refused_def bmap_simps opt_is_def)

lemma apply_step_refused:
  assumes "apply_step ee request st ex = (go, ex')"
  shows "ex_refused ex' = ex_refused ex
    \<or> (\<exists>code. ex_refused ex' = rk_remember (ee_iter ee) (ex_refused ex) (dr_key request) code (ee_now_ms ee))"
    and "ex_w ex' = ex_w ex" and "resync_left ex' = resync_left ex"
  using assms by (cases st; auto simp: apply_step_def Let_def resync_left_def split: if_splits)+

lemma paced_asks:
  assumes "observes gw obs"
  shows "obs (ex_w (pace_request gw ee request (count_planned ex))) = obs (ex_w ex)"
    and "resync_left (pace_request gw ee request (count_planned ex)) = resync_left ex"
  using take_slot_keeps [OF assms, of "count_planned ex"]
  by (auto simp: pace_request_def count_planned_def resync_left_def take_slot_def split: prod.splits)

lemma ask_asks:
  assumes "observes gw obs" "ask_and_apply gw ee request ex = (go, ex')"
  shows "\<exists>calls. obs (ex_w ex') = obs (ex_w ex) @ calls \<and> length calls + resync_left ex' \<le> 1 + resync_left ex
    \<and> set calls \<subseteq> {request}"
    and "ex_refused ex' = ex_refused ex
      \<or> (\<exists>code. ex_refused ex' = rk_remember (ee_iter ee) (ex_refused ex) (dr_key request) code (ee_now_ms ee))"
  using assms(2)
proof (atomize (full), cases rule: ask_cases)
  case stopped
  then show "(\<exists>calls. obs (ex_w ex') = obs (ex_w ex) @ calls \<and> length calls + resync_left ex' \<le> 1 + resync_left ex
      \<and> set calls \<subseteq> {request})
    \<and> (ex_refused ex' = ex_refused ex
      \<or> (\<exists>code. ex_refused ex' = rk_remember (ee_iter ee) (ex_refused ex) (dr_key request) code (ee_now_ms ee)))"
    by (auto simp: resync_left_def intro: exI [of _ "[]"])
next
  case (applied st ex1)
  note ap = apply_step_refused [OF applied(2)]
  have "ex_refused ex1 = ex_refused ex" using delete_step_frame [OF applied(1)] by (simp add: exec_frame_def)
  then show "(\<exists>calls. obs (ex_w ex') = obs (ex_w ex) @ calls \<and> length calls + resync_left ex' \<le> 1 + resync_left ex
      \<and> set calls \<subseteq> {request})
    \<and> (ex_refused ex' = ex_refused ex
      \<or> (\<exists>code. ex_refused ex' = rk_remember (ee_iter ee) (ex_refused ex) (dr_key request) code (ee_now_ms ee)))"
    using delete_step_asks [OF assms(1) applied(1)] ap by simp blast
qed

lemma execute_one_asks:
  assumes "observes gw obs" "execute_one gw ee request ex = (go, ex')" "length (rk_keys (ex_refused ex)) < MAX_REFUSED_KEYS"
  shows "\<exists>calls. obs (ex_w ex') = obs (ex_w ex) @ calls \<and> length calls + resync_left ex' \<le> 1 + resync_left ex
    \<and> (\<forall>r \<in> set calls. r = request \<and> \<not> rk_is_refused (ex_refused ex) (dr_key r) (ee_now_ms ee))
    \<and> length (rk_keys (ex_refused ex')) \<le> Suc (length (rk_keys (ex_refused ex)))
    \<and> (\<forall>key. rk_is_refused (ex_refused ex) key (ee_now_ms ee) \<longrightarrow> rk_is_refused (ex_refused ex') key (ee_now_ms ee))"
  using assms(2)
proof (cases rule: execute_one_cases)
  case skipped
  then show ?thesis by (intro exI [of _ "[]"]) (auto simp: count_planned_def resync_left_def)
next
  case asked
  note ask = ask_asks [OF assms(1) asked(2)]
  obtain calls where calls: "obs (ex_w ex') = obs (ex_w ex) @ calls" "length calls + resync_left ex' \<le> 1 + resync_left ex"
    "set calls \<subseteq> {request}"
    using ask(1) unfolding paced_asks [OF assms(1)] by blast
  have rem: "ex_refused ex' = ex_refused ex
      \<or> (\<exists>code. ex_refused ex' = rk_remember (ee_iter ee) (ex_refused ex) (dr_key request) code (ee_now_ms ee))"
    using ask(2) unfolding paced_fields .
  have "length (rk_keys (ex_refused ex')) \<le> Suc (length (rk_keys (ex_refused ex)))"
    using rem rk_remember_length [OF assms(3)] by auto
  moreover have "rk_is_refused (ex_refused ex') key (ee_now_ms ee)"
    if "rk_is_refused (ex_refused ex) key (ee_now_ms ee)" for key
  proof -
    have "key \<noteq> dr_key request" using that asked(1) by auto
    then show ?thesis using rem that rk_remember_keeps [OF assms(3)] by auto
  qed
  ultimately show ?thesis using calls asked(1) by blast
qed

lemma execute_loop_asks:
  assumes "observes gw obs" "length (rk_keys (ex_refused ex)) + length requests \<le> MAX_REFUSED_KEYS"
  shows "\<exists>calls. obs (ex_w (execute_loop gw ee requests ex)) = obs (ex_w ex) @ calls
    \<and> length calls \<le> length requests + resync_left ex
    \<and> (\<forall>r \<in> set calls. r \<in> set requests \<and> \<not> rk_is_refused (ex_refused ex) (dr_key r) (ee_now_ms ee))"
  using assms
proof (induction gw ee requests ex rule: execute_loop.induct)
  case (2 gw ee request rest ex)
  obtain go ex' where one: "execute_one gw ee request ex = (go, ex')" by fastforce
  obtain c where c: "obs (ex_w ex') = obs (ex_w ex) @ c" "length c + resync_left ex' \<le> 1 + resync_left ex"
    "\<forall>r \<in> set c. r = request \<and> \<not> rk_is_refused (ex_refused ex) (dr_key r) (ee_now_ms ee)"
    "length (rk_keys (ex_refused ex')) \<le> Suc (length (rk_keys (ex_refused ex)))"
    "\<forall>key. rk_is_refused (ex_refused ex) key (ee_now_ms ee) \<longrightarrow> rk_is_refused (ex_refused ex') key (ee_now_ms ee)"
    using execute_one_asks [OF "2.prems"(1) one] "2.prems"(2) by auto
  show ?case
  proof (cases go)
    case True
    obtain d where d: "obs (ex_w (execute_loop gw ee rest ex')) = obs (ex_w ex') @ d" "length d \<le> length rest + resync_left ex'"
      "\<forall>r \<in> set d. r \<in> set rest \<and> \<not> rk_is_refused (ex_refused ex') (dr_key r) (ee_now_ms ee)"
      using "2.IH" [OF one [symmetric] True "2.prems"(1)] "2.prems"(2) c(4) by auto
    then show ?thesis using one True c by (intro exI [of _ "c @ d"]) auto
  next
    case False
    then show ?thesis using one c by (intro exI [of _ c]) auto
  qed
qed (auto simp: resync_left_def)


text \<open>The concrete owner above, with a list of the calls it served as its world.\<close>

definition demo_listing :: "delete_request list gc_world" where
  "demo_listing = \<lparr> gw_supports = Pair (Inr True), gw_authorize = (\<lambda>request w. (Inr (demo_permit request), w @ [request])),
     gw_prepare = (\<lambda>permit. Pair (Inr permit)), gw_retire = (\<lambda>permit. Pair (Inr (demo_receipt permit))),
     gw_now = (\<lambda>_. 1), gw_instant = (\<lambda>_. 0), gw_sleep_until = (\<lambda>_ w. w), gw_receipted = (\<lambda>_. None),
     gw_index = \<lparr> iw_index = (\<lambda>_ w. (Inl BearerRefused, w)), iw_sleep = (\<lambda>_ w. w), iw_uuid = Pair ''r'' \<rparr>,
     gw_reader = (\<lambda>_. demo_reader), gw_checkpoint = (\<lambda>_. Inr None),
     gw_provenance = (\<lambda>_. Inl (Bail [])), gw_b64 = (\<lambda>s. s), gw_fence = (\<lambda>_. None) \<rparr>"


section \<open>A whole pass\<close>

lemma view_of_adopted [simp]: "view_of lc es (view\<lparr> gv_adopted_keys := m \<rparr>) = view_of lc es view"
  by (simp add: view_of_def gc_removal_def)

lemma gc_apply_refused:
  assumes "view_of lc es view" "gc_apply lc view entry sha = (Inl e, view')"
  shows "view' = view"
proof -
  have "ls_wf (gv_live view)" using assms(1) replay_wf [OF _ ls_wf_empty] by (auto simp: view_of_def)
  then show ?thesis
    using assms(2) by (auto simp: gc_apply_def split: prod.splits sum.splits dest!: apply_refused)
qed

text \<open>Folding new entries keeps the view that of a log from its first entry.\<close>

lemma catch_up_view_of:
  "catch_up_view_loop lc reader applied n view = (r, view') \<Longrightarrow> view_of lc es view \<Longrightarrow> \<exists>fs. view_of lc (es @ fs) view'"
proof (induction lc reader applied n view arbitrary: es rule: catch_up_view_loop.induct)
  case (1 lc reader applied view)
  then show ?case by (auto intro: exI [of _ "[]"])
next
  case (2 lc reader applied n view)
  let ?seq = "case gc_head_seq view of None \<Rightarrow> 0 | Some seq \<Rightarrow> seq + 1"
  show ?case
  proof (cases "\<exists>v. reader ?seq = Inr (Some v) \<and> le_seq (ve_entry v) = ?seq")
    case True
    then obtain v where v: "reader ?seq = Inr (Some v)" "le_seq (ve_entry v) = ?seq" by blast
    obtain a view1 where ap: "gc_apply lc view (ve_entry v) (ve_sha256 v) = (a, view1)" by fastforce
    show ?thesis
    proof (cases a)
      case (Inl e)
      then have "view' = view"
        using "2.prems" v ap gc_apply_refused [OF "2.prems"(2)] by (auto simp: Let_def)
      then show ?thesis using "2.prems"(2) by (auto intro: exI [of _ "[]"])
    next
      case (Inr u)
      have "view_of lc (es @ [(ve_entry v, ve_sha256 v)]) view1" using view_of_step [OF "2.prems"(2)] ap Inr by blast
      then obtain fs where "view_of lc ((es @ [(ve_entry v, ve_sha256 v)]) @ fs) view'"
        using "2.IH" [OF refl v(1) refl _ ap [symmetric] Inr] "2.prems"(1) v ap Inr by (fastforce simp: Let_def)
      then show ?thesis by (metis append.assoc)
    qed
  next
    case False
    then have "view' = view" using "2.prems"(1) by (auto simp: Let_def split: sum.splits option.splits if_splits)
    then show ?thesis using "2.prems"(2) by (auto intro: exI [of _ "[]"])
  qed
qed

text \<open>What a pass did to the deleted keys, given the view it planned from.\<close>

definition planned_deletes :: "'w gc_world \<Rightarrow> pass_env \<Rightarrow> log_view \<Rightarrow> deleted_key list \<Rightarrow> bool" where
  "planned_deletes gw ps view new \<longleftrightarrow>
     (\<forall>dk \<in> set new. \<exists>r k keys. dk_key dk = dr_key r \<and> receipted_delete gw (ps_crates ps) False r dk
        \<and> parse_part_file_key (gx_cal (ps_crates ps)) (dr_key r) = Some k \<and> \<not> gc_is_live view (fk_part_id k)
        \<and> deletable (pass_plan_env ps view keys) k (dr_reason r))"

lemma plan_collect_planned:
  assumes "plan_cursor_new env objects = Inr cursor" "r \<in> set (fst (plan_collect cursor))"
  shows "\<exists>k. parse_part_file_key (pe_cal env) (dr_key r) = Some k \<and> \<not> gc_is_live (pe_view env) (fk_part_id k)
    \<and> deletable env k (dr_reason r)"
proof -
  obtain rs c where rs: "plan_collect cursor = (rs, c)" by fastforce
  then have "gc_plan env objects = Inr \<lparr> rp_requests = rs, rp_skipped = pc_skipped c, rp_truncated = pc_truncated c \<rparr>"
    using assms(1) by (simp add: gc_plan_def)
  then obtain object where "eligible_request env object = Inr r"
    using gc_plan_eligible assms(2) rs by fastforce
  then show ?thesis using eligible_request_Inr unfolding eligible_request_def by blast
qed

lemma execute_plan_deletes:
  assumes "plan_cursor_new (pass_plan_env ps (gs_view state) keys) objects = Inr cursor"
    and "execute_plan gw ps cursor report state w = (report', state', w')"
  shows "gs_view state' = gs_view state
    \<and> (\<exists>new. gs_pending_deleted state' = gs_pending_deleted state @ new \<and> planned_deletes gw ps (gs_view state) new)"
proof -
  let ?ex = "execute_requests gw (pass_exec_env ps) (fst (plan_collect cursor)) (gs_pending_deleted state) (gs_refused_keys state)
    (gs_pacer state) (Some (pr_index_head_seq report)) w"
  have state': "state' = state\<lparr> gs_pending_deleted := ex_deleted ?ex, gs_refused_keys := ex_refused ?ex, gs_pacer := ex_pacer ?ex \<rparr>"
    using assms(2) by (simp add: execute_plan_def Let_def)
  obtain new where new: "ex_deleted ?ex = gs_pending_deleted state @ new"
    "\<forall>dk \<in> set new. \<exists>r \<in> set (fst (plan_collect cursor)). receipted_delete gw (ps_crates ps) False r dk"
    using execute_requests_deleted [of gw "pass_exec_env ps" "fst (plan_collect cursor)" "gs_pending_deleted state"
      "gs_refused_keys state" "gs_pacer state" "Some (pr_index_head_seq report)" w]
    by (auto simp: pass_exec_env_def)
  have "planned_deletes gw ps (gs_view state) new"
    unfolding planned_deletes_def
  proof
    fix dk assume "dk \<in> set new"
    then obtain r where r: "r \<in> set (fst (plan_collect cursor))" "receipted_delete gw (ps_crates ps) False r dk"
      using new(2) by blast
    then have "dk_key dk = dr_key r" by (auto simp: receipted_delete_def)
    then show "\<exists>r k keys. dk_key dk = dr_key r \<and> receipted_delete gw (ps_crates ps) False r dk
        \<and> parse_part_file_key (gx_cal (ps_crates ps)) (dr_key r) = Some k \<and> \<not> gc_is_live (gs_view state) (fk_part_id k)
        \<and> deletable (pass_plan_env ps (gs_view state) keys) k (dr_reason r)"
      using r plan_collect_planned [OF assms(1) r(1)] by (auto simp: pass_plan_env_def)
  qed
  then show ?thesis using new(1) state' by auto
qed

lemma pass_synced_cases:
  assumes "pass_synced gw ps cursor r state w = (report', state', w')"
  obtains (run) status pushed deleted head_ms settling report where
      "r = Inr (Synced status True pushed deleted head_ms settling)" "index_view_check ps (gs_view state) status = None"
      "execute_plan gw ps cursor report state w = (report', state', w')"
    | (paused) "state' = state"
proof (cases r)
  case (Inl a)
  obtain e pushed where "a = (e, pushed)" by fastforce
  then have "state' = state" using assms Inl by (simp add: pass_synced_def Let_def split: option.splits)
  then show ?thesis by (rule paused)
next
  case (Inr outcome)
  show ?thesis
  proof (cases outcome)
    case (Synced status caught_up pushed deleted head_ms settling)
    show ?thesis
    proof (cases "caught_up \<and> index_view_check ps (gs_view state) status = None")
      case True
      then show ?thesis using run Inr Synced assms by (simp add: pass_synced_def Let_def)
    next
      case False
      then have "state' = state" using assms Inr Synced by (simp add: pass_synced_def Let_def split: if_splits option.splits)
      then show ?thesis by (rule paused)
    qed
  qed (use assms Inr paused in \<open>simp_all add: pass_synced_def Let_def\<close>)
qed

lemma pass_synced_deletes:
  assumes plan: "plan_cursor_new (pass_plan_env ps (gs_view state) keys) objects = Inr cursor"
    and "pass_synced gw ps cursor r state w = (report', state', w')"
  shows "gs_view state' = gs_view state
    \<and> (\<exists>new. gs_pending_deleted state' = gs_pending_deleted state @ new \<and> planned_deletes gw ps (gs_view state) new
          \<and> (new \<noteq> [] \<longrightarrow> (\<exists>status pushed deleted head_ms settling.
               r = Inr (Synced status True pushed deleted head_ms settling) \<and> index_view_check ps (gs_view state) status = None)))"
  using assms(2)
proof (cases rule: pass_synced_cases)
  case (run status pushed deleted head_ms settling report)
  then show ?thesis using execute_plan_deletes [OF plan run(3)] by blast
next
  case paused
  then show ?thesis by (simp add: planned_deletes_def)
qed

text \<open>The index was complete, and exactly the folded view, when the plan was carried out.\<close>

definition pass_sync_env :: "'w gc_world \<Rightarrow> pass_env \<Rightarrow> log_view \<Rightarrow> 'w \<Rightarrow> sync_env" where
  "pass_sync_env gw ps view w =
     sync_env_of gw (ps_tenant_uuid ps) (if ps_bounded_fold_complete ps then Some (gc_head_seq view) else None) (ps_now_ms ps) w"

definition index_ready :: "'w gc_world \<Rightarrow> pass_env \<Rightarrow> log_view \<Rightarrow> bool" where
  "index_ready gw ps view \<longleftrightarrow>
     (\<exists>w status. index_complete (pass_sync_env gw ps view w) status \<and> index_view_check ps view status = None)"

lemma pass_planned_deletes:
  assumes pass: "pass_planned gw ps state w = (report', state', w')"
    and holes: "\<And>view w. reader_contiguous (pass_sync_env gw ps view w)"
  shows "\<exists>m new. gs_view state' = (gs_view state)\<lparr> gv_adopted_keys := m \<rparr>
    \<and> gs_pending_deleted state' = gs_pending_deleted state @ new \<and> planned_deletes gw ps (gs_view state') new
    \<and> (new \<noteq> [] \<longrightarrow> index_ready gw ps (gs_view state'))"
proof -
  let ?keys = "live_part_keys (ps_uuid ps) (gx_cal (ps_crates ps)) (ps_tenant_uuid ps) (gs_view state) (gw_provenance gw)"
  obtain keys view where kv: "?keys = (keys, view)" by fastforce
  then obtain m where view: "view = (gs_view state)\<lparr> gv_adopted_keys := m \<rparr>"
    by (auto simp: live_part_keys_def Let_def split: prod.splits)
  let ?state = "state\<lparr> gs_view := view \<rparr>"
  have idle: ?thesis if "state' = ?state"
    using that view by (intro exI [of _ m] exI [of _ "[]"]) (simp add: planned_deletes_def)
  show ?thesis
  proof (cases "\<exists>live_keys cursor. keys = Inr live_keys \<and> plan_cursor_new (pass_plan_env ps view live_keys) (ps_objects ps) = Inr cursor")
    case True
    then obtain live_keys cursor where plan: "keys = Inr live_keys"
      "plan_cursor_new (pass_plan_env ps view live_keys) (ps_objects ps) = Inr cursor" by blast
    obtain r v where sync: "sync_index_inner (gw_index gw) (pass_sync_env gw ps view w) w = (r, v)" by fastforce
    then have synced: "pass_synced gw ps cursor r ?state v = (report', state', w')"
      using pass kv plan by (simp add: pass_planned_def pass_sync_env_def)
    have ready: "index_ready gw ps view"
      if "r = Inr (Synced status True pushed deleted head_ms settling)" "index_view_check ps view status = None"
      for status pushed deleted head_ms settling
      using that sync_caught_up_complete [OF sync [unfolded that(1)] holes] unfolding index_ready_def by blast
    have plan': "plan_cursor_new (pass_plan_env ps (gs_view ?state) live_keys) (ps_objects ps) = Inr cursor"
      using plan(2) by simp
    show ?thesis using pass_synced_deletes [OF plan' synced] view ready by (intro exI [of _ m]) fastforce
  next
    case False
    then have "state' = ?state" using pass kv by (auto simp: pass_planned_def Let_def split: sum.splits)
    then show ?thesis by (rule idle)
  qed
qed

lemma gc_pass_deletes:
  assumes view: "view_of (ps_log ps) es (gs_view state)"
    and pass: "gc_pass gw ps state w = (report, state', w')"
    and holes: "\<And>view w. reader_contiguous (pass_sync_env gw ps view w)"
  shows "\<exists>fs new. view_of (ps_log ps) (es @ fs) (gs_view state') \<and> gs_pending_deleted state' = gs_pending_deleted state @ new
    \<and> planned_deletes gw ps (gs_view state') new \<and> (new \<noteq> [] \<longrightarrow> index_ready gw ps (gs_view state'))"
proof -
  have idle: ?thesis if "view_of (ps_log ps) (es @ fs) v" "state' = state\<lparr> gs_view := v \<rparr>" for fs v
    using that by (intro exI [of _ fs] exI [of _ "[]"]) (simp add: planned_deletes_def)
  have planned: ?thesis
    if v: "view_of (ps_log ps) (es @ fs) v" and run: "pass_planned gw ps (state\<lparr> gs_view := v \<rparr>) u = (report, state', w')" for fs v u
    using pass_planned_deletes [OF run holes] v by (intro exI [of _ fs]) auto
  obtain sup u where sup: "gw_supports gw w = (sup, u)" by fastforce
  obtain r v where caught: "catch_up_view_bounded (ps_log ps) (gw_reader gw u) MAX_LOG_ENTRIES_PER_PASS (gs_view state) = (r, v)"
    by fastforce
  then obtain fs where fs: "view_of (ps_log ps) (es @ fs) v"
    using catch_up_view_of view unfolding catch_up_view_bounded_def by blast
  consider "state' = state" | "state' = state\<lparr> gs_view := v \<rparr>"
    | "pass_planned gw ps state u = (report, state', w')" | "pass_planned gw ps (state\<lparr> gs_view := v \<rparr>) u = (report, state', w')"
    using pass sup caught by (auto simp: gc_pass_def split: sum.splits bool.splits if_splits)
  then show ?thesis
  proof cases
    case 1 then show ?thesis using idle [of "[]"] view by simp
  next
    case 2 then show ?thesis by (rule idle [OF fs])
  next
    case 3 then show ?thesis using planned [of "[]" "gs_view state"] view by simp
  next
    case 4 then show ?thesis by (rule planned [OF fs])
  qed
qed

text \<open>No entry appended later, not older than the orphan margin before the clock, makes a part live again.\<close>

definition never_live_again :: "log_crates \<Rightarrow> (log_entry \<times> string) list \<Rightarrow> int \<Rightarrow> part_id \<Rightarrow> bool" where
  "never_live_again lc es now_ms pid \<longleftrightarrow>
     (\<forall>later ls. replay lc empty_live_set (es @ later) = Inr ls \<and> sorted (log_times (es @ later))
         \<and> (\<forall>t \<in> set (log_times later). now_ms - ORPHAN_ID_MEMORY_MARGIN_MS < t)
       \<longrightarrow> map_of (ls_live ls) pid = None)"

lemma deletable_never_live:
  assumes "view_of (ps_log ps) es view" "parse_part_file_key cal key = Some k"
    and "deletable (pass_plan_env ps view keys) k reason"
  shows "never_live_again (ps_log ps) es (ps_now_ms ps) (fk_part_id k)"
proof -
  have "view_of (ps_log ps) es (pe_view (pass_plan_env ps view keys))" "pe_now_ms (pass_plan_env ps view keys) = ps_now_ms ps"
    using assms(1) by (simp_all add: pass_plan_env_def)
  then show ?thesis
    using planned_part_stays_dead [OF _ assms(2,3)] unfolding never_live_again_def by metis
qed


text \<open>A pass over the log of three entries control has indexed, with one superseded object listed.\<close>

definition demo_ps :: pass_env where
  "demo_ps = \<lparr> ps_log = demo_lc, ps_crates = demo_gx, ps_uuid = Some, ps_iter = (\<lambda>m. m), ps_tenant_id = ''acme'',
     ps_tenant_uuid = demo_tenant, ps_objects = [demo_object], ps_now_ms = 3600035, ps_policy = default_gc_policy,
     ps_bounded_fold_complete = False \<rparr>"

definition demo_state :: gc_state where
  "demo_state = \<lparr> gs_view = demo_view, gs_pending_deleted = [], gs_backoff_passes = 0, gs_refused_keys = demo_no_refusals,
     gs_pacer = authorize_pacer_new 240 \<rparr>"

definition demo_indexed :: index_status where
  "demo_indexed = \<lparr> ix_tenant_uuid = demo_tenant, ix_indexed_through_seq = Some 2, ix_head_entry_sha256 = Some (demo_sha []),
     ix_checkpoint_seq = None, ix_folded_through_seq = None \<rparr>"

lemma demo_live: "map snd (ls_live (gv_live demo_view)) = [demo_ref (demo_pid ''03'') Minute]" "gc_head_seq demo_view = Some 2"
proof -
  have live: "replay demo_lc empty_live_set demo_prefix = Inr (gv_live demo_view)"
    using gc_replay_view [OF demo_view_replay] by (simp add: view_of_def)
  have "bind_res (replay demo_lc empty_live_set demo_prefix) (\<lambda>ls. Inr (map snd (ls_live ls), map_option fst (ls_head ls)))
      = Inr ([demo_ref (demo_pid ''03'') Minute], Some 2)"
    by code_simp
  then show "map snd (ls_live (gv_live demo_view)) = [demo_ref (demo_pid ''03'') Minute]" "gc_head_seq demo_view = Some 2"
    using live by (simp_all add: gc_head_seq_def)
qed

lemma demo_live_keys:
  "\<exists>keys m. live_part_keys Some demo_calendar demo_tenant demo_view reader = (Inr keys, demo_view\<lparr> gv_adopted_keys := m \<rparr>)
     \<and> \<not> bhas keys (lp_key demo_object)"
proof -
  let ?keys = "insert_all (part_dir_keys (demo_dir Minute (demo_pid ''03'')) 1) []"
  let ?m = "bretain (\<lambda>pid _. map_of (ls_live (gv_live demo_view)) pid \<noteq> None) (gv_adopted_keys demo_view)"
  have "live_part_keys Some demo_calendar demo_tenant demo_view reader = (Inr ?keys, demo_view\<lparr> gv_adopted_keys := ?m \<rparr>)"
    by (simp add: live_part_keys_def demo_live Let_def demo_ref_def demo_part_keys)
  moreover have "\<not> bhas ?keys (lp_key demo_object)"
    by (auto simp: insert_all_has part_dir_keys_def demo_dir_def demo_object_def part_file_def demo_pid_def)
  ultimately show ?thesis by blast
qed

lemma demo_pass_sync:
  "sync_index_inner demo_control (pass_sync_env demo_world demo_ps view w) demo_indexed
     = (Inr (Synced demo_indexed True 0 0 None False), demo_indexed)"
proof -
  let ?se = "pass_sync_env demo_world demo_ps view w"
  have env: "se_tenant_uuid ?se = demo_tenant" "se_checkpoint ?se = Inr None" "se_view_target ?se = None" "se_reader ?se 3 = Inr None"
    by (simp_all add: pass_sync_env_def sync_env_of_def demo_world_def demo_reader_def demo_ps_def)
  have ctl: "iw_uuid demo_control w = (''r'', w)" "iq_entries request = [] \<Longrightarrow> iw_index demo_control request w = (Inr w, w)" for w request
    by (simp_all add: demo_control_def)
  obtain m n where n: "MAX_INDEX_REQUESTS_PER_SYNC = Suc m" "MAX_INDEX_ENTRIES = Suc n"
    by (rule that [of 7 255]) (simp_all add: MAX_INDEX_REQUESTS_PER_SYNC_def MAX_INDEX_ENTRIES_def)
  have fill: "fill_batch ?se 3 (Suc k) (batch_new prev) = Inr (Inr ((batch_new prev)\<lparr> bt_exhausted := True \<rparr>))" for k prev
    using env by (simp add: target_reached_def batch_new_def opt_is_def)
  show ?thesis
    unfolding sync_index_inner_def n(1)
    by (simp add: status_read_def ctl env demo_call demo_indexed_def call_answer_def Let_def sync_round_def expected_prev_of_def
        next_seq_of_def n(2) fill publish_batch_def claim_due_def synced_def batch_new_def)
qed

lemma plan_one_adopted [simp]:
  "plan_one cal tenant_id tenant_uuid (v\<lparr> gv_adopted_keys := m \<rparr>) = plan_one cal tenant_id tenant_uuid v"
proof -
  have keeps: "gc_is_live (v\<lparr> gv_adopted_keys := m \<rparr>) = gc_is_live v" "gc_removal (v\<lparr> gv_adopted_keys := m \<rparr>) = gc_removal v"
    "gc_is_known (v\<lparr> gv_adopted_keys := m \<rparr>) = gc_is_known v" "gv_from_genesis (v\<lparr> gv_adopted_keys := m \<rparr>) = gv_from_genesis v"
    by (auto simp: gc_is_live_def gc_removal_def gc_is_known_def)
  show ?thesis by (intro ext) (unfold plan_one_def keeps, rule refl)
qed

lemma demo_pass_eligible:
  assumes "\<not> bhas keys (lp_key demo_object)"
  shows "eligible_request (pass_plan_env demo_ps (demo_view\<lparr> gv_adopted_keys := m \<rparr>) keys) demo_object = Inr demo_planned"
  using demo_plan_one demo_planned_valid assms
  by (simp add: eligible_request_def eligible_request_with_local_def pass_plan_env_def demo_ps_def demo_gx_def
      default_gc_policy_def MIN_GRACE_SECONDS_def starts_with_def PARTS_ROOT_def demo_planned_fields demo_object_def
      part_file_def demo_dir_def demo_tenant_def)

lemma demo_pass_plan:
  assumes "\<not> bhas keys (lp_key demo_object)"
  shows "\<exists>cursor. plan_cursor_new (pass_plan_env demo_ps (demo_view\<lparr> gv_adopted_keys := m \<rparr>) keys) [demo_object] = Inr cursor
    \<and> fst (plan_collect cursor) = [demo_planned]"
proof -
  let ?env = "pass_plan_env demo_ps (demo_view\<lparr> gv_adopted_keys := m \<rparr>) keys"
  have "gc_policy_validate False (pe_policy ?env) = Inr ()" using demo_policy_ok by (simp add: pass_plan_env_def demo_ps_def)
  then obtain cursor where cursor: "plan_cursor_new ?env [demo_object] = Inr cursor" by (simp add: plan_cursor_new_def)
  obtain rs c where rs: "plan_collect cursor = (rs, c)" by fastforce
  then have "gc_plan ?env [demo_object] = Inr \<lparr> rp_requests = rs, rp_skipped = pc_skipped c, rp_truncated = pc_truncated c \<rparr>"
    using cursor by (simp add: gc_plan_def)
  then have "rs = [demo_planned]"
    using gc_plan_wanted(1) demo_pass_eligible [OF assms]
    by (fastforce simp: sorted_listing_def pass_plan_env_def demo_ps_def default_gc_policy_def)
  then show ?thesis using cursor rs by simp
qed

lemma demo_pass:
  "\<exists>report state' w'. gc_pass demo_world demo_ps demo_state demo_indexed = (report, state', w') \<and> gs_pending_deleted state' = [demo_deleted]"
proof -
  obtain n where n: "MAX_LOG_ENTRIES_PER_PASS = Suc n" by (rule that [of 2047]) (simp add: MAX_LOG_ENTRIES_PER_PASS_def)
  have caught: "catch_up_view_bounded demo_lc (gw_reader demo_world w) MAX_LOG_ENTRIES_PER_PASS demo_view = (Inr 0, demo_view)" for w
    by (simp add: catch_up_view_bounded_def n demo_live demo_world_def demo_reader_def)
  obtain keys m where keys: "live_part_keys Some demo_calendar demo_tenant demo_view (gw_provenance demo_world)
      = (Inr keys, demo_view\<lparr> gv_adopted_keys := m \<rparr>)" "\<not> bhas keys (lp_key demo_object)" using demo_live_keys by blast
  let ?view = "demo_view\<lparr> gv_adopted_keys := m \<rparr>"
  obtain cursor where cursor: "plan_cursor_new (pass_plan_env demo_ps ?view keys) [demo_object] = Inr cursor"
    "fst (plan_collect cursor) = [demo_planned]" using demo_pass_plan [OF keys(2)] by blast
  have planned: "pass_planned demo_world demo_ps demo_state demo_indexed =
      pass_synced demo_world demo_ps cursor (Inr (Synced demo_indexed True 0 0 None False)) (demo_state\<lparr> gs_view := ?view \<rparr>) demo_indexed"
    using keys(1) cursor(1) demo_pass_sync [of ?view demo_indexed]
    by (simp add: pass_planned_def demo_ps_def demo_state_def demo_gx_def pass_sync_env_def demo_world_def)
  have run: "ex_deleted (execute_requests demo_world (pass_exec_env demo_ps) [demo_planned] [] demo_no_refusals
      (authorize_pacer_new 240) resync w) = [demo_deleted]" for resync w
    by (rule demo_run) (simp_all add: pass_exec_env_def demo_ps_def)
  have "gw_supports demo_world w = (Inr True, w)" for w by (simp add: demo_world_def)
  then have "gc_pass demo_world demo_ps demo_state demo_indexed = pass_planned demo_world demo_ps demo_state demo_indexed"
    using caught by (simp add: gc_pass_def demo_ps_def demo_state_def MAX_LOG_ENTRIES_PER_PASS_def)
  then show ?thesis
    using planned run cursor(2)
    by (simp add: pass_synced_def Let_def index_view_check_def execute_plan_def demo_ps_def demo_state_def)
qed


section \<open>Back-off and budgets\<close>

text \<open>The wait between passes grows from the base to at most the larger of six hours and the base.\<close>

lemma next_pass_delay_bounds:
  assumes "base \<le> DURATION_MAX"
  shows "base \<le> next_pass_delay n base" "next_pass_delay n base \<le> max MAX_BACKOFF base"
proof -
  have "base * 1 \<le> base * 2 ^ min n 16" by (rule mult_le_mono2) simp
  then show "base \<le> next_pass_delay n base" using assms by (auto simp: next_pass_delay_def)
  show "next_pass_delay n base \<le> max MAX_BACKOFF base" by (auto simp: next_pass_delay_def)
qed

lemma next_pass_delay_mono: "m \<le> n \<Longrightarrow> base \<le> DURATION_MAX \<Longrightarrow> next_pass_delay m base \<le> next_pass_delay n base"
proof (cases "m = 0")
  case False
  assume "m \<le> n"
  then have "base * 2 ^ min m 16 \<le> base * 2 ^ min n 16" by (intro mult_le_mono2 power_increasing) auto
  then show ?thesis using False \<open>m \<le> n\<close> by (auto simp: next_pass_delay_def min_le_iff_disj)
qed (simp add: next_pass_delay_def next_pass_delay_bounds [unfolded next_pass_delay_def])

text \<open>Another pass over the same listing starts only on a shorter listing and within the budget.\<close>

lemma after_pass_progress:
  assumes "after_pass self objects receipted refused now_ms report = (again, self', kept)"
  shows "again \<Longrightarrow> length kept < length objects" "again \<Longrightarrow> ib_deleted self' < ib_budget self'"
    "ib_budget self' = ib_budget self" "set kept \<subseteq> set objects"
    "object \<in> set kept \<Longrightarrow> lp_key object \<notin> set receipted \<and> \<not> rk_is_refused refused (lp_key object) now_ms"
  using assms by (auto simp: after_pass_def Let_def next_pass_def split: if_splits)

lemma next_pass_within_budget:
  "next_pass self max_requests = Some n \<Longrightarrow> n \<le> max_requests \<and> ib_deleted self + n \<le> ib_budget self"
  by (auto simp: next_pass_def split: if_splits)

end
