(* ===== verification/Spec2Isabelle.thy ===== *)
theory Spec2Isabelle
  imports Merkle Edge_Log Canonical_Json Provenance Owner_Signing Part_Ref Merge_Levels Log_Writer Merge_Attempts Admission_Attempts Gc_Executor_Props
begin

text \<open>
  Verification library for the lean-lake part store of the nano SIEM
  (crates \<open>nanosiem-lake-worker\<close> and \<open>nanosiem-lake-cell\<close>).
\<close>

end
